(* ===== verification/Token_Estimation.thy ===== *)
theory Token_Estimation
  imports Prelude
begin

text \<open>
  The token arithmetic of \<open>crates/codegen/xai-token-estimation\<close>: the bytes/4 heuristic and the
  integer gates that decide when the context window is full enough to compact. Every value is a
  \<open>u64\<close> and every product saturates, as in the source. The two functions that go through
  \<open>f64\<close> (\<open>usage_percentage\<close>, \<open>usage_percentage_u8\<close>) are not modelled.
\<close>

section \<open>The estimators\<close>

definition BYTES_PER_TOKEN :: u64 where
  "BYTES_PER_TOKEN = 4"

definition IMAGE_TOKEN_ESTIMATE :: u64 where
  "IMAGE_TOKEN_ESTIMATE = 765"

definition estimate_tokens :: "string \<Rightarrow> u64" where
  "estimate_tokens s = word_of_nat (length s) div BYTES_PER_TOKEN"

definition estimate_chars :: "u64 \<Rightarrow> u64" where
  "estimate_chars tokens = saturating_mul tokens BYTES_PER_TOKEN"

definition estimate_image_tokens :: "u64 \<Rightarrow> u64" where
  "estimate_image_tokens image_count = saturating_mul image_count IMAGE_TOKEN_ESTIMATE"

definition usage_percentage_truncated_u8 :: "u64 \<Rightarrow> u64 \<Rightarrow> u8" where
  "usage_percentage_truncated_u8 used tot =
     (case checked_div (saturating_mul used 100) tot of
        None \<Rightarrow> 0
      | Some pct \<Rightarrow> ucast (min pct 100))"

definition free_tokens :: "u64 \<Rightarrow> u64 \<Rightarrow> u64" where
  "free_tokens tot used = saturating_sub tot used"

definition exceeds_threshold :: "u64 \<Rightarrow> u64 \<Rightarrow> u8 \<Rightarrow> bool" where
  "exceeds_threshold used context_window threshold_percent =
     (if context_window = 0 then False
      else saturating_mul context_window (ucast threshold_percent) \<le> saturating_mul used 100)"

definition exceeds_threshold_with_headroom :: "u64 \<Rightarrow> u64 \<Rightarrow> u8 \<Rightarrow> u64 \<Rightarrow> bool" where
  "exceeds_threshold_with_headroom used context_window threshold_percent headroom =
     (if context_window = 0 then False
      else saturating_sub (saturating_mul context_window (ucast threshold_percent))
             (saturating_mul headroom 100)
           \<le> saturating_mul used 100)"

lemmas token_defs =
  estimate_tokens_def estimate_chars_def estimate_image_tokens_def BYTES_PER_TOKEN_def
  IMAGE_TOKEN_ESTIMATE_def usage_percentage_truncated_u8_def free_tokens_def
  exceeds_threshold_def exceeds_threshold_with_headroom_def checked_div_def

section \<open>The estimators read as naturals\<close>

lemma unat_ucast_u8: "unat (ucast (p :: u8) :: u64) = unat p"
proof -
  have "unat p < 2 ^ LENGTH(8)" by (rule unsigned_less)
  then show ?thesis by (simp add: unsigned_ucast_eq take_bit_nat_eq_self)
qed

lemma unat_estimate_tokens:
  "length s < 2 ^ 64 \<Longrightarrow> unat (estimate_tokens s) = length s div 4"
  by (simp add: token_defs unat_div unat_of_nat)

lemma unat_truncated_pct:
  assumes "tot \<noteq> 0"
  shows "unat (usage_percentage_truncated_u8 used tot) =
           min (min (unat used * 100) (2 ^ 64 - 1) div unat tot) 100"
proof -
  let ?q = "saturating_mul used 100 div tot"
  have "unat (ucast (min ?q 100) :: u8) = unat (min ?q 100)"
  proof -
    have "unat (min ?q 100) \<le> 100" by (auto simp: min_def word_le_nat_alt)
    then show ?thesis by (simp add: unsigned_ucast_eq take_bit_nat_eq_self)
  qed
  moreover have "unat (min ?q 100) = min (unat ?q) 100"
    by (simp add: min_def word_le_nat_alt)
  moreover have "unat ?q = min (unat used * 100) (2 ^ 64 - 1) div unat tot"
    by (simp add: unat_div u64_simps)
  ultimately show ?thesis
    using assms by (simp add: usage_percentage_truncated_u8_def checked_div_def)
qed

lemma exceeds_threshold_nat:
  "exceeds_threshold used cw p \<longleftrightarrow>
     cw \<noteq> 0 \<and> min (unat cw * unat p) (2 ^ 64 - 1) \<le> min (unat used * 100) (2 ^ 64 - 1)"
  by (simp add: exceeds_threshold_def word_le_nat_alt u64_simps unat_ucast_u8)

lemma exceeds_headroom_nat:
  "exceeds_threshold_with_headroom used cw p h \<longleftrightarrow>
     cw \<noteq> 0 \<and> min (unat cw * unat p) (2 ^ 64 - 1) - min (unat h * 100) (2 ^ 64 - 1)
               \<le> min (unat used * 100) (2 ^ 64 - 1)"
  by (simp add: exceeds_threshold_with_headroom_def word_le_nat_alt u64_simps unat_ucast_u8)

section \<open>Properties\<close>

text \<open>
  The compaction gate and the percentage shown to the user agree: on a non-empty window and a
  threshold of at most 100 percent, the gate fires exactly when the truncated percentage has
  reached the threshold, for every usage whose product with 100 fits 64 bits (the product of
  window and threshold may saturate).
\<close>

theorem gate_matches_percentage:
  assumes "cw \<noteq> 0" and "p \<le> 100" and "unat used * 100 < 2 ^ 64"
  shows "exceeds_threshold used cw p \<longleftrightarrow> p \<le> usage_percentage_truncated_u8 used cw"
proof -
  have cw: "0 < unat cw" using assms(1) by (simp add: unat_gt_0)
  have p: "unat p \<le> 100" using assms(2) by (simp add: word_le_nat_alt)
  have "p \<le> usage_percentage_truncated_u8 used cw \<longleftrightarrow> unat p \<le> min (unat used * 100 div unat cw) 100"
    using assms by (simp add: word_le_nat_alt unat_truncated_pct)
  also have "\<dots> \<longleftrightarrow> unat p * unat cw \<le> unat used * 100"
    using p cw by (simp add: less_eq_div_iff_mult_less_eq)
  also have "\<dots> \<longleftrightarrow> min (unat cw * unat p) (2 ^ 64 - 1) \<le> min (unat used * 100) (2 ^ 64 - 1)"
  proof (cases "unat cw * unat p < 2 ^ 64")
    case True
    then show ?thesis using assms(3) by (simp add: mult.commute)
  next
    case False
    moreover have "unat used * 100 \<noteq> 2 ^ 64 - 1"
    proof
      assume "unat used * 100 = 2 ^ 64 - 1"
      then have "unat used * 100 mod 100 = (2 ^ 64 - 1) mod 100" by (simp only:)
      then show False by simp
    qed
    ultimately show ?thesis using assms(3) by (simp add: mult.commute min_def)
  qed
  finally show ?thesis using assms(1) by (simp add: exceeds_threshold_nat)
qed

lemma gate_matches_percentage_witness:
  "exceeds_threshold 85000 100000 85 \<longleftrightarrow> 85 \<le> usage_percentage_truncated_u8 85000 100000"
  by (rule gate_matches_percentage) simp_all

text \<open>
  Reserving headroom only ever makes the gate fire earlier: it fires whenever the plain gate
  does, with no headroom it is the plain gate, and more headroom keeps it firing.
\<close>

theorem headroom_fires_earlier:
  "exceeds_threshold_with_headroom used cw p 0 = exceeds_threshold used cw p
   \<and> (exceeds_threshold used cw p \<longrightarrow> exceeds_threshold_with_headroom used cw p h)
   \<and> (h \<le> h' \<longrightarrow> exceeds_threshold_with_headroom used cw p h \<longrightarrow> exceeds_threshold_with_headroom used cw p h')"
  by (auto simp: exceeds_threshold_nat exceeds_headroom_nat word_le_nat_alt)

lemma headroom_fires_earlier_witness:
  "exceeds_threshold_with_headroom 80 100 85 5 \<and> exceeds_threshold_with_headroom 80 100 85 6"
  using headroom_fires_earlier [of 80 100 85 5 6]
  by (simp add: exceeds_headroom_nat)

end
