(* ===== verification/Retry_Policy.thy ===== *)
theory Retry_Policy
  imports Prelude
begin

text \<open>
  \<open>crates/common/xai-circuit-breaker\<close>: which responses a caller retries. \<open>RetryPolicy\<close>
  classifies an HTTP status (\<open>retry_policy.rs\<close>), \<open>GrpcRetryPolicy\<close> a gRPC code
  (\<open>grpc.rs\<close>). The gRPC codes are those of \<open>tonic::Code\<close>.
\<close>

section \<open>HTTP\<close>

datatype disposition = Retryable | AuthRefresh | Terminal

record retry_policy =
  retryable :: "u16 list"
  auth_refresh :: "u16 list"
  terminal :: "u16 list"
  default_disposition :: disposition

definition classify :: "retry_policy \<Rightarrow> u16 \<Rightarrow> disposition option" where
  "classify p status =
     (if 200 \<le> status \<and> status < 300 then None
      else if status \<in> set (auth_refresh p) then Some AuthRefresh
      else if status \<in> set (terminal p) then Some Terminal
      else if status \<in> set (retryable p) \<or> (500 \<le> status \<and> status < 600) then Some Retryable
      else Some (default_disposition p))"

definition should_retry :: "retry_policy \<Rightarrow> u16 \<Rightarrow> bool" where
  "should_retry p status = (classify p status = Some Retryable)"

definition server_policy :: retry_policy where
  "server_policy = \<lparr>retryable = [429], auth_refresh = [], terminal = [],
     default_disposition = Terminal\<rparr>"

definition edge_client_policy :: retry_policy where
  "edge_client_policy = \<lparr>retryable = [429], auth_refresh = [], terminal = [525, 526],
     default_disposition = Terminal\<rparr>"

definition client_storage_policy :: retry_policy where
  "client_storage_policy = \<lparr>retryable = [], auth_refresh = [401],
     terminal = [400, 403, 404, 525, 526], default_disposition = Retryable\<rparr>"

section \<open>gRPC\<close>

datatype grpc_code =
    Ok | Cancelled | Unknown | InvalidArgument | DeadlineExceeded | NotFound | AlreadyExists
  | PermissionDenied | ResourceExhausted | FailedPrecondition | Aborted | OutOfRange
  | Unimplemented | Internal | Unavailable | DataLoss | Unauthenticated

record grpc_retry_policy =
  grpc_retryable :: "grpc_code list"

definition grpc_default :: grpc_retry_policy where
  "grpc_default = \<lparr>grpc_retryable = [Unavailable, Unknown]\<rparr>"

definition grpc_permissive :: grpc_retry_policy where
  "grpc_permissive = \<lparr>grpc_retryable = [Unavailable, Unknown, Internal, DeadlineExceeded]\<rparr>"

definition grpc_is_retryable :: "grpc_retry_policy \<Rightarrow> grpc_code \<Rightarrow> bool" where
  "grpc_is_retryable p c = (c \<in> set (grpc_retryable p))"

fun grpc_classify :: "grpc_retry_policy \<Rightarrow> grpc_code \<Rightarrow> disposition option" where
  "grpc_classify p Ok = None"
| "grpc_classify p c = (if grpc_is_retryable p c then Some Retryable else Some Terminal)"

lemmas policy_defs = server_policy_def edge_client_policy_def client_storage_policy_def

section \<open>What the presets do\<close>

lemma classify_None_iff: "classify p status = None \<longleftrightarrow> 200 \<le> status \<and> status < 300"
  by (simp add: classify_def)

lemma classify_5xx:
  assumes "500 \<le> status" "status < 600" "status \<notin> set (auth_refresh p)" "status \<notin> set (terminal p)"
  shows "classify p status = Some Retryable"
proof -
  have "\<not> status < 300" using assms(1) by (simp add: word_le_nat_alt word_less_nat_alt)
  with assms show ?thesis by (simp add: classify_def)
qed

lemma grpc_classify_Some:
  "c \<noteq> Ok \<Longrightarrow> grpc_classify p c = (if grpc_is_retryable p c then Some Retryable else Some Terminal)"
  by (cases c) simp_all

end
