(* ===== verification/Sliding_Window.thy ===== *)
theory Sliding_Window
  imports Prelude
begin

text \<open>
  \<open>crates/common/xai-circuit-breaker/src/window.rs\<close>: the bounded sliding window over
  \<open>(timestamp, is_failure)\<close> samples with its incremental failure counter. An instant is the
  number of nanoseconds since the platform's origin and a duration a number of nanoseconds. The
  locale \<open>sample_window\<close> is what the breaker relies on; the interpretation at the end proves
  it for this window.
\<close>

section \<open>The interface the breaker uses\<close>

text \<open>
  \<open>samples\<close> is the content the window stands for: the live samples, oldest first.
  \<open>log1\<close> is one \<open>push\<close> followed by \<open>evict\<close> at the same instant, which is how
  \<open>CircuitBreaker::record\<close> uses the window.
\<close>

locale sample_window =
  fixes empty :: 'w
    and push :: "'w \<Rightarrow> bool \<Rightarrow> nat \<Rightarrow> 'w"
    and evict :: "'w \<Rightarrow> nat \<Rightarrow> nat \<Rightarrow> 'w"
    and clear :: "'w \<Rightarrow> 'w"
    and count :: "'w \<Rightarrow> nat"
    and fails :: "'w \<Rightarrow> nat"
    and samples :: "'w \<Rightarrow> (nat \<times> bool) list"
    and cap :: nat
    and inv :: "'w \<Rightarrow> bool"
  assumes inv_empty: "inv empty"
    and inv_push: "inv w \<Longrightarrow> inv (push w f t)"
    and inv_evict: "inv w \<Longrightarrow> inv (evict w d t)"
    and inv_clear: "inv w \<Longrightarrow> inv (clear w)"
    and samples_empty: "samples empty = []"
    and samples_clear: "samples (clear w) = []"
    and samples_push: "inv w \<Longrightarrow>
      samples (push w f t) = (if length (samples w) < cap then samples w else tl (samples w)) @ [(t, f)]"
    and samples_evict: "inv w \<Longrightarrow>
      samples (evict w d t) = (if d \<le> t then dropWhile (\<lambda>s. fst s < t - d) (samples w) else samples w)"
    and count_samples: "inv w \<Longrightarrow> count w = length (samples w)"
    and fails_samples: "inv w \<Longrightarrow> fails w = length (filter snd (samples w))"
    and samples_cap: "inv w \<Longrightarrow> length (samples w) \<le> cap"
begin

definition log1 :: "nat \<Rightarrow> 'w \<Rightarrow> nat \<times> bool \<Rightarrow> 'w" where
  "log1 d w s = evict (push w (snd s) (fst s)) d (fst s)"

definition log_all :: "nat \<Rightarrow> 'w \<Rightarrow> (nat \<times> bool) list \<Rightarrow> 'w" where
  "log_all d w ss = foldl (log1 d) w ss"

lemma log_all_simps [simp]:
  "log_all d w [] = w"
  "log_all d w (s # ss) = log_all d (log1 d w s) ss"
  by (simp_all add: log_all_def)

lemma inv_log: "inv w \<Longrightarrow> inv (log1 d w s)"
  by (simp add: log1_def inv_evict inv_push)

lemma inv_log_all: "inv w \<Longrightarrow> inv (log_all d w ss)"
  by (induction ss arbitrary: w) (auto simp: inv_log)

lemma fails_le_count: "inv w \<Longrightarrow> fails w \<le> count w"
  by (simp add: fails_samples count_samples)

lemma samples_log:
  assumes "inv w"
  shows "samples (log1 d w s) =
    (let xs = (if length (samples w) < cap then samples w else tl (samples w)) @ [s]
     in if d \<le> fst s then dropWhile (\<lambda>x. fst x < fst s - d) xs else xs)"
  using assms by (simp add: log1_def samples_evict samples_push inv_push Let_def)

lemma suffix_samples_log: "inv w \<Longrightarrow> suffix (samples (log1 d w s)) (samples w @ [s])"
proof -
  assume w: "inv w"
  let ?xs = "(if length (samples w) < cap then samples w else tl (samples w)) @ [s]"
  have "suffix ?xs (samples w @ [s])"
    by (cases "samples w") (auto simp: suffix_def)
  moreover have "suffix (samples (log1 d w s)) ?xs"
    using w by (simp add: samples_log Let_def suffix_dropWhile del: dropWhile_append1 dropWhile_append2 suffix_snoc)
  ultimately show ?thesis using suffix_order.trans by blast
qed

text \<open>However many samples arrive, what the window holds is a run of the most recent ones.\<close>

lemma suffix_samples_log_all: "inv w \<Longrightarrow> suffix (samples (log_all d w ss)) (samples w @ ss)"
proof (induction ss arbitrary: w)
  case Nil
  then show ?case by simp
next
  case (Cons s ss)
  have "suffix (samples (log_all d (log1 d w s) ss)) (samples (log1 d w s) @ ss)"
    using Cons by (simp add: inv_log)
  moreover have "suffix (samples (log1 d w s) @ ss) (samples w @ s # ss)"
    using suffix_samples_log [OF Cons.prems, of d s] by (auto simp: suffix_def)
  ultimately show ?case using suffix_order.trans by fastforce
qed

text \<open>On timestamps in order, every live sample lies within the window's duration.\<close>

lemma samples_log_recent:
  assumes "inv w" "sorted (map fst (samples w) @ [fst s])" "x \<in> set (samples (log1 d w s))"
  shows "fst s - d \<le> fst x"
proof (cases "d \<le> fst s")
  case True
  let ?xs = "(if length (samples w) < cap then samples w else tl (samples w)) @ [s]"
  have srt: "sorted (map fst ?xs)"
    using assms(2) by (cases "samples w") (auto simp: sorted_append)
  have "x \<in> set (dropWhile (\<lambda>x. fst x < fst s - d) ?xs)"
    using assms(1,3) True by (simp add: samples_log Let_def)
  moreover have "\<forall>y\<in>set (dropWhile (\<lambda>x. fst x < c) xs). c \<le> fst y" if "sorted (map fst xs)" for c and xs :: "(nat \<times> bool) list"
    using that by (induction xs) (auto dest: set_dropWhileD split: if_splits)
  ultimately show ?thesis using srt by blast
next
  case False
  then show ?thesis by simp
qed

end

section \<open>The window of the source\<close>

definition MAX_WINDOW_ENTRIES :: nat where
  "MAX_WINDOW_ENTRIES = 10000"

record sliding_window =
  entries :: "(nat \<times> bool) list"
  failures :: nat

definition window_new :: sliding_window where
  "window_new = \<lparr>entries = [], failures = 0\<rparr>"

text \<open>The front is popped only when the deque is full; the counter follows the popped sample.\<close>

definition window_push :: "sliding_window \<Rightarrow> bool \<Rightarrow> nat \<Rightarrow> sliding_window" where
  "window_push w is_failure ts =
     (let w1 = (if MAX_WINDOW_ENTRIES \<le> length (entries w)
                then (case entries w of
                        [] \<Rightarrow> w
                      | (_, was_failure) # rest \<Rightarrow>
                          w\<lparr>entries := rest,
                            failures := (if was_failure then failures w - 1 else failures w)\<rparr>)
                else w)
      in w1\<lparr>entries := entries w1 @ [(ts, is_failure)],
            failures := (if is_failure then failures w1 + 1 else failures w1)\<rparr>)"

fun evict_loop :: "nat \<Rightarrow> (nat \<times> bool) list \<Rightarrow> nat \<Rightarrow> (nat \<times> bool) list \<times> nat" where
  "evict_loop cutoff [] n = ([], n)"
| "evict_loop cutoff ((ts, was_failure) # rest) n =
     (if ts < cutoff then evict_loop cutoff rest (if was_failure then n - 1 else n)
      else ((ts, was_failure) # rest, n))"

text \<open>\<open>Instant::checked_sub\<close> is \<open>None\<close> when the cutoff would lie before the origin.\<close>

definition instant_checked_sub :: "nat \<Rightarrow> nat \<Rightarrow> nat option" where
  "instant_checked_sub now d = (if d \<le> now then Some (now - d) else None)"

definition window_evict :: "sliding_window \<Rightarrow> nat \<Rightarrow> nat \<Rightarrow> sliding_window" where
  "window_evict w d now =
     (case instant_checked_sub now d of
        None \<Rightarrow> w
      | Some cutoff \<Rightarrow>
          (let (es, n) = evict_loop cutoff (entries w) (failures w)
           in w\<lparr>entries := es, failures := n\<rparr>))"

text \<open>
  The division is the source's \<open>f64\<close> division: \<open>fl\<close> rounds the exact quotient to a
  double. Every lemma holds for every \<open>fl\<close>, unless it names what it needs of it.
\<close>

definition window_error_rate :: "(rat \<Rightarrow> rat) \<Rightarrow> sliding_window \<Rightarrow> rat" where
  "window_error_rate fl w =
     (if entries w = [] then 0
      else fl (of_nat (failures w) / of_nat (length (entries w))))"

definition window_sample_count :: "sliding_window \<Rightarrow> nat" where
  "window_sample_count w = length (entries w)"

definition window_clear :: "sliding_window \<Rightarrow> sliding_window" where
  "window_clear w = w\<lparr>entries := [], failures := 0\<rparr>"

definition window_inv :: "sliding_window \<Rightarrow> bool" where
  "window_inv w \<longleftrightarrow> failures w = length (filter snd (entries w)) \<and> length (entries w) \<le> MAX_WINDOW_ENTRIES"

section \<open>The window keeps the contract\<close>

lemma evict_loop_eq:
  "evict_loop c es (length (filter snd es)) =
     (dropWhile (\<lambda>s. fst s < c) es, length (filter snd (dropWhile (\<lambda>s. fst s < c) es)))"
  by (induction es) auto

lemma window_evict_entries:
  "window_inv w \<Longrightarrow> entries (window_evict w d t) =
     (if d \<le> t then dropWhile (\<lambda>s. fst s < t - d) (entries w) else entries w)"
  by (simp add: window_evict_def instant_checked_sub_def window_inv_def evict_loop_eq)

lemma window_inv_evict: "window_inv w \<Longrightarrow> window_inv (window_evict w d t)"
  using length_dropWhile_le [of "\<lambda>s. fst s < t - d" "entries w"]
  by (auto simp: window_evict_def instant_checked_sub_def window_inv_def evict_loop_eq)

lemma window_inv_push: "window_inv w \<Longrightarrow> window_inv (window_push w f t)"
  by (cases "entries w") (auto simp: window_push_def window_inv_def MAX_WINDOW_ENTRIES_def Let_def)

lemma window_push_entries:
  "window_inv w \<Longrightarrow> entries (window_push w f t) =
     (if length (entries w) < MAX_WINDOW_ENTRIES then entries w else tl (entries w)) @ [(t, f)]"
  by (cases "entries w") (auto simp: window_push_def window_inv_def MAX_WINDOW_ENTRIES_def Let_def)

interpretation win: sample_window window_new window_push window_evict window_clear
  window_sample_count failures entries MAX_WINDOW_ENTRIES window_inv
  by unfold_locales
    (auto simp: window_inv_push window_inv_evict window_push_entries window_evict_entries,
     auto simp: window_inv_def window_new_def window_clear_def window_sample_count_def)

end
