(* ===== verification/Circuit_Breaker.thy ===== *)
theory Circuit_Breaker
  imports Sliding_Window
begin

text \<open>
  \<open>crates/common/xai-circuit-breaker\<close>: the configuration (\<open>config.rs\<close>), the three-state
  breaker (\<open>state.rs\<close>, \<open>breaker.rs\<close>) and the per-key registry (\<open>registry.rs\<close>). Here
  one call runs at a time; \<open>Breaker_Interleaving\<close> runs the same calls one atomic access at a
  time. A call may read the clock twice, so the operations take two instants: the first reading
  and the later one. The callbacks an observer receives are appended to \<open>observed\<close>.
\<close>

section \<open>States and configuration\<close>

datatype breaker_state = Closed | Open | HalfOpen

fun to_u8 :: "breaker_state \<Rightarrow> u8" where
  "to_u8 Closed = 0"
| "to_u8 Open = 1"
| "to_u8 HalfOpen = 2"

text \<open>An invalid byte trips a \<open>debug_assert\<close> and reads as \<open>Closed\<close> in a release build.\<close>

definition from_u8 :: "u8 \<Rightarrow> breaker_state" where
  "from_u8 v = (if v = 0 then Closed else if v = 1 then Open else if v = 2 then HalfOpen else Closed)"

lemma from_to_u8 [simp]: "from_u8 (to_u8 s) = s"
  by (cases s) (simp_all add: from_u8_def)

declare to_u8.simps [simp del]

datatype outcome = Success | Failure

datatype breaker_open = BreakerOpen (retry_after: nat)

record breaker_config =
  window_duration :: nat
  min_samples :: nat
  error_rate_threshold :: rat
  open_duration :: nat
  half_open_max_probes :: usize
  failure_codes :: "u16 set"
  enabled :: bool

definition from_secs :: "nat \<Rightarrow> nat" where
  "from_secs n = n * 1000000000"

definition from_millis :: "u64 \<Rightarrow> nat" where
  "from_millis n = unat n * 1000000"

definition as_millis_u64 :: "nat \<Rightarrow> u64" where
  "as_millis_u64 d = word_of_nat (d div 1000000)"

definition default_failure_codes :: "u16 set" where
  "default_failure_codes = {429, 500, 502, 503, 504}"

definition server_config :: breaker_config where
  "server_config = \<lparr>window_duration = from_secs 60, min_samples = 10, error_rate_threshold = 1 / 2,
     open_duration = from_secs 10, half_open_max_probes = 1,
     failure_codes = default_failure_codes, enabled = True\<rparr>"

definition client_config :: breaker_config where
  "client_config = \<lparr>window_duration = from_secs 60, min_samples = 5, error_rate_threshold = 1 / 2,
     open_duration = from_secs 60, half_open_max_probes = 1,
     failure_codes = {401}, enabled = True\<rparr>"

definition is_failure_status :: "breaker_config \<Rightarrow> u16 \<Rightarrow> bool" where
  "is_failure_status c status = (status \<in> failure_codes c)"

section \<open>The breaker\<close>

datatype obs_event =
    OnStateChange breaker_state breaker_state string
  | OnProbeAdmission bool
  | OnOutcome outcome breaker_state

record breaker =
  config :: breaker_config
  state_cell :: u8
  baseline :: nat
  opened_at_millis :: u64
  half_open_probes :: usize
  probe_claimed_at_millis :: u64
  is_open_fast :: bool
  window :: sliding_window
  observed :: "obs_event list"

definition with_clock :: "breaker_config \<Rightarrow> nat \<Rightarrow> breaker" where
  "with_clock c now = \<lparr>config = c\<lparr>half_open_max_probes := max (half_open_max_probes c) 1\<rparr>,
     state_cell = to_u8 Closed, baseline = now, opened_at_millis = 0, half_open_probes = 0,
     probe_claimed_at_millis = 0, is_open_fast = False, window = window_new, observed = []\<rparr>"

definition state_of :: "breaker \<Rightarrow> breaker_state" where
  "state_of b = from_u8 (state_cell b)"

definition is_open :: "breaker \<Rightarrow> bool" where
  "is_open b = is_open_fast b"

definition notify :: "obs_event \<Rightarrow> breaker \<Rightarrow> breaker" where
  "notify e b = b\<lparr>observed := observed b @ [e]\<rparr>"

definition elapsed_millis :: "breaker \<Rightarrow> nat \<Rightarrow> u64" where
  "elapsed_millis b now = as_millis_u64 (now - baseline b)"

definition cas_state :: "breaker_state \<Rightarrow> breaker_state \<Rightarrow> breaker \<Rightarrow> bool \<times> breaker" where
  "cas_state from to b =
     (if state_cell b = to_u8 from then (True, b\<lparr>state_cell := to_u8 to\<rparr>) else (False, b))"

definition HALF_OPEN_PROBE_BACKOFF :: nat where
  "HALF_OPEN_PROBE_BACKOFF = from_millis 50"

definition try_half_open_probe :: "breaker \<Rightarrow> nat \<Rightarrow> breaker \<times> (breaker_open, unit) res" where
  "try_half_open_probe b t =
     (let now = elapsed_millis b t;
          prev = half_open_probes b;
          b1 = b\<lparr>half_open_probes := prev + 1\<rparr>
      in if prev < half_open_max_probes (config b)
         then (notify (OnProbeAdmission True) (b1\<lparr>probe_claimed_at_millis := now\<rparr>), Inr ())
         else
           (let b2 = b1\<lparr>half_open_probes := half_open_probes b1 - 1\<rparr>;
                lease_millis = as_millis_u64 (open_duration (config b));
                claimed = probe_claimed_at_millis b2
            in if lease_millis \<le> saturating_sub now claimed
               then (notify (OnProbeAdmission True) (b2\<lparr>probe_claimed_at_millis := now\<rparr>), Inr ())
               else (notify (OnProbeAdmission False) b2,
                     Inl (BreakerOpen (min HALF_OPEN_PROBE_BACKOFF (open_duration (config b)))))))"

definition check_open :: "breaker \<Rightarrow> nat \<Rightarrow> nat \<Rightarrow> breaker \<times> (breaker_open, unit) res" where
  "check_open b t t' =
     (let elapsed = from_millis (saturating_sub (elapsed_millis b t) (opened_at_millis b))
      in if open_duration (config b) \<le> elapsed
         then (case cas_state Open HalfOpen b of
                 (True, b1) \<Rightarrow>
                   try_half_open_probe
                     (notify (OnStateChange Open HalfOpen ''open_elapsed'') (b1\<lparr>is_open_fast := False\<rparr>)) t'
               | (False, b1) \<Rightarrow>
                   (case state_of b1 of
                      Closed \<Rightarrow> (b1, Inr ())
                    | HalfOpen \<Rightarrow> try_half_open_probe b1 t'
                    | Open \<Rightarrow>
                        (b1, Inl (BreakerOpen (open_duration (config b) -
                           from_millis (saturating_sub (elapsed_millis b1 t') (opened_at_millis b1)))))))
         else (b, Inl (BreakerOpen (open_duration (config b) - elapsed))))"

definition check :: "breaker \<Rightarrow> nat \<Rightarrow> nat \<Rightarrow> breaker \<times> (breaker_open, unit) res" where
  "check b t t' =
     (if \<not> enabled (config b) then (b, Inr ())
      else (case state_of b of
              Closed \<Rightarrow> (b, Inr ())
            | Open \<Rightarrow> check_open b t t'
            | HalfOpen \<Rightarrow> try_half_open_probe b t))"

definition trip :: "breaker \<Rightarrow> breaker_state \<Rightarrow> string \<Rightarrow> nat \<Rightarrow> breaker" where
  "trip b prev reason t =
     (let b1 = b\<lparr>state_cell := to_u8 Open, opened_at_millis := elapsed_millis b t,
                 half_open_probes := 0, is_open_fast := True\<rparr>
      in if prev \<noteq> Open then notify (OnStateChange prev Open reason) b1 else b1)"

definition close :: "breaker \<Rightarrow> breaker_state \<Rightarrow> string \<Rightarrow> breaker" where
  "close b prev reason =
     (let b1 = b\<lparr>state_cell := to_u8 Closed, window := window_clear (window b),
                 half_open_probes := 0, is_open_fast := False\<rparr>
      in if prev \<noteq> Closed then notify (OnStateChange prev Closed reason) b1 else b1)"

definition note_sample :: "breaker \<Rightarrow> bool \<Rightarrow> nat \<Rightarrow> breaker" where
  "note_sample b is_failure t =
     b\<lparr>window := window_evict (window_push (window b) is_failure t) (window_duration (config b)) t\<rparr>"

definition should_trip :: "(rat \<Rightarrow> rat) \<Rightarrow> breaker \<Rightarrow> bool" where
  "should_trip fl b \<longleftrightarrow> min_samples (config b) \<le> window_sample_count (window b)
     \<and> error_rate_threshold (config b) \<le> window_error_rate fl (window b)"

definition record_outcome ::
  "(rat \<Rightarrow> rat) \<Rightarrow> breaker \<Rightarrow> outcome \<Rightarrow> nat \<Rightarrow> nat \<Rightarrow> breaker" where
  "record_outcome fl b oc t t' =
     (if \<not> enabled (config b) then b
      else
        (let is_failure = (oc = Failure);
             prev = state_of b;
             b' = (case prev of
                     Closed \<Rightarrow>
                       (let b1 = note_sample b is_failure t
                        in if should_trip fl b1 then trip b1 prev ''trip'' t' else b1)
                   | HalfOpen \<Rightarrow>
                       (if is_failure then trip b prev ''probe_failure'' t'
                        else close b prev ''probe_success'')
                   | Open \<Rightarrow> note_sample b is_failure t)
         in notify (OnOutcome oc (state_of b')) b'))"

definition error_rate :: "(rat \<Rightarrow> rat) \<Rightarrow> breaker \<Rightarrow> nat \<Rightarrow> breaker \<times> rat" where
  "error_rate fl b t =
     (let w = window_evict (window b) (window_duration (config b)) t
      in (b\<lparr>window := w\<rparr>, window_error_rate fl w))"

section \<open>Registry\<close>

text \<open>
  The breakers live on the heap behind \<open>Arc\<close>s, so the map holds addresses and the store the
  breakers: two callers with one key share a breaker.
\<close>

record registry =
  reg_config :: breaker_config
  breakers :: "string \<rightharpoonup> nat"
  store :: "breaker list"

definition registry_new :: "breaker_config \<Rightarrow> registry" where
  "registry_new c = \<lparr>reg_config = c, breakers = Map.empty, store = []\<rparr>"

definition registry_get :: "registry \<Rightarrow> string \<Rightarrow> nat \<Rightarrow> registry \<times> nat option" where
  "registry_get r key now =
     (if \<not> enabled (reg_config r) then (r, None)
      else (case breakers r key of
              Some a \<Rightarrow> (r, Some a)
            | None \<Rightarrow>
                (let a = length (store r)
                 in (r\<lparr>breakers := (breakers r)(key \<mapsto> a),
                       store := store r @ [with_clock (reg_config r) now]\<rparr>, Some a))))"

end
