(* ===== verification/Breaker_Props.thy ===== *)
theory Breaker_Props
  imports Circuit_Breaker
begin

text \<open>
  What the breaker promises when its calls do not overlap: the invariant between its fields,
  the transitions it may make, when it trips, what it sheds and that it recovers.
\<close>

section \<open>How the operations act on the fields\<close>

lemma state_of_upd [frame_simps]:
  "state_of (b\<lparr>state_cell := v\<rparr>) = from_u8 v"
  "state_of (b\<lparr>half_open_probes := p\<rparr>) = state_of b"
  "state_of (b\<lparr>probe_claimed_at_millis := c\<rparr>) = state_of b"
  "state_of (b\<lparr>opened_at_millis := m\<rparr>) = state_of b"
  "state_of (b\<lparr>is_open_fast := f\<rparr>) = state_of b"
  "state_of (b\<lparr>window := w\<rparr>) = state_of b"
  "state_of (notify e b) = state_of b"
  by (simp_all add: state_of_def notify_def)

lemma notify_fields [frame_simps]:
  "config (notify e b) = config b" "state_cell (notify e b) = state_cell b"
  "baseline (notify e b) = baseline b" "opened_at_millis (notify e b) = opened_at_millis b"
  "half_open_probes (notify e b) = half_open_probes b"
  "probe_claimed_at_millis (notify e b) = probe_claimed_at_millis b"
  "is_open_fast (notify e b) = is_open_fast b" "window (notify e b) = window b"
  "observed (notify e b) = observed b @ [e]"
  by (simp_all add: notify_def)

lemma elapsed_millis_cong [frame_simps]:
  "elapsed_millis (b\<lparr>state_cell := v\<rparr>) t = elapsed_millis b t"
  "elapsed_millis (b\<lparr>half_open_probes := p\<rparr>) t = elapsed_millis b t"
  "elapsed_millis (b\<lparr>is_open_fast := f\<rparr>) t = elapsed_millis b t"
  "elapsed_millis (b\<lparr>window := w\<rparr>) t = elapsed_millis b t"
  "elapsed_millis (notify e b) t = elapsed_millis b t"
  by (simp_all add: elapsed_millis_def notify_def)

lemma state_of_trip [frame_simps]: "state_of (trip b p r t) = Open"
  by (simp add: trip_def Let_def state_of_def notify_def)

lemma state_of_close [frame_simps]: "state_of (close b p r) = Closed"
  by (simp add: close_def Let_def state_of_def notify_def)

lemma state_of_note_sample [frame_simps]: "state_of (note_sample b f t) = state_of b"
  by (simp add: note_sample_def state_of_def)

lemma config_ops [frame_simps]:
  "config (trip b p r t) = config b" "config (close b p r) = config b"
  "config (note_sample b f t) = config b"
  by (simp_all add: trip_def close_def note_sample_def Let_def notify_def)

lemma config_probe: "config (fst (try_half_open_probe b t)) = config b"
  by (simp add: try_half_open_probe_def Let_def frame_simps)

section \<open>The invariant between the fields\<close>

definition breaker_inv :: "breaker \<Rightarrow> bool" where
  "breaker_inv b \<longleftrightarrow>
     is_open_fast b = (state_of b = Open)
   \<and> state_cell b = to_u8 (state_of b)
   \<and> (state_of b \<noteq> HalfOpen \<longrightarrow> half_open_probes b = 0)
   \<and> half_open_probes b \<le> half_open_max_probes (config b)
   \<and> 0 < half_open_max_probes (config b)
   \<and> window_inv (window b)"

lemma breaker_inv_with_clock: "breaker_inv (with_clock c now)"
  by (auto simp: breaker_inv_def with_clock_def state_of_def win.inv_empty max_def
      word_gt_0)

lemma word_succ_le: "a < b \<Longrightarrow> a + 1 \<le> b" for a b :: "'a::len word"
  by (metis inc_le)

lemma breaker_inv_probe:
  assumes "breaker_inv b" "state_of b = HalfOpen"
  shows "breaker_inv (fst (try_half_open_probe b t))"
  using assms by (auto simp: breaker_inv_def try_half_open_probe_def Let_def frame_simps word_succ_le)

lemma check_open_unfold:
  assumes "breaker_inv b" "state_of b = Open"
  shows "check_open b t t' =
    (let elapsed = from_millis (saturating_sub (elapsed_millis b t) (opened_at_millis b))
     in if open_duration (config b) \<le> elapsed
        then try_half_open_probe
               (notify (OnStateChange Open HalfOpen ''open_elapsed'')
                 (b\<lparr>state_cell := to_u8 HalfOpen, is_open_fast := False\<rparr>)) t'
        else (b, Inl (BreakerOpen (open_duration (config b) - elapsed))))"
  using assms by (simp add: check_open_def Let_def cas_state_def breaker_inv_def)

lemma breaker_inv_half_opened:
  assumes "breaker_inv b" "state_of b = Open"
  shows "breaker_inv (notify e (b\<lparr>state_cell := to_u8 HalfOpen, is_open_fast := False\<rparr>))"
  using assms by (simp add: breaker_inv_def frame_simps state_of_def notify_def)

lemma state_of_half_opened:
  "state_of (notify e (b\<lparr>state_cell := to_u8 HalfOpen, is_open_fast := f\<rparr>)) = HalfOpen"
  by (simp add: state_of_def notify_def)

lemma breaker_inv_check: "breaker_inv b \<Longrightarrow> breaker_inv (fst (check b t t'))"
  by (auto simp: check_def check_open_unfold Let_def breaker_inv_probe breaker_inv_half_opened
      state_of_half_opened split: breaker_state.split)

lemma breaker_inv_trip: "breaker_inv b \<Longrightarrow> breaker_inv (trip b p r t)"
  by (auto simp: breaker_inv_def trip_def Let_def frame_simps)

lemma breaker_inv_close: "breaker_inv b \<Longrightarrow> breaker_inv (close b p r)"
  by (auto simp: breaker_inv_def close_def Let_def frame_simps win.inv_clear)
    

lemma breaker_inv_note_sample: "breaker_inv b \<Longrightarrow> breaker_inv (note_sample b f t)"
  by (simp add: breaker_inv_def note_sample_def frame_simps win.inv_push win.inv_evict)

lemma breaker_inv_notify [simp]: "breaker_inv (notify e b) = breaker_inv b"
  by (simp add: breaker_inv_def frame_simps)

lemma breaker_inv_record: "breaker_inv b \<Longrightarrow> breaker_inv (record_outcome fl b oc t t')"
  by (simp add: record_outcome_def Let_def breaker_inv_trip breaker_inv_close
      breaker_inv_note_sample split: breaker_state.split)

lemma breaker_inv_error_rate: "breaker_inv b \<Longrightarrow> breaker_inv (fst (error_rate fl b t))"
  by (simp add: breaker_inv_def error_rate_def Let_def frame_simps win.inv_evict)

section \<open>Runs of calls\<close>

datatype breaker_op = OpCheck nat nat | OpRecord outcome nat nat | OpErrorRate nat

fun breaker_step :: "(rat \<Rightarrow> rat) \<Rightarrow> breaker \<Rightarrow> breaker_op \<Rightarrow> breaker" where
  "breaker_step fl b (OpCheck t t') = fst (check b t t')"
| "breaker_step fl b (OpRecord oc t t') = record_outcome fl b oc t t'"
| "breaker_step fl b (OpErrorRate t) = fst (error_rate fl b t)"

definition breaker_run :: "(rat \<Rightarrow> rat) \<Rightarrow> breaker \<Rightarrow> breaker_op list \<Rightarrow> breaker" where
  "breaker_run fl b ops = foldl (breaker_step fl) b ops"

lemma breaker_inv_step: "breaker_inv b \<Longrightarrow> breaker_inv (breaker_step fl b op)"
  by (cases op) (simp_all add: breaker_inv_check breaker_inv_record breaker_inv_error_rate)

lemma breaker_inv_run: "breaker_inv b \<Longrightarrow> breaker_inv (breaker_run fl b ops)"
  unfolding breaker_run_def by (induction ops arbitrary: b) (auto simp: breaker_inv_step)


section \<open>The transitions an observer sees\<close>

definition legal_edge :: "breaker_state \<Rightarrow> breaker_state \<Rightarrow> string \<Rightarrow> bool" where
  "legal_edge a b r \<longleftrightarrow> (a, b, r) \<in>
     {(Closed, Open, ''trip''), (Open, HalfOpen, ''open_elapsed''),
      (HalfOpen, Open, ''probe_failure''), (HalfOpen, Closed, ''probe_success'')}"

text \<open>
  Replaying the callbacks: a transition must start where the last one ended and be one of the
  four above, a probe is admitted or refused in \<open>HalfOpen\<close> only, and an outcome is reported
  with the state that holds after it.
\<close>

fun replay :: "breaker_state \<Rightarrow> obs_event list \<Rightarrow> breaker_state option" where
  "replay s [] = Some s"
| "replay s (OnStateChange a b r # es) = (if a = s \<and> legal_edge a b r then replay b es else None)"
| "replay s (OnProbeAdmission ok # es) = (if s = HalfOpen then replay s es else None)"
| "replay s (OnOutcome oc st # es) = (if st = s then replay s es else None)"

lemma replay_append:
  "replay s (es @ es') = (case replay s es of None \<Rightarrow> None | Some s' \<Rightarrow> replay s' es')"
  by (induction s es rule: replay.induct) auto

definition replays :: "breaker_state \<Rightarrow> breaker \<Rightarrow> bool" where
  "replays s b \<longleftrightarrow> replay s (observed b) = Some (state_of b)"

lemma replays_probe:
  "state_of b = HalfOpen \<Longrightarrow> replays s b \<Longrightarrow> replays s (fst (try_half_open_probe b t))"
  by (auto simp: replays_def try_half_open_probe_def Let_def frame_simps replay_append)

lemma replays_half_opened:
  "state_of b = Open \<Longrightarrow> replays s b \<Longrightarrow> replays s
     (notify (OnStateChange Open HalfOpen ''open_elapsed'')
       (b\<lparr>state_cell := to_u8 HalfOpen, is_open_fast := False\<rparr>))"
  by (simp add: replays_def frame_simps replay_append legal_edge_def)

lemma replays_check: "breaker_inv b \<Longrightarrow> replays s b \<Longrightarrow> replays s (fst (check b t t'))"
  by (auto simp: check_def check_open_unfold Let_def replays_probe replays_half_opened
      state_of_half_opened split: breaker_state.split)

lemma replays_trip:
  "replays s b \<Longrightarrow> state_of b = p \<Longrightarrow> legal_edge p Open r \<Longrightarrow> replays s (trip b p r t)"
  by (auto simp: replays_def trip_def Let_def frame_simps replay_append legal_edge_def)

lemma replays_close:
  "replays s b \<Longrightarrow> state_of b = p \<Longrightarrow> legal_edge p Closed r \<Longrightarrow> replays s (close b p r)"
  by (auto simp: replays_def close_def Let_def frame_simps replay_append legal_edge_def)

lemma replays_note_sample: "replays s (note_sample b f t) = replays s b"
  by (simp add: replays_def note_sample_def frame_simps)

lemma replays_outcome:
  "replays s b \<Longrightarrow> state_of b = st \<Longrightarrow> replays s (notify (OnOutcome oc st) b)"
  by (auto simp: replays_def frame_simps replay_append)

lemma replays_record: "replays s b \<Longrightarrow> replays s (record_outcome fl b oc t t')"
  by (cases "state_of b")
     (auto simp: record_outcome_def Let_def legal_edge_def replays_note_sample frame_simps
       intro!: replays_outcome replays_trip replays_close)

lemma replays_error_rate: "replays s (fst (error_rate fl b t)) = replays s b"
  by (simp add: replays_def error_rate_def Let_def frame_simps)

lemma replays_step:
  "breaker_inv b \<Longrightarrow> replays s b \<Longrightarrow> replays s (breaker_step fl b op)"
  by (cases op) (simp_all add: replays_check replays_record replays_error_rate)

lemma replays_run:
  "breaker_inv b \<Longrightarrow> replays s b \<Longrightarrow> replays s (breaker_run fl b ops)"
  unfolding breaker_run_def
  by (induction ops arbitrary: b) (auto simp: replays_step breaker_inv_step)

lemma replays_with_clock: "replays Closed (with_clock c now)"
  by (simp add: replays_def with_clock_def state_of_def)

section \<open>Probes: bounded while the lease holds, reclaimed after it\<close>

lemma probe_result:
  "snd (try_half_open_probe b t) =
     (if half_open_probes b < half_open_max_probes (config b)
         \<or> as_millis_u64 (open_duration (config b))
             \<le> saturating_sub (elapsed_millis b t) (probe_claimed_at_millis b)
      then Inr ()
      else Inl (BreakerOpen (min HALF_OPEN_PROBE_BACKOFF (open_duration (config b)))))"
  by (simp add: try_half_open_probe_def Let_def)

lemma probe_state: "state_of (fst (try_half_open_probe b t)) = state_of b"
  by (simp add: try_half_open_probe_def Let_def frame_simps)

lemma probe_elapsed: "elapsed_millis (fst (try_half_open_probe b t)) t' = elapsed_millis b t'"
  by (simp add: try_half_open_probe_def Let_def elapsed_millis_def notify_def)

lemma probe_slots:
  "half_open_probes (fst (try_half_open_probe b t)) =
     (if half_open_probes b < half_open_max_probes (config b) then half_open_probes b + 1
      else half_open_probes b)"
  by (simp add: try_half_open_probe_def Let_def frame_simps)

lemma probe_claim:
  "probe_claimed_at_millis (fst (try_half_open_probe b t)) \<in>
     {probe_claimed_at_millis b, elapsed_millis b t}"
  by (simp add: try_half_open_probe_def Let_def frame_simps)

fun run_checks :: "breaker \<Rightarrow> nat list \<Rightarrow> (breaker_open, unit) res list" where
  "run_checks b [] = []"
| "run_checks b (t # ts) = (let (b', r) = check b t t in r # run_checks b' ts)"

definition admissions :: "(breaker_open, unit) res list \<Rightarrow> nat" where
  "admissions rs = length (filter (\<lambda>r. r = Inr ()) rs)"

lemma admissions_simps [simp]:
  "admissions [] = 0"
  "admissions (r # rs) = (if r = Inr () then Suc (admissions rs) else admissions rs)"
  by (simp_all add: admissions_def)

text \<open>
  \<open>c\<close> is a bound below every claim and reading; as long as every call comes less than one lease
  after \<open>c\<close>, no claim can have been abandoned and the slots are all there is.
\<close>

lemma half_open_admissions:
  assumes "state_of b = HalfOpen" "enabled (config b)" "c \<le> probe_claimed_at_millis b"
    and "half_open_probes b \<le> half_open_max_probes (config b)"
    and "\<forall>t\<in>set ts. c \<le> elapsed_millis b t \<and>
           elapsed_millis b t - c < as_millis_u64 (open_duration (config b))"
  shows "admissions (run_checks b ts) + unat (half_open_probes b)
           \<le> unat (half_open_max_probes (config b))"
  using assms
proof (induction ts arbitrary: b)
  case Nil
  then show ?case by (simp add: word_le_nat_alt)
next
  case (Cons t ts)
  let ?b = "fst (try_half_open_probe b t)"
  let ?lease = "as_millis_u64 (open_duration (config b))"
  have step: "check b t t = try_half_open_probe b t"
    using Cons.prems by (simp add: check_def)
  have fresh: "\<not> ?lease \<le> saturating_sub (elapsed_millis b t) (probe_claimed_at_millis b)"
  proof -
    have "unat (saturating_sub (elapsed_millis b t) (probe_claimed_at_millis b))
            \<le> unat (elapsed_millis b t - c)"
      using Cons.prems by (simp add: u64_simps word_le_nat_alt unat_sub)
    moreover have "unat (elapsed_millis b t - c) < unat ?lease"
      using Cons.prems by (simp add: word_less_nat_alt)
    ultimately show ?thesis by (simp add: word_le_nat_alt)
  qed
  have slots: "half_open_probes ?b \<le> half_open_max_probes (config ?b)"
    using Cons.prems by (simp add: probe_slots config_probe word_succ_le)
  have claim: "c \<le> probe_claimed_at_millis ?b"
    using probe_claim [of b t] Cons.prems by auto
  have rest: "admissions (run_checks ?b ts) + unat (half_open_probes ?b)
      \<le> unat (half_open_max_probes (config b))"
    using Cons.IH [of ?b] Cons.prems slots claim
    by (simp add: probe_state config_probe probe_elapsed)
  have "unat (half_open_probes b + 1) = Suc (unat (half_open_probes b))"
    if "half_open_probes b < half_open_max_probes (config b)"
    using that by (rule unat_succ_less)
  with rest fresh show ?case
    by (auto simp: step probe_result probe_slots case_prod_beta split: if_splits)
qed

section \<open>Shedding and recovery\<close>

lemma check_sheds:
  assumes "breaker_inv b" "enabled (config b)" "state_of b = Open"
    and "from_millis (saturating_sub (elapsed_millis b t) (opened_at_millis b))
           < open_duration (config b)"
  shows "check b t t' = (b, Inl (BreakerOpen (open_duration (config b) -
           from_millis (saturating_sub (elapsed_millis b t) (opened_at_millis b)))))"
  using assms by (simp add: check_def check_open_unfold Let_def)

lemma unat_as_millis_le: "unat (as_millis_u64 d) \<le> d div 1000000"
  by (simp add: as_millis_u64_def unat_of_nat)

lemma check_recovers:
  assumes inv: "breaker_inv b"
    and late: "max (unat (opened_at_millis b)) (unat (probe_claimed_at_millis b))
                 + open_duration (config b) div 1000000 + 1 \<le> unat (elapsed_millis b t)"
  shows "snd (check b t t') = Inr ()"
proof (cases "state_of b")
  case Closed
  then show ?thesis by (simp add: check_def)
next
  case HalfOpen
  have "unat (as_millis_u64 (open_duration (config b)))
      \<le> unat (elapsed_millis b t) - unat (probe_claimed_at_millis b)"
    using late unat_as_millis_le [of "open_duration (config b)"] by linarith
  with HalfOpen show ?thesis
    by (auto simp: check_def probe_result word_le_nat_alt u64_simps)
next
  case Open
  have "open_duration (config b) < (open_duration (config b) div 1000000 + 1) * 1000000"
    using dividend_less_div_times [of 1000000 "open_duration (config b)"] by simp
  also have "\<dots> \<le> (unat (elapsed_millis b t) - unat (opened_at_millis b)) * 1000000"
    using late by (intro mult_le_mono1) linarith
  finally have "open_duration (config b)
      \<le> from_millis (saturating_sub (elapsed_millis b t) (opened_at_millis b))"
    by (simp add: from_millis_def u64_simps)
  moreover have "half_open_probes b = 0" "0 < half_open_max_probes (config b)"
    using inv Open by (simp_all add: breaker_inv_def)
  ultimately show ?thesis
    using inv Open by (simp add: check_def check_open_unfold Let_def probe_result frame_simps)
qed

section \<open>Tripping\<close>

lemma record_closed_state:
  assumes "enabled (config b)" "state_of b = Closed"
  shows "state_of (record_outcome fl b oc t t') = Open \<longleftrightarrow>
           should_trip fl (note_sample b (oc = Failure) t)"
    and "state_of (record_outcome fl b oc t t') \<in> {Closed, Open}"
  using assms by (simp_all add: record_outcome_def Let_def frame_simps)

lemma should_trip_samples:
  assumes "breaker_inv b"
  shows "should_trip fl (note_sample b f t) \<longleftrightarrow>
    (let live = entries (win.log1 (window_duration (config b)) (window b) (t, f))
     in min_samples (config b) \<le> length live
      \<and> error_rate_threshold (config b) \<le>
          (if live = [] then 0
           else fl (of_nat (length (filter snd live)) / of_nat (length live))))"
proof -
  let ?w = "win.log1 (window_duration (config b)) (window b) (t, f)"
  have "window_inv ?w" using assms by (simp add: breaker_inv_def win.inv_log)
  then show ?thesis
    by (simp add: should_trip_def note_sample_def Let_def window_error_rate_def
        win.fails_samples win.count_samples win.log1_def)
qed

section \<open>Properties\<close>

text \<open>
  After any sequence of calls on a new breaker, with any clock readings and any rounding of
  the error rate: the lock-free mirror agrees with the state, the state byte is valid, probe
  slots are only held in \<open>HalfOpen\<close> and never more than configured, and the window's failure
  counter counts the failures it holds.
\<close>

theorem breaker_fields_agree:
  "breaker_inv (breaker_run fl (with_clock c now) ops)"
  by (rule breaker_inv_run [OF breaker_inv_with_clock])

text \<open>
  The callbacks an observer receives describe what happened: they form a path from
  \<open>Closed\<close> along the four legal transitions with their reasons to the state the breaker is in,
  probes are only reported in \<open>HalfOpen\<close>, and every outcome with the state that holds after it.
\<close>

theorem observer_sees_legal_path:
  "replay Closed (observed (breaker_run fl (with_clock c now) ops)) =
     Some (state_of (breaker_run fl (with_clock c now) ops))"
  using replays_run [OF breaker_inv_with_clock replays_with_clock]
  by (simp add: replays_def)

text \<open>
  C17: a closed breaker trips on an outcome exactly when the samples that are live after it are
  at least \<open>min_samples\<close> many and their failure rate reaches the threshold; otherwise it stays
  closed. The live samples are those the new one leaves in the bounded window.
\<close>

theorem trips_exactly_at_threshold:
  assumes "b = breaker_run fl (with_clock c now) ops" and "enabled (config b)" and "state_of b = Closed"
  shows "(state_of (record_outcome fl b oc t t') = Open \<longleftrightarrow>
      (let live = entries (win.log1 (window_duration (config b)) (window b) (t, oc = Failure))
       in min_samples (config b) \<le> length live \<and> error_rate_threshold (config b) \<le>
          (if live = [] then 0 else fl (of_nat (length (filter snd live)) / of_nat (length live)))))
     \<and> state_of (record_outcome fl b oc t t') \<in> {Closed, Open}"
  using record_closed_state [OF assms(2,3)] should_trip_samples [of b] assms(1)
  by (simp_all add: breaker_inv_run breaker_inv_with_clock)

lemma trips_exactly_at_threshold_witness:
  "state_of (record_outcome (\<lambda>x. x) (with_clock server_config 0) Failure 0 0) = Closed"
proof -
  let ?b = "with_clock server_config 0"
  have b: "?b = breaker_run (\<lambda>x. x) ?b []" by (simp add: breaker_run_def)
  have "config ?b = server_config" "enabled (config ?b)" "state_of ?b = Closed" "window ?b = window_new"
    by (simp_all add: with_clock_def server_config_def state_of_def)
  note calls = this trips_exactly_at_threshold [OF b, of Failure 0 0]
  have few: "length (entries (win.log1 d window_new (0, True))) < 10" for d
    using win.samples_log [OF win.inv_empty, of d "(0, True)"]
    by (simp add: Let_def window_new_def MAX_WINDOW_ENTRIES_def)
  have "min_samples server_config = 10" by (simp add: server_config_def)
  with calls few [of "window_duration server_config"] show ?thesis by (simp only: Let_def) auto
qed

text \<open>
  C10: in \<open>HalfOpen\<close>, as long as every check comes within one lease of the oldest claim, the
  checks that are admitted never exceed the configured probe slots, whatever their number and
  order; with one slot, one probe.
\<close>

theorem half_open_admits_at_most_slots:
  assumes "state_of b = HalfOpen" and "enabled (config b)" and "c \<le> probe_claimed_at_millis b"
    and "half_open_probes b \<le> half_open_max_probes (config b)"
    and "\<forall>t\<in>set ts. c \<le> elapsed_millis b t \<and>
           elapsed_millis b t - c < as_millis_u64 (open_duration (config b))"
  shows "admissions (run_checks b ts) + unat (half_open_probes b) \<le> unat (half_open_max_probes (config b))"
  using assms by (rule half_open_admissions)

lemma half_open_admits_at_most_slots_witness:
  "admissions (run_checks ((with_clock server_config 0)\<lparr>state_cell := 2\<rparr>) [5, 6, 7]) + 0 \<le> 1"
  using half_open_admits_at_most_slots [of "(with_clock server_config 0)\<lparr>state_cell := 2\<rparr>" 0 "[5, 6, 7]"]
  by (simp add: with_clock_def server_config_def state_of_def from_u8_def to_u8.simps
      elapsed_millis_def as_millis_u64_def from_secs_def)

text \<open>
  While the cool-down runs, an open breaker refuses every check without changing anything,
  and the \<open>retry_after\<close> it returns is exactly the part of the cool-down that is left.
\<close>

theorem open_sheds_for_the_rest:
  assumes "b = breaker_run fl (with_clock c now) ops" and "enabled (config b)" and "state_of b = Open"
    and "from_millis (saturating_sub (elapsed_millis b t) (opened_at_millis b)) < open_duration (config b)"
  shows "check b t t' = (b, Inl (BreakerOpen (open_duration (config b) -
           from_millis (saturating_sub (elapsed_millis b t) (opened_at_millis b)))))"
  using assms by (intro check_sheds) (simp_all add: breaker_inv_run breaker_inv_with_clock)

definition quick_config :: breaker_config where
  "quick_config = \<lparr>window_duration = from_secs 60, min_samples = 1, error_rate_threshold = 1 / 2,
     open_duration = from_secs 10, half_open_max_probes = 1, failure_codes = {429}, enabled = True\<rparr>"

definition quick_trip :: breaker where
  "quick_trip = breaker_run (\<lambda>x. x) (with_clock quick_config 0) [OpRecord Failure 0 0]"

lemma quick_trip_fields:
  "state_of quick_trip = Open" "opened_at_millis quick_trip = 0" "probe_claimed_at_millis quick_trip = 0"
  "config quick_trip = quick_config" "baseline quick_trip = 0"
  by (simp_all add: quick_trip_def breaker_run_def record_outcome_def with_clock_def quick_config_def
      state_of_def from_u8_def to_u8.simps note_sample_def should_trip_def window_new_def window_push_def
      window_evict_def instant_checked_sub_def window_sample_count_def window_error_rate_def
      MAX_WINDOW_ENTRIES_def from_secs_def Let_def trip_def notify_def elapsed_millis_def
      as_millis_u64_def max_def)

lemma open_sheds_for_the_rest_witness:
  "check quick_trip 4000000000 4000000000 = (quick_trip, Inl (BreakerOpen 6000000000))"
  using open_sheds_for_the_rest [OF quick_trip_def, of 4000000000 4000000000] quick_trip_fields
  by (simp add: quick_config_def elapsed_millis_def as_millis_u64_def from_millis_def from_secs_def
      saturating_sub_def)

text \<open>
  C11: the breaker never stays shut: once a full cool-down has passed since it opened and since
  the last probe was claimed, the next check is admitted, even when every earlier probe was
  abandoned without recording an outcome.
\<close>

theorem breaker_recovers:
  assumes "b = breaker_run fl (with_clock c now) ops"
    and "max (unat (opened_at_millis b)) (unat (probe_claimed_at_millis b))
           + open_duration (config b) div 1000000 + 1 \<le> unat (elapsed_millis b t)"
  shows "snd (check b t t') = Inr ()"
  using assms by (intro check_recovers) (simp_all add: breaker_inv_run breaker_inv_with_clock)

lemma breaker_recovers_witness: "snd (check quick_trip 10001000000 10001000000) = Inr ()"
  by (rule breaker_recovers [OF quick_trip_def])
    (use quick_trip_fields in \<open>simp add: quick_config_def elapsed_millis_def as_millis_u64_def from_secs_def\<close>)

end
