(* ===== verification/Breaker_Interleaving.thy ===== *)
theory Breaker_Interleaving
  imports Breaker_Props
begin

text \<open>
  The calls of \<open>breaker.rs\<close> one atomic access at a time: every load, store, compare-exchange,
  clock reading and locked window update of \<open>check\<close>, \<open>record\<close>, \<open>trip\<close>, \<open>close\<close> and
  \<open>try_half_open_probe\<close> is a step of its own, and any number of threads interleave. The
  interleaving is sequentially consistent: it has fewer executions than the source's
  acquire/release accesses allow, so an execution shown here is one of the program's.
  The program counter names the access a thread performs next, with the locals it holds.
\<close>

section \<open>Program counters\<close>

datatype pc =
    Idle
  | Check_Load
  | Open_Load_Opened | Open_Clock u64 | Open_Cas | Open_Store_Fast | Open_Reload
  | Open_Reload_Opened | Open_Reload_Clock u64
  | Probe_Clock | Probe_Add u64 | Probe_Store_Claim u64 | Probe_Sub u64 | Probe_Load_Claim u64
  | Probe_Cas_Claim u64 u64
  | Checked "(breaker_open, unit) res"
  | Record_Clock outcome | Record_Load outcome nat | Record_Push outcome nat breaker_state
  | Trip_State outcome breaker_state string | Trip_Clock outcome breaker_state string
  | Trip_Opened outcome breaker_state string u64 | Trip_Probes outcome breaker_state string
  | Trip_Fast outcome breaker_state string
  | Close_State outcome breaker_state string | Close_Clear outcome breaker_state string
  | Close_Probes outcome breaker_state string | Close_Fast outcome breaker_state string
  | Record_Reload outcome
  | Recorded

definition admit :: "bool \<Rightarrow> breaker \<Rightarrow> breaker" where
  "admit ok b = notify (OnProbeAdmission ok) b"

definition changed :: "breaker_state \<Rightarrow> breaker_state \<Rightarrow> string \<Rightarrow> breaker \<Rightarrow> breaker" where
  "changed a c r b = (if a \<noteq> c then notify (OnStateChange a c r) b else b)"

section \<open>One step of one thread\<close>

text \<open>\<open>check\<close>, \<open>check_open\<close> and \<open>try_half_open_probe\<close>; \<open>now\<close> is the clock's reading.\<close>

fun check_step :: "nat \<Rightarrow> breaker \<Rightarrow> pc \<Rightarrow> breaker \<times> pc" where
  "check_step now b Check_Load =
     (b, if \<not> enabled (config b) then Checked (Inr ())
         else (case state_of b of
                 Closed \<Rightarrow> Checked (Inr ()) | Open \<Rightarrow> Open_Load_Opened | HalfOpen \<Rightarrow> Probe_Clock))"
| "check_step now b Open_Load_Opened = (b, Open_Clock (opened_at_millis b))"
| "check_step now b (Open_Clock opened) =
     (let elapsed = from_millis (saturating_sub (elapsed_millis b now) opened)
      in (b, if open_duration (config b) \<le> elapsed then Open_Cas
             else Checked (Inl (BreakerOpen (open_duration (config b) - elapsed)))))"
| "check_step now b Open_Cas =
     (let (won, b') = cas_state Open HalfOpen b in (b', if won then Open_Store_Fast else Open_Reload))"
| "check_step now b Open_Store_Fast =
     (notify (OnStateChange Open HalfOpen ''open_elapsed'') (b\<lparr>is_open_fast := False\<rparr>), Probe_Clock)"
| "check_step now b Open_Reload =
     (b, case state_of b of
           Closed \<Rightarrow> Checked (Inr ()) | HalfOpen \<Rightarrow> Probe_Clock | Open \<Rightarrow> Open_Reload_Opened)"
| "check_step now b Open_Reload_Opened = (b, Open_Reload_Clock (opened_at_millis b))"
| "check_step now b (Open_Reload_Clock opened) =
     (b, Checked (Inl (BreakerOpen (open_duration (config b) -
           from_millis (saturating_sub (elapsed_millis b now) opened)))))"
| "check_step now b Probe_Clock = (b, Probe_Add (elapsed_millis b now))"
| "check_step now b (Probe_Add t) =
     (b\<lparr>half_open_probes := half_open_probes b + 1\<rparr>,
      if half_open_probes b < half_open_max_probes (config b) then Probe_Store_Claim t else Probe_Sub t)"
| "check_step now b (Probe_Store_Claim t) =
     (admit True (b\<lparr>probe_claimed_at_millis := t\<rparr>), Checked (Inr ()))"
| "check_step now b (Probe_Sub t) =
     (b\<lparr>half_open_probes := half_open_probes b - 1\<rparr>, Probe_Load_Claim t)"
| "check_step now b (Probe_Load_Claim t) =
     (let claimed = probe_claimed_at_millis b
      in if as_millis_u64 (open_duration (config b)) \<le> saturating_sub t claimed
         then (b, Probe_Cas_Claim t claimed)
         else (admit False b,
               Checked (Inl (BreakerOpen (min HALF_OPEN_PROBE_BACKOFF (open_duration (config b)))))))"
| "check_step now b (Probe_Cas_Claim t claimed) =
     (if probe_claimed_at_millis b = claimed
      then (admit True (b\<lparr>probe_claimed_at_millis := t\<rparr>), Checked (Inr ()))
      else (admit False b,
            Checked (Inl (BreakerOpen (min HALF_OPEN_PROBE_BACKOFF (open_duration (config b)))))))"
| "check_step now b p = (b, p)"

text \<open>\<open>record\<close>, \<open>trip\<close> and \<open>close\<close>; the window update runs under its lock, as one step.\<close>

fun record_step :: "(rat \<Rightarrow> rat) \<Rightarrow> nat \<Rightarrow> breaker \<Rightarrow> pc \<Rightarrow> breaker \<times> pc" where
  "record_step fl now b (Record_Clock oc) =
     (b, if enabled (config b) then Record_Load oc now else Recorded)"
| "record_step fl now b (Record_Load oc t) =
     (b, case state_of b of
           Closed \<Rightarrow> Record_Push oc t Closed
         | Open \<Rightarrow> Record_Push oc t Open
         | HalfOpen \<Rightarrow> (if oc = Failure then Trip_State oc HalfOpen ''probe_failure''
                        else Close_State oc HalfOpen ''probe_success''))"
| "record_step fl now b (Record_Push oc t prev) =
     (let b1 = note_sample b (oc = Failure) t
      in (b1, if prev = Closed \<and> should_trip fl b1 then Trip_State oc prev ''trip''
              else Record_Reload oc))"
| "record_step fl now b (Trip_State oc prev r) =
     (b\<lparr>state_cell := to_u8 Open\<rparr>, Trip_Clock oc prev r)"
| "record_step fl now b (Trip_Clock oc prev r) = (b, Trip_Opened oc prev r (elapsed_millis b now))"
| "record_step fl now b (Trip_Opened oc prev r t) =
     (b\<lparr>opened_at_millis := t\<rparr>, Trip_Probes oc prev r)"
| "record_step fl now b (Trip_Probes oc prev r) = (b\<lparr>half_open_probes := 0\<rparr>, Trip_Fast oc prev r)"
| "record_step fl now b (Trip_Fast oc prev r) =
     (changed prev Open r (b\<lparr>is_open_fast := True\<rparr>), Record_Reload oc)"
| "record_step fl now b (Close_State oc prev r) =
     (b\<lparr>state_cell := to_u8 Closed\<rparr>, Close_Clear oc prev r)"
| "record_step fl now b (Close_Clear oc prev r) =
     (b\<lparr>window := window_clear (window b)\<rparr>, Close_Probes oc prev r)"
| "record_step fl now b (Close_Probes oc prev r) = (b\<lparr>half_open_probes := 0\<rparr>, Close_Fast oc prev r)"
| "record_step fl now b (Close_Fast oc prev r) =
     (changed prev Closed r (b\<lparr>is_open_fast := False\<rparr>), Record_Reload oc)"
| "record_step fl now b (Record_Reload oc) = (notify (OnOutcome oc (state_of b)) b, Recorded)"
| "record_step fl now b p = (b, p)"

definition is_record_pc :: "pc \<Rightarrow> bool" where
  "is_record_pc p = (case p of
     Record_Clock _ \<Rightarrow> True | Record_Load _ _ \<Rightarrow> True | Record_Push _ _ _ \<Rightarrow> True
   | Trip_State _ _ _ \<Rightarrow> True | Trip_Clock _ _ _ \<Rightarrow> True | Trip_Opened _ _ _ _ \<Rightarrow> True
   | Trip_Probes _ _ _ \<Rightarrow> True | Trip_Fast _ _ _ \<Rightarrow> True | Close_State _ _ _ \<Rightarrow> True
   | Close_Clear _ _ _ \<Rightarrow> True | Close_Probes _ _ _ \<Rightarrow> True | Close_Fast _ _ _ \<Rightarrow> True
   | Record_Reload _ \<Rightarrow> True | _ \<Rightarrow> False)"

definition thread_step :: "(rat \<Rightarrow> rat) \<Rightarrow> nat \<Rightarrow> breaker \<Rightarrow> pc \<Rightarrow> breaker \<times> pc" where
  "thread_step fl now b p = (if is_record_pc p then record_step fl now b p else check_step now b p)"

section \<open>The system\<close>

record sys =
  shared :: breaker
  clock :: nat
  pcs :: "nat \<Rightarrow> pc"

definition init_sys :: "breaker_config \<Rightarrow> nat \<Rightarrow> sys" where
  "init_sys c now = \<lparr>shared = with_clock c now, clock = now, pcs = (\<lambda>_. Idle)\<rparr>"

definition finished :: "pc \<Rightarrow> bool" where
  "finished p = (case p of Idle \<Rightarrow> True | Recorded \<Rightarrow> True | Checked _ \<Rightarrow> True | _ \<Rightarrow> False)"

datatype action = StartCheck nat | StartRecord nat outcome | Run nat | Tick nat

fun act :: "(rat \<Rightarrow> rat) \<Rightarrow> action \<Rightarrow> sys \<Rightarrow> sys" where
  "act fl (StartCheck i) s = s\<lparr>pcs := (pcs s)(i := Check_Load)\<rparr>"
| "act fl (StartRecord i oc) s = s\<lparr>pcs := (pcs s)(i := Record_Clock oc)\<rparr>"
| "act fl (Run i) s =
     (let (b, p) = thread_step fl (clock s) (shared s) (pcs s i)
      in s\<lparr>shared := b, pcs := (pcs s)(i := p)\<rparr>)"
| "act fl (Tick d) s = s\<lparr>clock := clock s + d\<rparr>"

text \<open>
  A thread starts a call only when its last one has returned; running a thread that is in no
  call changes nothing.
\<close>

fun allowed :: "action \<Rightarrow> sys \<Rightarrow> bool" where
  "allowed (StartCheck i) s = finished (pcs s i)"
| "allowed (StartRecord i oc) s = finished (pcs s i)"
| "allowed (Run i) s = True"
| "allowed (Tick d) s = True"

inductive sys_step :: "(rat \<Rightarrow> rat) \<Rightarrow> sys \<Rightarrow> sys \<Rightarrow> bool" for fl where
  sys_act: "allowed a s \<Longrightarrow> sys_step fl s (act fl a s)"

inductive_cases sys_stepE: "sys_step fl s t"

inductive reachable :: "(rat \<Rightarrow> rat) \<Rightarrow> breaker_config \<Rightarrow> nat \<Rightarrow> sys \<Rightarrow> bool" for fl c now where
  reach_init: "reachable fl c now (init_sys c now)"
| reach_step: "reachable fl c now s \<Longrightarrow> sys_step fl s t \<Longrightarrow> reachable fl c now t"

text \<open>A schedule, run as long as each action is allowed.\<close>

fun schedule :: "(rat \<Rightarrow> rat) \<Rightarrow> action list \<Rightarrow> sys \<Rightarrow> sys option" where
  "schedule fl [] s = Some s"
| "schedule fl (a # as) s = (if allowed a s then schedule fl as (act fl a s) else None)"

lemma schedule_reachable:
  "reachable fl c now s \<Longrightarrow> schedule fl as s = Some t \<Longrightarrow> reachable fl c now t"
  by (induction as arbitrary: s) (auto split: if_splits intro: reach_step sys_act)


section \<open>A call that runs alone is the sequential call\<close>

fun solo :: "(rat \<Rightarrow> rat) \<Rightarrow> nat \<Rightarrow> nat \<Rightarrow> breaker \<times> pc \<Rightarrow> breaker \<times> pc" where
  "solo fl now 0 bp = bp"
| "solo fl now (Suc n) bp = solo fl now n (thread_step fl now (fst bp) (snd bp))"

lemma state_of_Open_iff: "state_of b = Open \<longleftrightarrow> state_cell b = to_u8 Open"
  by (auto simp: state_of_def from_u8_def to_u8.simps split: if_splits)

lemma solo_probe:
  "solo fl now 5 (b, Probe_Clock) =
     (fst (try_half_open_probe b now), Checked (snd (try_half_open_probe b now)))"
  by (simp add: eval_nat_numeral thread_step_def is_record_pc_def try_half_open_probe_def Let_def
      admit_def elapsed_millis_def)

lemma solo_checked: "solo fl now n (b, Checked r) = (b, Checked r)"
  by (induction n) (simp_all add: thread_step_def is_record_pc_def)

lemma solo_add: "solo fl now (m + n) bp = solo fl now n (solo fl now m bp)"
  by (induction m arbitrary: bp) simp_all

lemma solo_check:
  "solo fl now 10 (b, Check_Load) = (fst (check b now now), Checked (snd (check b now now)))"
proof (cases "enabled (config b)")
  case False
  then show ?thesis
    using solo_add [of fl now 1 9] by (simp add: thread_step_def is_record_pc_def check_def solo_checked)
next
  case en: True
  show ?thesis
  proof (cases "state_of b")
    case Closed
    then show ?thesis
      using en solo_add [of fl now 1 9] by (simp add: thread_step_def is_record_pc_def check_def solo_checked)
  next
    case HalfOpen
    then have "solo fl now 10 (b, Check_Load) = solo fl now 4 (solo fl now 5 (b, Probe_Clock))"
      using en solo_add [of fl now 1 9] solo_add [of fl now 5 4]
      by (simp add: thread_step_def is_record_pc_def)
    with HalfOpen en show ?thesis by (simp add: solo_probe solo_checked check_def)
  next
    case Open
    let ?e = "from_millis (saturating_sub (elapsed_millis b now) (opened_at_millis b))"
    let ?b = "notify (OnStateChange Open HalfOpen ''open_elapsed'')
                (b\<lparr>state_cell := to_u8 HalfOpen, is_open_fast := False\<rparr>)"
    have three: "solo fl now 3 (b, Check_Load) = (b, if open_duration (config b) \<le> ?e then Open_Cas
        else Checked (Inl (BreakerOpen (open_duration (config b) - ?e))))"
      using en Open by (simp add: eval_nat_numeral thread_step_def is_record_pc_def Let_def)
    have won: "solo fl now 2 (b, Open_Cas) = (?b, Probe_Clock)"
      using Open by (simp add: eval_nat_numeral thread_step_def is_record_pc_def cas_state_def
          state_of_Open_iff)
    have "solo fl now 10 (b, Check_Load) = solo fl now 7 (solo fl now 3 (b, Check_Load))"
      using solo_add [of fl now 3 7] by simp
    also have "\<dots> = (fst (check b now now), Checked (snd (check b now now)))"
    proof (cases "open_duration (config b) \<le> ?e")
      case True
      have "solo fl now 7 (b, Open_Cas) = solo fl now 5 (?b, Probe_Clock)"
        using solo_add [of fl now 2 5] won by simp
      moreover have "state_cell b = to_u8 Open" using Open by (simp add: state_of_Open_iff)
      ultimately show ?thesis
        using True en Open
        by (simp add: three solo_probe check_def check_open_def Let_def cas_state_def)
    next
      case False
      with en Open show ?thesis
        by (simp add: three solo_checked check_def check_open_def Let_def)
    qed
    finally show ?thesis .
  qed
qed

lemma solo_recorded: "solo fl now n (b, Recorded) = (b, Recorded)"
  by (induction n) (simp_all add: thread_step_def is_record_pc_def)

lemma solo_trip:
  "solo fl now 6 (b, Trip_State oc prev r) =
     (notify (OnOutcome oc (state_of (trip b prev r now))) (trip b prev r now), Recorded)"
  by (simp add: eval_nat_numeral thread_step_def is_record_pc_def trip_def Let_def changed_def
      elapsed_millis_def)

lemma solo_close:
  "solo fl now 5 (b, Close_State oc prev r) =
     (notify (OnOutcome oc (state_of (close b prev r))) (close b prev r), Recorded)"
  by (simp add: eval_nat_numeral thread_step_def is_record_pc_def close_def Let_def changed_def)

lemma solo_record:
  "solo fl now 9 (b, Record_Clock oc) = (record_outcome fl b oc now now, Recorded)"
proof (cases "enabled (config b)")
  case False
  then show ?thesis
    using solo_add [of fl now 1 8]
    by (simp add: thread_step_def is_record_pc_def record_outcome_def solo_recorded)
next
  case en: True
  have two: "solo fl now 9 (b, Record_Clock oc) = solo fl now 7 (solo fl now 2 (b, Record_Clock oc))"
    using solo_add [of fl now 2 7] by simp
  let ?b = "note_sample b (oc = Failure) now"
  have trip: "solo fl now 7 (b, Record_Push oc now Closed) =
      (notify (OnOutcome oc Open) (trip ?b Closed ''trip'' now), Recorded)" if "should_trip fl ?b"
    using that solo_add [of fl now 1 6]
    by (simp add: thread_step_def is_record_pc_def solo_trip Let_def state_of_trip)
  have keep: "solo fl now 7 (b, Record_Push oc now prev) =
      (notify (OnOutcome oc (state_of ?b)) ?b, Recorded)" if "prev = Closed \<Longrightarrow> \<not> should_trip fl ?b" for prev
  proof -
    have "thread_step fl now b (Record_Push oc now prev) = (?b, Record_Reload oc)"
      using that by (cases "prev = Closed") (simp_all add: thread_step_def is_record_pc_def Let_def)
    then show ?thesis
      using solo_add [of fl now 1 6] solo_add [of fl now 1 5]
      by (simp add: solo_recorded thread_step_def is_record_pc_def)
  qed
  have start: "solo fl now 2 (b, Record_Clock oc) = thread_step fl now b (Record_Load oc now)"
    using en by (simp add: numeral_2_eq_2 thread_step_def is_record_pc_def)
  show ?thesis
  proof (cases "state_of b")
    case HalfOpen
    then show ?thesis
      using two start solo_add [of fl now 6 1] solo_add [of fl now 5 2] en
      by (cases "oc = Failure")
         (simp_all add: thread_step_def is_record_pc_def record_outcome_def Let_def solo_trip
           solo_close solo_recorded)
  next
    case Closed
    then show ?thesis
      using two start en trip keep [of Closed]
      by (cases "should_trip fl ?b")
         (simp_all add: thread_step_def is_record_pc_def record_outcome_def Let_def state_of_trip)
  next
    case Open
    then show ?thesis
      using two start en keep [of Open]
      by (simp add: thread_step_def is_record_pc_def record_outcome_def Let_def)
  qed
qed


section \<open>The lock-free mirror when transitions do not overlap\<close>

text \<open>
  A thread is in a transition from its write of \<open>state\<close> to its write of the mirror;
  \<open>heading\<close> is the state it wrote.
\<close>

fun heading :: "pc \<Rightarrow> breaker_state option" where
  "heading (Trip_Clock oc p r) = Some Open"
| "heading (Trip_Opened oc p r t) = Some Open"
| "heading (Trip_Probes oc p r) = Some Open"
| "heading (Trip_Fast oc p r) = Some Open"
| "heading (Close_Clear oc p r) = Some Closed"
| "heading (Close_Probes oc p r) = Some Closed"
| "heading (Close_Fast oc p r) = Some Closed"
| "heading Open_Store_Fast = Some HalfOpen"
| "heading p = None"

definition one_transition :: "sys \<Rightarrow> bool" where
  "one_transition s \<longleftrightarrow>
     (\<forall>i j. heading (pcs s i) \<noteq> None \<longrightarrow> heading (pcs s j) \<noteq> None \<longrightarrow> i = j)"

text \<open>The runs in which no two transitions are ever under way together.\<close>

inductive exclusive :: "(rat \<Rightarrow> rat) \<Rightarrow> breaker_config \<Rightarrow> nat \<Rightarrow> sys \<Rightarrow> bool" for fl c now where
  excl_init: "exclusive fl c now (init_sys c now)"
| excl_step: "exclusive fl c now s \<Longrightarrow> sys_step fl s t \<Longrightarrow> one_transition t \<Longrightarrow> exclusive fl c now t"

definition mirror_inv :: "sys \<Rightarrow> bool" where
  "mirror_inv s \<longleftrightarrow>
     (\<forall>i st. heading (pcs s i) = Some st \<longrightarrow> state_of (shared s) = st)
   \<and> ((\<forall>i. heading (pcs s i) = None) \<longrightarrow> is_open_fast (shared s) = (state_of (shared s) = Open))"

text \<open>
  What one step may do: leave state and mirror alone and start or end nothing, write the state
  and enter a transition, or end one by writing the mirror.
\<close>

lemma state_of_cas:
  "cas_state Open HalfOpen b = (won, b') \<Longrightarrow>
     (if won then state_of b' = HalfOpen else b' = b) \<and> is_open_fast b' = is_open_fast b"
  by (auto simp: cas_state_def frame_simps split: if_splits)

definition step_kind :: "breaker \<Rightarrow> pc \<Rightarrow> breaker \<Rightarrow> pc \<Rightarrow> bool" where
  "step_kind b p b' p' \<longleftrightarrow>
     (state_of b' = state_of b \<and> is_open_fast b' = is_open_fast b \<and> heading p' = heading p)
   \<or> (heading p = None \<and> heading p' = Some (state_of b'))
   \<or> (\<exists>st. heading p = Some st \<and> heading p' = None \<and> state_of b' = state_of b
         \<and> is_open_fast b' = (st = Open))"

lemma step_kind_frame:
  "state_of b' = state_of b \<Longrightarrow> is_open_fast b' = is_open_fast b \<Longrightarrow> heading p' = heading p \<Longrightarrow>
     step_kind b p b' p'"
  by (simp add: step_kind_def)

lemma check_step_kinds: "check_step now b p = (b', p') \<Longrightarrow> step_kind b p b' p'"
proof (cases p)
  case Open_Cas
  assume "check_step now b p = (b', p')"
  with Open_Cas show ?thesis
    using state_of_cas [of b] by (auto simp: step_kind_def split: prod.splits if_splits)
next
  case Open_Store_Fast
  assume "check_step now b p = (b', p')"
  with Open_Store_Fast show ?thesis by (auto simp: step_kind_def frame_simps)
qed (auto simp: Let_def admit_def frame_simps intro!: step_kind_frame
       split: if_splits breaker_state.splits)

lemma step_kind_enter:
  "heading p = None \<Longrightarrow> heading p' = Some (state_of b') \<Longrightarrow> step_kind b p b' p'"
  by (simp add: step_kind_def)

lemma step_kind_leave:
  "heading p = Some st \<Longrightarrow> heading p' = None \<Longrightarrow> state_of b' = state_of b \<Longrightarrow>
     is_open_fast b' = (st = Open) \<Longrightarrow> step_kind b p b' p'"
  by (simp add: step_kind_def)

lemma changed_fields [frame_simps]:
  "state_of (changed a c r b) = state_of b" "is_open_fast (changed a c r b) = is_open_fast b"
  by (simp_all add: changed_def frame_simps)

lemma note_sample_mirror [frame_simps]: "is_open_fast (note_sample b f t) = is_open_fast b"
  by (simp add: note_sample_def)

lemma record_step_kinds: "record_step fl now b p = (b', p') \<Longrightarrow> step_kind b p b' p'"
proof (cases p)
  case (Record_Load oc t)
  assume "record_step fl now b p = (b', p')"
  with Record_Load show ?thesis by (cases "state_of b") (auto intro!: step_kind_frame)
next
  case (Trip_State oc prev r)
  assume "record_step fl now b p = (b', p')"
  with Trip_State show ?thesis by (auto simp: frame_simps intro!: step_kind_enter)
next
  case (Close_State oc prev r)
  assume "record_step fl now b p = (b', p')"
  with Close_State show ?thesis by (auto simp: frame_simps intro!: step_kind_enter)
next
  case (Trip_Fast oc prev r)
  assume "record_step fl now b p = (b', p')"
  with Trip_Fast show ?thesis by (auto simp: frame_simps intro!: step_kind_leave [of _ Open])
next
  case (Close_Fast oc prev r)
  assume "record_step fl now b p = (b', p')"
  with Close_Fast show ?thesis by (auto simp: frame_simps intro!: step_kind_leave [of _ Closed])
qed (auto simp: Let_def frame_simps intro!: step_kind_frame)

lemma thread_step_kinds: "thread_step fl now b p = (b', p') \<Longrightarrow> step_kind b p b' p'"
  by (auto simp: thread_step_def check_step_kinds record_step_kinds split: if_splits)

lemma mirror_inv_init: "mirror_inv (init_sys c now)"
  by (simp add: mirror_inv_def init_sys_def with_clock_def state_of_def)

lemma one_transitionD:
  "one_transition s \<Longrightarrow> heading (pcs s i) \<noteq> None \<Longrightarrow> j \<noteq> i \<Longrightarrow> heading (pcs s j) = None"
  unfolding one_transition_def by metis

lemma mirror_inv_run:
  assumes inv: "mirror_inv s" and one: "one_transition (act fl (Run i) s)" and pre: "one_transition s"
  shows "mirror_inv (act fl (Run i) s)"
proof -
  obtain b' p' where st: "thread_step fl (clock s) (shared s) (pcs s i) = (b', p')" by fastforce
  have s': "act fl (Run i) s = s\<lparr>shared := b', pcs := (pcs s)(i := p')\<rparr>" by (simp add: st)
  have others: "heading (pcs s j) = None" if "heading p' \<noteq> None" "j \<noteq> i" for j
    using one_transitionD [OF one [unfolded s'], of i j] that by simp
  have mine: "heading (pcs s j) = None" if "heading (pcs s i) \<noteq> None" "j \<noteq> i" for j
    using pre that by (rule one_transitionD)
  from thread_step_kinds [OF st, unfolded step_kind_def] consider
      (same) "state_of b' = state_of (shared s)" "is_open_fast b' = is_open_fast (shared s)"
        "heading p' = heading (pcs s i)"
    | (enter) "heading p' = Some (state_of b')"
    | (leave) st where "heading (pcs s i) = Some st" "heading p' = None"
        "state_of b' = state_of (shared s)" "is_open_fast b' = (st = Open)"
    by blast
  then show ?thesis
  proof cases
    case same
    then have "heading (((pcs s)(i := p')) j) = heading (pcs s j)" for j by simp
    with inv same show ?thesis unfolding s' mirror_inv_def by simp
  next
    case enter
    then have "heading (((pcs s)(i := p')) j) = (if j = i then Some (state_of b') else None)" for j
      using others by simp
    then show ?thesis unfolding s' mirror_inv_def by auto
  next
    case leave
    then have "heading (((pcs s)(i := p')) j) = None" for j using mine by simp
    moreover have "state_of (shared s) = st" using inv leave by (simp add: mirror_inv_def)
    ultimately show ?thesis using leave unfolding s' mirror_inv_def by simp
  qed
qed

lemma mirror_inv_start:
  assumes "mirror_inv s" "heading (pcs s i) = None" "heading p = None"
  shows "mirror_inv (s\<lparr>pcs := (pcs s)(i := p)\<rparr>)"
proof -
  have "heading (((pcs s)(i := p)) j) = heading (pcs s j)" for j using assms by simp
  with assms(1) show ?thesis unfolding mirror_inv_def by simp
qed

lemma heading_finished: "finished p \<Longrightarrow> heading p = None"
  by (cases p) (simp_all add: finished_def)

lemma mirror_inv_step:
  assumes "mirror_inv s" "one_transition s" "sys_step fl s t" "one_transition t"
  shows "mirror_inv t"
  using assms(3)
proof (cases rule: sys_step.cases)
  case (sys_act a)
  show ?thesis
  proof (cases a)
    case (Run i)
    then show ?thesis using assms sys_act mirror_inv_run by simp
  next
    case (Tick d)
    then show ?thesis using assms(1) sys_act by (simp add: mirror_inv_def)
  qed (use assms(1) sys_act in \<open>simp_all add: mirror_inv_start heading_finished\<close>)
qed

lemma exclusive_inv: "exclusive fl c now s \<Longrightarrow> mirror_inv s \<and> one_transition s"
proof (induction rule: exclusive.induct)
  case excl_init
  then show ?case by (simp add: mirror_inv_init) (simp add: one_transition_def init_sys_def)
next
  case (excl_step s t)
  then show ?case using mirror_inv_step by blast
qed

section \<open>Two schedules of overlapping transitions\<close>

lemma schedule_runs:
  "schedule fl (replicate n (Run i) @ as) \<lparr>shared = b, clock = t, pcs = p\<rparr> =
     schedule fl as \<lparr>shared = fst (solo fl t n (b, p i)), clock = t,
       pcs = p(i := snd (solo fl t n (b, p i)))\<rparr>"
proof (induction n arbitrary: b p)
  case (Suc n)
  show ?case by (simp add: case_prod_beta Suc.IH del: fun_upd_apply)
      (simp add: fun_upd_def cong: if_cong)
qed simp

lemma schedule_start:
  "finished (p i) \<Longrightarrow> schedule fl (StartCheck i # as) \<lparr>shared = b, clock = t, pcs = p\<rparr> =
     schedule fl as \<lparr>shared = b, clock = t, pcs = p(i := Check_Load)\<rparr>"
  "finished (p i) \<Longrightarrow> schedule fl (StartRecord i oc # as) \<lparr>shared = b, clock = t, pcs = p\<rparr> =
     schedule fl as \<lparr>shared = b, clock = t, pcs = p(i := Record_Clock oc)\<rparr>"
  "schedule fl (Tick d # as) \<lparr>shared = b, clock = t, pcs = p\<rparr> =
     schedule fl as \<lparr>shared = b, clock = t + d, pcs = p\<rparr>"
  by simp_all

lemmas schedule_parts = schedule_start schedule_runs

definition race_config :: breaker_config where
  "race_config = \<lparr>window_duration = from_secs 60, min_samples = 1, error_rate_threshold = 1 / 2,
     open_duration = from_secs 10, half_open_max_probes = 1, failure_codes = {429}, enabled = True\<rparr>"

text \<open>One failure trips the breaker; after the cool-down thread 0 is admitted as the probe.\<close>

definition to_half_open :: "action list" where
  "to_half_open = StartRecord 0 Failure # replicate 9 (Run 0) @ Tick (from_secs 11)
     # StartCheck 0 # replicate 10 (Run 0)"

definition tripped :: breaker where
  "tripped = record_outcome (\<lambda>x. x) (with_clock race_config 0) Failure 0 0"

definition probing :: breaker where
  "probing = fst (check tripped (from_secs 11) (from_secs 11))"

lemma schedule_to_half_open:
  "schedule (\<lambda>x. x) (to_half_open @ as) (init_sys race_config 0) =
     schedule (\<lambda>x. x) as \<lparr>shared = probing, clock = from_secs 11,
       pcs = (\<lambda>_. Idle)(0 := Checked (snd (check tripped (from_secs 11) (from_secs 11))))\<rparr>"
  by (simp add: to_half_open_def schedule_parts init_sys_def finished_def solo_record solo_check
      tripped_def [symmetric] probing_def [symmetric] del: schedule.simps)

lemma tripped_fields:
  "state_of tripped = Open" "opened_at_millis tripped = 0" "probe_claimed_at_millis tripped = 0"
  "half_open_probes tripped = 0" "config tripped = race_config" "baseline tripped = 0"
  "state_cell tripped = 1"
  by (simp_all add: tripped_def record_outcome_def with_clock_def race_config_def state_of_def
      from_u8_def to_u8.simps note_sample_def should_trip_def window_new_def window_push_def
      window_evict_def instant_checked_sub_def window_sample_count_def window_error_rate_def
      MAX_WINDOW_ENTRIES_def from_secs_def Let_def trip_def notify_def elapsed_millis_def
      as_millis_u64_def max_def)

lemma probing_fields:
  "state_of probing = HalfOpen" "half_open_probes probing = 1" "config probing = race_config"
  using tripped_fields
  by (simp_all add: probing_def check_def check_open_def Let_def race_config_def cas_state_def
      to_u8.simps try_half_open_probe_def notify_def state_of_def elapsed_millis_def from_millis_def
      from_secs_def as_millis_u64_def from_u8_def saturating_sub_def)
    

definition stale_mirror :: "action list" where
  "stale_mirror = [StartRecord 1 Failure, StartRecord 2 Success] @ replicate 2 (Run 1) @ replicate 2 (Run 2)
     @ replicate 4 (Run 1) @ replicate 5 (Run 2) @ replicate 2 (Run 1)"

lemma stale_mirror_run:
  assumes "state_of b = HalfOpen" and "enabled (config b)" and "\<forall>i. finished (p i)"
  shows "\<exists>b' p'. schedule fl (stale_mirror @ as) \<lparr>shared = b, clock = t, pcs = p\<rparr> =
       schedule fl as \<lparr>shared = b', clock = t, pcs = p'\<rparr>
     \<and> state_of b' = Closed \<and> is_open_fast b' \<and> (\<forall>i. finished (p' i))"
  using assms
  apply (simp add: stale_mirror_def schedule_parts eval_nat_numeral thread_step_def is_record_pc_def
      changed_def frame_simps finished_def del: schedule.simps replicate.simps)
  apply (rule exI)+
  apply (rule conjI, rule refl)
  apply (simp add: frame_simps)
  done

text \<open>Thread 2 takes a slot it has to give back; before it does, thread 1 reopens the breaker.\<close>

definition late_return :: "action list" where
  "late_return = [StartRecord 1 Failure, StartCheck 2] @ replicate 2 (Run 1) @ replicate 3 (Run 2)
     @ replicate 6 (Run 1) @ replicate 2 (Run 2)"

lemma late_return_run:
  assumes "state_of b = HalfOpen" and "enabled (config b)" and "\<forall>i. finished (p i)"
    and "half_open_probes b = half_open_max_probes (config b)"
    and "saturating_sub (elapsed_millis b t) (probe_claimed_at_millis b) < as_millis_u64 (open_duration (config b))"
  shows "\<exists>b' p'. schedule fl (late_return @ as) \<lparr>shared = b, clock = t, pcs = p\<rparr> =
       schedule fl as \<lparr>shared = b', clock = t, pcs = p'\<rparr>
     \<and> state_of b' = Open \<and> half_open_probes b' = - 1 \<and> (\<forall>i. finished (p' i))"
  using assms(1-4) linorder_not_le [THEN iffD2, OF assms(5)]
  apply (simp add: late_return_def schedule_parts eval_nat_numeral thread_step_def is_record_pc_def
      changed_def frame_simps finished_def admit_def Let_def del: schedule.simps replicate.simps)
  apply (rule exI)+
  apply (rule conjI, rule refl)
  apply (simp add: frame_simps)
  done

abbreviation probe_admitted :: "nat \<Rightarrow> pc" where
  "probe_admitted \<equiv> (\<lambda>_. Idle)(0 := Checked (snd (check tripped (from_secs 11) (from_secs 11))))"

lemma probe_admitted_finished: "\<forall>i. finished (probe_admitted i)"
  by (simp add: finished_def)

lemma probing_claim:
  "saturating_sub (elapsed_millis probing (from_secs 11)) (probe_claimed_at_millis probing)
     < as_millis_u64 (open_duration race_config)"
  using tripped_fields
  by (simp add: probing_def check_def check_open_def Let_def race_config_def cas_state_def
      to_u8.simps try_half_open_probe_def notify_def state_of_def elapsed_millis_def from_millis_def
      from_secs_def as_millis_u64_def from_u8_def saturating_sub_def)

section \<open>Runs of a single thread\<close>

definition only_zero :: "sys \<Rightarrow> bool" where
  "only_zero s \<longleftrightarrow> (\<forall>i. 0 < i \<longrightarrow> pcs s i = Idle)"

lemma only_zero_one: "only_zero s \<Longrightarrow> one_transition s"
  unfolding only_zero_def one_transition_def by (metis heading.simps(9) neq0_conv)

fun by_zero :: "action \<Rightarrow> bool" where
  "by_zero (StartCheck i) = (i = 0)"
| "by_zero (StartRecord i oc) = (i = 0)"
| "by_zero (Run i) = (i = 0)"
| "by_zero (Tick d) = True"

lemma only_zero_act: "only_zero s \<Longrightarrow> by_zero a \<Longrightarrow> only_zero (act fl a s)"
  by (cases a) (auto simp: only_zero_def case_prod_beta)

lemma exclusive_by_zero:
  "exclusive fl c now s \<Longrightarrow> only_zero s \<Longrightarrow> \<forall>a\<in>set as. by_zero a \<Longrightarrow> schedule fl as s = Some t \<Longrightarrow>
     exclusive fl c now t"
proof (induction as arbitrary: s)
  case (Cons a as)
  then have "allowed a s" "schedule fl as (act fl a s) = Some t" by (auto split: if_splits)
  moreover have "only_zero (act fl a s)" using Cons.prems by (simp add: only_zero_act)
  moreover from this have "exclusive fl c now (act fl a s)"
    using Cons.prems(1) \<open>allowed a s\<close> by (blast intro: excl_step sys_act only_zero_one)
  ultimately show ?case using Cons.IH Cons.prems(3) by simp
qed simp

lemma exclusive_probing:
  "exclusive (\<lambda>x. x) race_config 0 \<lparr>shared = probing, clock = from_secs 11, pcs = probe_admitted\<rparr>"
proof (rule exclusive_by_zero [OF excl_init, where as = "to_half_open @ []"])
  show "only_zero (init_sys race_config 0)" by (simp add: only_zero_def init_sys_def)
  show "\<forall>a\<in>set (to_half_open @ []). by_zero a" by (simp add: to_half_open_def)
qed (simp only: schedule_to_half_open schedule.simps)

section \<open>Properties\<close>

text \<open>
  An uninterrupted \<open>check\<close>, run one atomic access at a time, does exactly what the
  sequential \<open>check\<close> does, on every breaker and in every state: same fields, same callbacks,
  same answer.
\<close>

theorem interleaved_check_alone:
  "solo fl now 10 (b, Check_Load) = (fst (check b now now), Checked (snd (check b now now)))"
  by (rule solo_check)

text \<open>
  An uninterrupted \<open>record\<close>, run one atomic access at a time, does exactly what the
  sequential \<open>record\<close> does, including the trip and the close it ends in.
\<close>

theorem interleaved_record_alone:
  "solo fl now 9 (b, Record_Clock oc) = (record_outcome fl b oc now now, Recorded)"
  by (rule solo_record)

text \<open>
  C13: as long as no two transitions (a trip, a close, a half-opening) are under way at the same
  time, then whatever else the threads interleave, the lock-free \<open>is_open\<close> agrees with the
  authoritative state whenever no transition is under way.
\<close>

theorem is_open_exact_without_overlap:
  assumes "exclusive fl c now s" and "\<forall>i. heading (pcs s i) = None"
  shows "is_open (shared s) \<longleftrightarrow> state_of (shared s) = Open"
  using exclusive_inv [OF assms(1)] assms(2) by (simp add: mirror_inv_def is_open_def)

lemma is_open_exact_without_overlap_witness:
  "is_open probing \<longleftrightarrow> state_of probing = Open"
  using is_open_exact_without_overlap [OF exclusive_probing] by simp

text \<open>
  C14: overlapping transitions break that agreement for good: in \<open>HalfOpen\<close>, a failure and a
  success that are recorded together can leave every thread finished with the breaker
  \<open>Closed\<close> and \<open>is_open\<close> still answering true.
\<close>

theorem is_open_sticks_after_race:
  "\<exists>s. reachable (\<lambda>x. x) race_config 0 s \<and> (\<forall>i. finished (pcs s i)) \<and>
       state_of (shared s) = Closed \<and> is_open (shared s)"
proof -
  obtain b p where s: "schedule (\<lambda>x. x) (to_half_open @ stale_mirror @ []) (init_sys race_config 0) =
      Some \<lparr>shared = b, clock = from_secs 11, pcs = p\<rparr>"
    and b: "state_of b = Closed" "is_open_fast b" "\<forall>i. finished (p i)"
    using stale_mirror_run [of probing probe_admitted "\<lambda>x. x" "[]" "from_secs 11"]
      probing_fields probe_admitted_finished
    unfolding schedule_to_half_open by (auto simp: race_config_def)
  from schedule_reachable [OF reach_init s] b show ?thesis by (auto simp: is_open_def)
qed

text \<open>
  The probe counter need not be zero on entry to \<open>HalfOpen\<close>: a check that returns a slot
  it did not get after a concurrent trip has zeroed the counter wraps it to \<open>usize::MAX\<close>
  while the breaker is \<open>Open\<close>.
\<close>

theorem probe_counter_wraps_while_open:
  "\<exists>s. reachable (\<lambda>x. x) race_config 0 s \<and> (\<forall>i. finished (pcs s i)) \<and>
       state_of (shared s) = Open \<and> half_open_probes (shared s) = - 1"
proof -
  obtain b p where s: "schedule (\<lambda>x. x) (to_half_open @ late_return @ []) (init_sys race_config 0) =
      Some \<lparr>shared = b, clock = from_secs 11, pcs = p\<rparr>"
    and b: "state_of b = Open" "half_open_probes b = - 1" "\<forall>i. finished (p i)"
    using late_return_run [of probing probe_admitted "from_secs 11" "\<lambda>x. x" "[]"]
      probing_fields probe_admitted_finished probing_claim
    unfolding schedule_to_half_open by (auto simp: race_config_def)
  from schedule_reachable [OF reach_init s] b show ?thesis by auto
qed

end
