(* ===== verification/Event_Queue.thy ===== *)
theory Event_Queue
  imports Prelude "HOL-Library.Multiset"
begin

text \<open>
  \<open>crates/common/xai-interjection-core\<close>: the shared event queue (\<open>events.rs\<close>), and the
  interjection buffer and its framing as user messages (\<open>buffer.rs\<close>, \<open>format.rs\<close>). Every
  operation holds the queue's mutex for its whole body, so it is one step on the list under the
  mutex; clones of a queue share that list.
\<close>

section \<open>What a reader of a queue relies on\<close>

text \<open>
  \<open>drain\<close> takes everything and leaves the queue empty; \<open>restore\<close> puts back what a reader
  could not process, ahead of what has arrived since.
\<close>

locale fifo_queue =
  fixes content :: "'q \<Rightarrow> 'e list"
    and push :: "'q \<Rightarrow> 'e \<Rightarrow> 'q"
    and drain :: "'q \<Rightarrow> 'q \<times> 'e list"
    and restore :: "'q \<Rightarrow> 'e list \<Rightarrow> 'q"
  assumes content_push: "content (push q e) = content q @ [e]"
    and content_drain: "content (fst (drain q)) = []"
    and result_drain: "snd (drain q) = content q"
    and content_restore: "content (restore q es) = es @ content q"
begin

lemma content_pushes: "content (foldl push q es) = content q @ es"
  by (induction es arbitrary: q) (simp_all add: content_push)

text \<open>
  Cancel safety: a reader that drains, handles the first \<open>k\<close> events, is aborted and restores
  the rest leaves the queue as if it had taken just those \<open>k\<close>, whatever was pushed meanwhile.
\<close>

lemma restore_remainder:
  "content (restore (foldl push (fst (drain q)) es) (drop k (snd (drain q))))
     = drop k (content q) @ es"
  by (simp add: content_restore content_pushes content_drain result_drain)

lemma drain_after_restore:
  "snd (drain (restore (foldl push (fst (drain q)) es) (snd (drain q)))) = content q @ es"
  by (simp add: result_drain content_restore content_pushes content_drain)

end

section \<open>The queue of the source\<close>

record 'e event_queue =
  events :: "'e list"

definition queue_new :: "'e event_queue" where
  "queue_new = \<lparr>events = []\<rparr>"

definition queue_push :: "'e event_queue \<Rightarrow> 'e \<Rightarrow> 'e event_queue" where
  "queue_push q e = q\<lparr>events := events q @ [e]\<rparr>"

definition queue_push_capped :: "'e event_queue \<Rightarrow> 'e \<Rightarrow> nat \<Rightarrow> 'e event_queue" where
  "queue_push_capped q e mx =
     (let q1 = queue_push q e
      in if mx < length (events q1)
         then (let excess = length (events q1) - mx in q1\<lparr>events := drop excess (events q1)\<rparr>)
         else q1)"

definition queue_len :: "'e event_queue \<Rightarrow> nat" where
  "queue_len q = length (events q)"

definition queue_is_empty :: "'e event_queue \<Rightarrow> bool" where
  "queue_is_empty q = (events q = [])"

definition drain_matching :: "'e event_queue \<Rightarrow> ('e \<Rightarrow> bool) \<Rightarrow> 'e event_queue \<times> 'e list" where
  "drain_matching q take_it =
     (let (matched, kept) = partition take_it (events q) in (q\<lparr>events := kept\<rparr>, matched))"

definition drain_all :: "'e event_queue \<Rightarrow> 'e event_queue \<times> 'e list" where
  "drain_all q = (q\<lparr>events := []\<rparr>, events q)"

definition restore_front :: "'e event_queue \<Rightarrow> 'e list \<Rightarrow> 'e event_queue" where
  "restore_front q es = (if es = [] then q else q\<lparr>events := es @ events q\<rparr>)"

definition queue_clear :: "'e event_queue \<Rightarrow> 'e event_queue" where
  "queue_clear q = q\<lparr>events := []\<rparr>"

definition queue_snapshot :: "'e event_queue \<Rightarrow> 'e list" where
  "queue_snapshot q = events q"

lemmas queue_defs = queue_push_def drain_matching_def drain_all_def restore_front_def
  queue_clear_def queue_push_capped_def queue_new_def

interpretation evq: fifo_queue events queue_push drain_all restore_front
  by unfold_locales (simp_all add: queue_defs)

lemma events_push_capped:
  "events (queue_push_capped q e mx) =
     drop (length (events q) + 1 - mx) (events q @ [e])"
  by (auto simp: queue_defs Let_def)

section \<open>Runs: nothing is lost or handed out twice\<close>

datatype 'e queue_op =
    Push 'e
  | Push_Capped 'e nat
  | Drain_Matching "'e \<Rightarrow> bool"
  | Drain_All
  | Clear

record 'e queue_run =
  queue :: "'e event_queue"
  handed_out :: "'e list"
  dropped :: "'e list"

fun run_op :: "'e queue_run \<Rightarrow> 'e queue_op \<Rightarrow> 'e queue_run" where
  "run_op r (Push e) = r\<lparr>queue := queue_push (queue r) e\<rparr>"
| "run_op r (Push_Capped e mx) =
     r\<lparr>queue := queue_push_capped (queue r) e mx,
       dropped := dropped r @ take (length (events (queue r)) + 1 - mx) (events (queue r) @ [e])\<rparr>"
| "run_op r (Drain_Matching p) =
     r\<lparr>queue := fst (drain_matching (queue r) p), handed_out := handed_out r @ snd (drain_matching (queue r) p)\<rparr>"
| "run_op r Drain_All =
     r\<lparr>queue := fst (drain_all (queue r)), handed_out := handed_out r @ snd (drain_all (queue r))\<rparr>"
| "run_op r Clear = r\<lparr>queue := queue_clear (queue r), dropped := dropped r @ events (queue r)\<rparr>"

fun pushed :: "'e queue_op list \<Rightarrow> 'e list" where
  "pushed [] = []"
| "pushed (Push e # ops) = e # pushed ops"
| "pushed (Push_Capped e mx # ops) = e # pushed ops"
| "pushed (op # ops) = pushed ops"

definition queue_run :: "'e queue_op list \<Rightarrow> 'e queue_run" where
  "queue_run ops = foldl run_op \<lparr>queue = queue_new, handed_out = [], dropped = []\<rparr> ops"

definition accounted :: "'e queue_run \<Rightarrow> 'e multiset" where
  "accounted r = mset (events (queue r)) + mset (handed_out r) + mset (dropped r)"

lemma mset_take_drop: "mset (take n xs) + mset (drop n xs) = mset xs"
  by (metis append_take_drop_id mset_append)

lemma mset_partition: "mset (filter p xs) + mset (filter (\<lambda>x. \<not> p x) xs) = mset xs"
  by (induction xs) auto

lemma accounted_step: "accounted (run_op r op) = accounted r + mset (pushed [op])"
proof (cases op)
  case (Push_Capped e mx)
  let ?xs = "events (queue r) @ [e]"
  let ?n = "length (events (queue r)) + 1 - mx"
  have "mset (take ?n ?xs) + mset (drop ?n ?xs) = mset ?xs" by (rule mset_take_drop)
  then show ?thesis using Push_Capped
    by (simp add: accounted_def events_push_capped ac_simps del: take_append drop_append)
next
  case (Drain_Matching p)
  then show ?thesis
    using mset_partition [of p "events (queue r)"]
    by (simp add: accounted_def drain_matching_def ac_simps o_def)
qed (simp_all add: accounted_def queue_defs)

lemma pushed_Cons: "pushed (op # ops) = pushed [op] @ pushed ops"
  by (cases op) simp_all

lemma accounted_run: "accounted (foldl run_op r ops) = accounted r + mset (pushed ops)"
proof (induction ops arbitrary: r)
  case Nil
  then show ?case by simp
next
  case (Cons op ops)
  have "mset (pushed (op # ops)) = mset (pushed [op]) + mset (pushed ops)"
    by (simp only: pushed_Cons [of op ops] mset_append)
  with Cons show ?case by (simp add: accounted_step del: pushed.simps)
qed

section \<open>Framing an interjection\<close>

record 'a pending_interjection =
  pi_text :: string
  pi_attachments :: "'a list"

record 'a formatted_interjection =
  fi_text :: string
  fi_attachments :: "'a list"

definition LARGE_PROMPT_THRESHOLD :: nat where
  "LARGE_PROMPT_THRESHOLD = 25000"

definition INTERJECTION_NOTE :: string where
  "INTERJECTION_NOTE = ''The user sent a message while you were working:''"

definition INTERRUPT_NOTE :: string where
  "INTERRUPT_NOTE = ''The user interrupted the previous turn:''"

definition UNFINISHED_TASKS_REMINDER :: string where
  "UNFINISHED_TASKS_REMINDER = ''Make sure to complete any unfinished tasks from previous turns.''"

definition newline :: string where
  "newline = [CHR 0x0A]"

definition user_query :: "string \<Rightarrow> string" where
  "user_query user_message = ''<user_query>'' @ newline @ user_message @ newline @ ''</user_query>''"

definition frame_user_turn :: "string \<Rightarrow> string \<Rightarrow> string" where
  "frame_user_turn nt assembled = nt @ newline @ assembled @ newline @ UNFINISHED_TASKS_REMINDER"

text \<open>
  A \<open>String\<close> is its UTF-8 bytes. A character starts at every byte that is not a continuation
  byte (\<open>0x80\<close> to \<open>0xBF\<close>) and ends where the next one starts.
\<close>

definition is_continuation :: "char \<Rightarrow> bool" where
  "is_continuation c = (0x80 \<le> (of_char c :: nat) \<and> (of_char c :: nat) < 0xC0)"

definition is_boundary :: "string \<Rightarrow> nat \<Rightarrow> bool" where
  "is_boundary s i = (i = length s \<or> (i < length s \<and> \<not> is_continuation (s ! i)))"

definition char_starts :: "string \<Rightarrow> nat list" where
  "char_starts s = filter (\<lambda>i. \<not> is_continuation (s ! i)) [0..<length s]"

definition char_end :: "string \<Rightarrow> nat \<Rightarrow> nat" where
  "char_end s i = (case filter (\<lambda>j. i < j) (char_starts s) of [] \<Rightarrow> length s | j # _ \<Rightarrow> j)"

definition truncate_end :: "string \<Rightarrow> nat" where
  "truncate_end s =
     (let before = takeWhile (\<lambda>i. i < LARGE_PROMPT_THRESHOLD) (char_starts s)
      in if before = [] then length s else char_end s (last before))"

definition format_steered_query :: "string \<Rightarrow> string \<Rightarrow> string" where
  "format_steered_query nt txt =
     (let truncated = (if length txt \<le> LARGE_PROMPT_THRESHOLD then txt
                       else take (truncate_end txt) txt @ ''... [truncated]'')
      in frame_user_turn nt (user_query truncated))"

definition format_interjection :: "string \<Rightarrow> string" where
  "format_interjection txt = format_steered_query INTERJECTION_NOTE txt"

definition format_interrupt :: "string \<Rightarrow> string" where
  "format_interrupt txt = format_steered_query INTERRUPT_NOTE txt"

definition drain_formatted ::
  "'a pending_interjection event_queue \<Rightarrow> (string \<Rightarrow> string) \<Rightarrow>
     'a pending_interjection event_queue \<times> 'a formatted_interjection list" where
  "drain_formatted buf sanitize =
     (let (buf', es) = drain_all buf
      in (buf', map (\<lambda>e. \<lparr>fi_text = format_interjection (sanitize (pi_text e)),
                          fi_attachments = pi_attachments e\<rparr>) es))"

section \<open>The cut falls between characters\<close>

lemma char_end_boundary: "is_boundary s (char_end s i)"
proof (cases "filter (\<lambda>j. i < j) (char_starts s)")
  case Nil
  then show ?thesis by (simp add: char_end_def is_boundary_def)
next
  case (Cons j js)
  then have "j \<in> set (filter (\<lambda>j. i < j) (char_starts s))" by simp
  then have "j \<in> set (char_starts s)" by simp
  with Cons show ?thesis by (auto simp: char_end_def is_boundary_def char_starts_def)
qed

lemma char_end_gt: "i < length s \<Longrightarrow> i < char_end s i \<and> char_end s i \<le> length s"
proof (cases "filter (\<lambda>j. i < j) (char_starts s)")
  case (Cons j js)
  assume "i < length s"
  from Cons have "j \<in> set (filter (\<lambda>j. i < j) (char_starts s))" by simp
  then have "i < j \<and> j < length s" by (auto simp: char_starts_def)
  with Cons show ?thesis by (simp add: char_end_def)
qed (simp add: char_end_def)

lemma truncate_end_boundary: "is_boundary s (truncate_end s)"
  by (simp add: truncate_end_def Let_def char_end_boundary) (simp add: is_boundary_def)

lemma truncate_end_le: "truncate_end s \<le> length s"
proof (cases "takeWhile (\<lambda>i. i < LARGE_PROMPT_THRESHOLD) (char_starts s)")
  case Nil
  then show ?thesis by (simp add: truncate_end_def)
next
  case (Cons a as)
  let ?b = "takeWhile (\<lambda>i. i < LARGE_PROMPT_THRESHOLD) (char_starts s)"
  have "last ?b \<in> set ?b" using Cons by (intro last_in_set) simp
  then have "last ?b < length s" by (auto simp: char_starts_def dest: set_takeWhileD)
  with Cons char_end_gt show ?thesis by (simp add: truncate_end_def)
qed

lemma sorted_char_starts: "sorted_wrt (<) (char_starts s)"
  unfolding char_starts_def by (intro sorted_wrt_filter) simp

lemma sorted_wrt_le_last: "sorted_wrt (<) (xs :: nat list) \<Longrightarrow> x \<in> set xs \<Longrightarrow> x \<le> last xs"
  by (induction xs) (auto simp: less_imp_le)

text \<open>
  The character after the last one that starts below the threshold starts at or above it, so
  the kept prefix never stops short of the threshold.
\<close>

lemma truncate_end_ge:
  assumes "LARGE_PROMPT_THRESHOLD < length s"
  shows "LARGE_PROMPT_THRESHOLD \<le> truncate_end s"
proof (cases "takeWhile (\<lambda>i. i < LARGE_PROMPT_THRESHOLD) (char_starts s)")
  case Nil
  then show ?thesis using assms by (simp add: truncate_end_def)
next
  case (Cons a as)
  let ?L = LARGE_PROMPT_THRESHOLD
  let ?b = "takeWhile (\<lambda>i. i < ?L) (char_starts s)"
  let ?r = "dropWhile (\<lambda>i. i < ?L) (char_starts s)"
  have split: "char_starts s = ?b @ ?r" by simp
  have "sorted_wrt (<) ?b" using sorted_char_starts [of s] split by (metis sorted_wrt_append)
  then have "\<forall>x\<in>set ?b. x \<le> last ?b" by (simp add: sorted_wrt_le_last)
  then have none: "filter (\<lambda>j. last ?b < j) ?b = []" by (auto simp: filter_empty_conv)
  have far: "?L \<le> j" if "filter (\<lambda>j. last ?b < j) (char_starts s) = j # js" for j js
  proof -
    have "filter (\<lambda>j. last ?b < j) (char_starts s) = filter (\<lambda>j. last ?b < j) ?b @ filter (\<lambda>j. last ?b < j) ?r"
      by (simp flip: filter_append)
    then have "filter (\<lambda>j. last ?b < j) ?r = j # js" using that none by simp
    then have j: "j \<in> set ?r" by (metis filter_is_subset list.set_intros(1) subsetD)
    then obtain h t where r: "?r = h # t" by (cases ?r) auto
    then have h: "\<not> h < ?L" by (simp add: dropWhile_eq_Cons_conv)
    have "sorted_wrt (<) ?r" using sorted_char_starts [of s] split by (metis sorted_wrt_append)
    then have "h \<le> j" using r j by auto
    then show ?thesis using h by simp
  qed
  show ?thesis
  proof (cases "filter (\<lambda>j. last ?b < j) (char_starts s)")
    case Nil
    then show ?thesis using Cons assms by (simp add: truncate_end_def char_end_def)
  next
    case (Cons j js)
    then have "?L \<le> j" by (rule far)
    with Cons \<open>?b = a # as\<close> show ?thesis by (simp add: truncate_end_def char_end_def)
  qed
qed

section \<open>Properties\<close>

text \<open>
  No event is lost, duplicated or invented: over any sequence of operations on a new queue,
  the events pushed are exactly those still queued, those handed to a reader and those dropped by
  a cap or a clear, counted with multiplicity.
\<close>

theorem queue_conserves_events:
  "mset (events (queue (queue_run ops))) + mset (handed_out (queue_run ops)) + mset (dropped (queue_run ops))
     = mset (pushed ops)"
  using accounted_run [of "\<lparr>queue = queue_new, handed_out = [], dropped = []\<rparr>" ops]
  by (simp add: accounted_def queue_run_def queue_new_def)

text \<open>
  C18: a reader that drains the queue, handles the first \<open>k\<close> events and is cancelled, restoring
  the rest, leaves the queue as if it had taken only those \<open>k\<close>, in order and ahead of whatever
  other threads pushed meanwhile.
\<close>

theorem restore_is_cancel_safe:
  "events (restore_front (foldl queue_push (fst (drain_all q)) es) (drop k (snd (drain_all q))))
     = drop k (events q) @ es"
  by (rule evq.restore_remainder)

text \<open>
  A message longer than the limit is cut at a UTF-8 character boundary, never below the
  limit and never beyond the message.
\<close>

theorem long_message_cut:
  assumes "LARGE_PROMPT_THRESHOLD < length s"
  shows "is_boundary s (truncate_end s) \<and> LARGE_PROMPT_THRESHOLD \<le> truncate_end s \<and> truncate_end s \<le> length s"
  using truncate_end_boundary truncate_end_ge [OF assms] truncate_end_le by blast

lemma long_message_cut_witness:
  "is_boundary (replicate 25001 CHR ''a'') (truncate_end (replicate 25001 CHR ''a''))"
  using long_message_cut [of "replicate 25001 CHR ''a''"] by (simp add: LARGE_PROMPT_THRESHOLD_def)

end
