(* ===== verification/Message_Delivery.thy ===== *)
theory Message_Delivery
  imports Prelude "HOL-Library.Multiset"
begin

text \<open>
  \<open>crates/common/xai-message-delivery-core\<close>: which operations a sender may ask for
  (\<open>envelope.rs\<close>) and the turn-bound ownership of messages that wait for a safe point
  (\<open>lifecycle.rs\<close>). The source's type parameters are type variables and its \<open>PartialEq\<close>
  bounds are HOL equality.
\<close>

unbundle bit_operations_syntax

section \<open>Envelopes and authorization\<close>

datatype principal = Human | Agent | Runtime

datatype operation = Queue | Steer | Interject | InterruptAndSend

record ('g, 'c, 'i) delivery_envelope =
  env_principal :: principal
  env_operation :: operation
  env_content :: 'c
  env_identity :: 'i
  env_grant :: 'g

definition from_human :: "operation \<Rightarrow> 'c \<Rightarrow> 'i \<Rightarrow> 'g \<Rightarrow> ('g, 'c, 'i) delivery_envelope" where
  "from_human op c i g = \<lparr>env_principal = Human, env_operation = op, env_content = c,
     env_identity = i, env_grant = g\<rparr>"

definition from_agent :: "operation \<Rightarrow> 'c \<Rightarrow> 'i \<Rightarrow> 'g \<Rightarrow> ('g, 'c, 'i) delivery_envelope" where
  "from_agent op c i g = \<lparr>env_principal = Agent, env_operation = op, env_content = c,
     env_identity = i, env_grant = g\<rparr>"

definition into_parts :: "('g, 'c, 'i) delivery_envelope \<Rightarrow> operation \<times> 'c \<times> 'i \<times> 'g" where
  "into_parts e = (env_operation e, env_content e, env_identity e, env_grant e)"

text \<open>An \<open>OperationSet\<close> is a byte with one flag per operation.\<close>

type_synonym operation_set = u8

definition QUEUE :: operation_set where
  "QUEUE = push_bit 0 1"

definition QUEUE_AND_STEER :: operation_set where
  "QUEUE_AND_STEER = push_bit 0 1 OR push_bit 1 1"

fun op_flag :: "operation \<Rightarrow> u8" where
  "op_flag Queue = push_bit 0 1"
| "op_flag Steer = push_bit 1 1"
| "op_flag Interject = push_bit 2 1"
| "op_flag InterruptAndSend = push_bit 3 1"

definition op_contains :: "operation_set \<Rightarrow> operation \<Rightarrow> bool" where
  "op_contains s op = (s AND op_flag op \<noteq> 0)"

datatype authorized_operation = AuthorizedOperation operation
datatype unsupported_operation = UnsupportedOperation operation

definition authorize_operation ::
  "operation_set \<Rightarrow> operation \<Rightarrow> (unsupported_operation, authorized_operation) res" where
  "authorize_operation allowed requested =
     (if op_contains allowed requested then Inr (AuthorizedOperation requested)
      else Inl (UnsupportedOperation requested))"

section \<open>The lifecycle\<close>

record ('p, 'ep) turn_binding =
  prompt_id :: 'p
  epoch :: 'ep

record ('i, 's, 'c) delivery_message =
  identity :: 'i
  source :: 's
  content :: 'c

record ('i, 's, 'c, 'k, 'p, 'ep) owned_delivery =
  binding :: "('p, 'ep) turn_binding"
  message :: "('i, 's, 'c) delivery_message"
  completion :: 'k

datatype ('i, 's, 'c, 'k, 'p, 'ep) delivery_slot =
    Pending (owned: "('i, 's, 'c, 'k, 'p, 'ep) owned_delivery")
  | Projecting (owned: "('i, 's, 'c, 'k, 'p, 'ep) owned_delivery")
  | Delivered (owned: "('i, 's, 'c, 'k, 'p, 'ep) owned_delivery")

datatype terminal_cause = Completion | SoftCancel | Rewind | HardTeardown | ActorDrop

definition falls_back :: "terminal_cause \<Rightarrow> bool" where
  "falls_back c = (c \<in> {Completion, SoftCancel, Rewind})"

datatype ('p, 'ep) terminal_target = Turn "('p, 'ep) turn_binding" | All

record ('i, 's, 'c, 'k, 'p, 'ep) terminal_transition =
  fallbacks :: "('i, 's, 'c, 'k, 'p, 'ep) owned_delivery list"
  completions :: "('i, 's, 'c, 'k, 'p, 'ep) owned_delivery list"

record ('i, 's, 'c, 'k, 'p, 'ep) lifecycle =
  slots :: "('i, 's, 'c, 'k, 'p, 'ep) delivery_slot list"

definition lifecycle_new :: "('i, 's, 'c, 'k, 'p, 'ep) lifecycle" where
  "lifecycle_new = \<lparr>slots = []\<rparr>"

abbreviation slot_id :: "('i, 's, 'c, 'k, 'p, 'ep) delivery_slot \<Rightarrow> 'i" where
  "slot_id sl \<equiv> identity (message (owned sl))"

definition contains_identity :: "('i, 's, 'c, 'k, 'p, 'ep) lifecycle \<Rightarrow> 'i \<Rightarrow> bool" where
  "contains_identity l i = (\<exists>sl\<in>set (slots l). slot_id sl = i)"

definition admit_pending ::
  "('i, 's, 'c, 'k, 'p, 'ep) lifecycle \<Rightarrow> ('p, 'ep) turn_binding \<Rightarrow> ('i, 's, 'c) delivery_message
     \<Rightarrow> 'k \<Rightarrow> ('i, 's, 'c, 'k, 'p, 'ep) lifecycle \<times> (('i, 's, 'c) delivery_message, unit) res" where
  "admit_pending l bd m k =
     (if \<exists>sl\<in>set (slots l). slot_id sl = identity m then (l, Inl m)
      else (l\<lparr>slots := slots l @ [Pending \<lparr>binding = bd, message = m, completion = k\<rparr>]\<rparr>, Inr ()))"

fun pending_at :: "('p, 'ep) turn_binding \<Rightarrow> ('i, 's, 'c, 'k, 'p, 'ep) delivery_slot \<Rightarrow> bool" where
  "pending_at bd (Pending ow) = (binding ow = bd)"
| "pending_at bd sl = False"

fun projecting_at :: "('p, 'ep) turn_binding \<Rightarrow> ('i, 's, 'c, 'k, 'p, 'ep) delivery_slot \<Rightarrow> bool" where
  "projecting_at bd (Projecting ow) = (binding ow = bd)"
| "projecting_at bd sl = False"

definition pending_messages ::
  "('i, 's, 'c, 'k, 'p, 'ep) lifecycle \<Rightarrow> ('p, 'ep) turn_binding \<Rightarrow> ('i, 's, 'c) delivery_message list" where
  "pending_messages l bd = map (message \<circ> owned) (filter (pending_at bd) (slots l))"

definition begin_delivery ::
  "('i, 's, 'c, 'k, 'p, 'ep) lifecycle \<Rightarrow> ('p, 'ep) turn_binding
     \<Rightarrow> ('i, 's, 'c, 'k, 'p, 'ep) lifecycle \<times> ('i, 's, 'c) delivery_message list" where
  "begin_delivery l bd =
     (let messages = pending_messages l bd
      in if messages = [] then (l, messages)
         else (l\<lparr>slots := map (\<lambda>sl. if pending_at bd sl then Projecting (owned sl) else sl) (slots l)\<rparr>,
               messages))"

definition finish_delivery ::
  "('i, 's, 'c, 'k, 'p, 'ep) lifecycle \<Rightarrow> ('p, 'ep) turn_binding
     \<Rightarrow> (('i, 's, 'c) delivery_message list \<Rightarrow> ('err, unit) res)
     \<Rightarrow> ('i, 's, 'c, 'k, 'p, 'ep) lifecycle \<times> ('err, ('i, 's, 'c) delivery_message list) res" where
  "finish_delivery l bd commit =
     (let messages = map (message \<circ> owned) (filter (projecting_at bd) (slots l))
      in if messages = [] then (l, Inr messages)
         else (case commit messages of
                 Inl e \<Rightarrow> (l, Inl e)
               | Inr _ \<Rightarrow>
                   (l\<lparr>slots := map (\<lambda>sl. if projecting_at bd sl then Delivered (owned sl) else sl) (slots l)\<rparr>,
                    Inr messages)))"

definition target_matches ::
  "('p, 'ep) terminal_target \<Rightarrow> ('i, 's, 'c, 'k, 'p, 'ep) delivery_slot \<Rightarrow> bool" where
  "target_matches tg sl = (case tg of Turn bd \<Rightarrow> binding (owned sl) = bd | All \<Rightarrow> True)"

fun transition_loop ::
  "('p, 'ep) terminal_target \<Rightarrow> terminal_cause \<Rightarrow> ('i, 's, 'c, 'k, 'p, 'ep) delivery_slot list
     \<Rightarrow> ('i, 's, 'c, 'k, 'p, 'ep) delivery_slot list \<times> ('i, 's, 'c, 'k, 'p, 'ep) terminal_transition" where
  "transition_loop tg cause [] = ([], \<lparr>fallbacks = [], completions = []\<rparr>)"
| "transition_loop tg cause (sl # sls) =
     (let (kept, tr) = transition_loop tg cause sls
      in if \<not> target_matches tg sl then (sl # kept, tr)
         else (case sl of
                 Pending ow \<Rightarrow>
                   (if falls_back cause then (kept, tr\<lparr>fallbacks := ow # fallbacks tr\<rparr>)
                    else (kept, tr\<lparr>completions := ow # completions tr\<rparr>))
               | Projecting ow \<Rightarrow> (kept, tr\<lparr>completions := ow # completions tr\<rparr>)
               | Delivered ow \<Rightarrow> (kept, tr\<lparr>completions := ow # completions tr\<rparr>)))"

definition transition ::
  "('i, 's, 'c, 'k, 'p, 'ep) lifecycle \<Rightarrow> ('p, 'ep) terminal_target \<Rightarrow> terminal_cause
     \<Rightarrow> ('i, 's, 'c, 'k, 'p, 'ep) lifecycle \<times> ('i, 's, 'c, 'k, 'p, 'ep) terminal_transition" where
  "transition l tg cause =
     (let (kept, tr) = transition_loop tg cause (slots l) in (l\<lparr>slots := kept\<rparr>, tr))"

section \<open>What one operation does to the slots\<close>

definition ids :: "('i, 's, 'c, 'k, 'p, 'ep) lifecycle \<Rightarrow> 'i list" where
  "ids l = map slot_id (slots l)"

definition open_ids :: "('i, 's, 'c, 'k, 'p, 'ep) lifecycle \<Rightarrow> 'i list" where
  "open_ids l = map slot_id (filter is_Pending (slots l))"

lemma pending_at_iff: "pending_at bd sl \<longleftrightarrow> is_Pending sl \<and> binding (owned sl) = bd"
  by (cases sl) simp_all

lemma projecting_at_iff: "projecting_at bd sl \<longleftrightarrow> is_Projecting sl \<and> binding (owned sl) = bd"
  by (cases sl) simp_all

lemma owned_if_Projecting [simp]: "owned (if P then Projecting (owned sl) else sl) = owned sl"
  by simp

lemma owned_if_Delivered [simp]: "owned (if P then Delivered (owned sl) else sl) = owned sl"
  by simp

lemma ids_begin [simp]: "ids (fst (begin_delivery l bd)) = ids l"
  by (auto simp: begin_delivery_def ids_def Let_def)

lemma ids_finish [simp]: "ids (fst (finish_delivery l bd commit)) = ids l"
  by (auto simp: finish_delivery_def ids_def Let_def split: sum.splits)

lemma ids_admit:
  "ids (fst (admit_pending l bd m k)) =
     (if identity m \<in> set (ids l) then ids l else ids l @ [identity m])"
  by (force simp: admit_pending_def ids_def)

lemma admit_result:
  "snd (admit_pending l bd m k) = (if identity m \<in> set (ids l) then Inl m else Inr ())"
  by (force simp: admit_pending_def ids_def)

lemma transition_loop_kept:
  "fst (transition_loop tg c sls) = filter (\<lambda>sl. \<not> target_matches tg sl) sls"
  by (induction sls) (auto simp: Let_def case_prod_beta split: delivery_slot.splits)

lemma transition_loop_fallbacks:
  "fallbacks (snd (transition_loop tg c sls)) =
     (if falls_back c then map owned (filter (\<lambda>sl. target_matches tg sl \<and> is_Pending sl) sls) else [])"
  by (induction sls) (auto simp: Let_def case_prod_beta split: delivery_slot.splits)

lemma transition_loop_completions:
  "completions (snd (transition_loop tg c sls)) =
     map owned (filter (\<lambda>sl. target_matches tg sl \<and> \<not> (is_Pending sl \<and> falls_back c)) sls)"
  by (induction sls) (auto simp: Let_def case_prod_beta split: delivery_slot.splits)

lemma transition_parts:
  "slots (fst (transition l tg c)) = filter (\<lambda>sl. \<not> target_matches tg sl) (slots l)"
  "fallbacks (snd (transition l tg c)) =
     (if falls_back c then map owned (filter (\<lambda>sl. target_matches tg sl \<and> is_Pending sl) (slots l)) else [])"
  "completions (snd (transition l tg c)) =
     map owned (filter (\<lambda>sl. target_matches tg sl \<and> \<not> (is_Pending sl \<and> falls_back c)) (slots l))"
  by (simp_all add: transition_def Let_def case_prod_beta transition_loop_kept
      transition_loop_fallbacks transition_loop_completions)

section \<open>Runs: an accepted identity is handed over at most once\<close>

datatype ('i, 's, 'c, 'k, 'p, 'ep, 'err) delivery_op =
    Op_Admit "('p, 'ep) turn_binding" "('i, 's, 'c) delivery_message" 'k
  | Op_Begin "('p, 'ep) turn_binding"
  | Op_Finish "('p, 'ep) turn_binding" "('i, 's, 'c) delivery_message list \<Rightarrow> ('err, unit) res"
  | Op_Transition "('p, 'ep) terminal_target" terminal_cause

text \<open>
  A run keeps, beside the lifecycle, the identities that every caller so far was told about:
  accepted by an admission, handed over by a begin, returned as a fallback, returned as a
  completion.
\<close>

record ('i, 's, 'c, 'k, 'p, 'ep) delivery_run =
  life :: "('i, 's, 'c, 'k, 'p, 'ep) lifecycle"
  accepted :: "'i list"
  begun :: "'i list"
  fell_back :: "'i list"
  completed :: "'i list"

abbreviation own_ids :: "('i, 's, 'c, 'k, 'p, 'ep) owned_delivery list \<Rightarrow> 'i list" where
  "own_ids ows \<equiv> map (\<lambda>ow. identity (message ow)) ows"

fun delivery_step ::
  "('i, 's, 'c, 'k, 'p, 'ep) delivery_run \<Rightarrow> ('i, 's, 'c, 'k, 'p, 'ep, 'err) delivery_op
     \<Rightarrow> ('i, 's, 'c, 'k, 'p, 'ep) delivery_run" where
  "delivery_step r (Op_Admit bd m k) =
     (let (l, res) = admit_pending (life r) bd m k
      in r\<lparr>life := l, accepted := accepted r @ (case res of Inl _ \<Rightarrow> [] | Inr _ \<Rightarrow> [identity m])\<rparr>)"
| "delivery_step r (Op_Begin bd) =
     (let (l, ms) = begin_delivery (life r) bd
      in r\<lparr>life := l, begun := begun r @ map identity ms\<rparr>)"
| "delivery_step r (Op_Finish bd commit) = r\<lparr>life := fst (finish_delivery (life r) bd commit)\<rparr>"
| "delivery_step r (Op_Transition tg c) =
     (let (l, tr) = transition (life r) tg c
      in r\<lparr>life := l, fell_back := fell_back r @ own_ids (fallbacks tr),
           completed := completed r @ own_ids (completions tr)\<rparr>)"

definition run_start :: "('i, 's, 'c, 'k, 'p, 'ep) delivery_run" where
  "run_start = \<lparr>life = lifecycle_new, accepted = [], begun = [], fell_back = [], completed = []\<rparr>"

definition delivery_run ::
  "('i, 's, 'c, 'k, 'p, 'ep, 'err) delivery_op list \<Rightarrow> ('i, 's, 'c, 'k, 'p, 'ep) delivery_run" where
  "delivery_run ops = foldl delivery_step run_start ops"

abbreviation times :: "'a list \<Rightarrow> 'a \<Rightarrow> nat" where
  "times xs x \<equiv> count_list xs x"

definition delivery_inv :: "('i, 's, 'c, 'k, 'p, 'ep) delivery_run \<Rightarrow> bool" where
  "delivery_inv r \<longleftrightarrow>
     distinct (ids (life r)) \<and>
     (\<forall>i. times (accepted r) i = times (ids (life r)) i + times (fell_back r) i + times (completed r) i \<and>
          times (begun r) i + times (open_ids (life r)) i \<le> times (ids (life r)) i + times (completed r) i)"

lemma open_ids_admit:
  "open_ids (fst (admit_pending l bd m k)) =
     (if identity m \<in> set (ids l) then open_ids l else open_ids l @ [identity m])"
  by (force simp: admit_pending_def ids_def open_ids_def)

lemma map_ids_begin:
  "map identity (snd (begin_delivery l bd)) = map slot_id (filter (pending_at bd) (slots l))"
  by (simp add: begin_delivery_def pending_messages_def Let_def comp_def)

lemma slots_begin:
  "slots (fst (begin_delivery l bd)) =
     map (\<lambda>sl. if pending_at bd sl then Projecting (owned sl) else sl) (slots l)"
  by (auto simp: begin_delivery_def pending_messages_def Let_def filter_empty_conv map_idI)

lemma slots_finish:
  "slots (fst (finish_delivery l bd commit)) =
     (case commit (map (message \<circ> owned) (filter (projecting_at bd) (slots l))) of
        Inl _ \<Rightarrow> slots l
      | Inr _ \<Rightarrow> map (\<lambda>sl. if projecting_at bd sl then Delivered (owned sl) else sl) (slots l))"
  by (auto simp: finish_delivery_def Let_def filter_empty_conv map_idI split: sum.splits)

lemma times_open_begin:
  "times (map slot_id (filter (pending_at bd) sls)) i +
   times (map slot_id (filter is_Pending (map (\<lambda>sl. if pending_at bd sl then Projecting (owned sl) else sl) sls))) i
     = times (map slot_id (filter is_Pending sls)) i"
  by (induction sls) (auto simp: pending_at_iff)

lemma open_map_Delivered:
  "map slot_id (filter is_Pending (map (\<lambda>sl. if projecting_at bd sl then Delivered (owned sl) else sl) sls))
     = map slot_id (filter is_Pending sls)"
  by (induction sls) (auto simp: projecting_at_iff)

lemma open_ids_finish: "open_ids (fst (finish_delivery l bd commit)) = open_ids l"
  by (simp add: open_ids_def slots_finish open_map_Delivered del: filter_map split: sum.splits)

lemma times_transition:
  "times (map slot_id sls) i =
     times (map slot_id (filter (\<lambda>sl. \<not> target_matches tg sl) sls)) i +
     times (map slot_id (filter (\<lambda>sl. target_matches tg sl \<and> P sl) sls)) i +
     times (map slot_id (filter (\<lambda>sl. target_matches tg sl \<and> \<not> P sl) sls)) i"
  by (induction sls) auto

lemma times_open_transition:
  "times (map slot_id (filter (\<lambda>sl. target_matches tg sl \<and> is_Pending sl) sls)) i +
   times (map slot_id (filter is_Pending (filter (\<lambda>sl. \<not> target_matches tg sl) sls))) i
     = times (map slot_id (filter is_Pending sls)) i"
  by (induction sls) auto

lemma delivery_inv_start: "delivery_inv run_start"
  by (simp add: delivery_inv_def run_start_def lifecycle_new_def ids_def open_ids_def)

lemma delivery_inv_admit: "delivery_inv r \<Longrightarrow> delivery_inv (delivery_step r (Op_Admit bd m k))"
  by (auto simp: delivery_inv_def ids_admit open_ids_admit admit_result case_prod_beta)

lemma delivery_inv_begin: "delivery_inv r \<Longrightarrow> delivery_inv (delivery_step r (Op_Begin bd))"
proof -
  assume inv: "delivery_inv r"
  let ?l = "life r" and ?sls = "slots (life r)"
  have "times (begun r @ map slot_id (filter (pending_at bd) ?sls)) i +
      times (open_ids (fst (begin_delivery ?l bd))) i \<le> times (ids ?l) i + times (completed r) i" for i
  proof -
    have "times (begun r) i + times (open_ids ?l) i \<le> times (ids ?l) i + times (completed r) i"
      using inv by (simp add: delivery_inv_def)
    then show ?thesis
      using times_open_begin [of bd ?sls i]
      by (simp add: open_ids_def slots_begin del: map_map filter_map)
  qed
  then show ?thesis using inv by (simp add: delivery_inv_def case_prod_beta map_ids_begin)
qed

lemma delivery_inv_finish: "delivery_inv r \<Longrightarrow> delivery_inv (delivery_step r (Op_Finish bd commit))"
  by (simp add: delivery_inv_def open_ids_finish)

text \<open>What the terminal transition moves out of the slots, identity by identity.\<close>

lemma transition_books:
  fixes l :: "('i, 's, 'c, 'k, 'p, 'ep) lifecycle" and tg :: "('p, 'ep) terminal_target"
    and c :: terminal_cause
  defines "l' \<equiv> fst (transition l tg c)" and "tr \<equiv> snd (transition l tg c)"
  shows "times (ids l) i = times (ids l') i + times (own_ids (fallbacks tr)) i + times (own_ids (completions tr)) i"
    and "times (open_ids l') i + times (own_ids (fallbacks tr)) i \<le> times (open_ids l) i"
  using times_transition [of "slots l" i tg "\<lambda>sl. is_Pending sl \<and> falls_back c"]
    times_open_transition [of tg "slots l" i]
  unfolding l'_def tr_def ids_def open_ids_def transition_parts
  by (cases "falls_back c"; simp add: comp_def del: filter_filter)+

lemma transition_distinct: "distinct (ids l) \<Longrightarrow> distinct (ids (fst (transition l tg c)))"
  by (auto simp: transition_parts ids_def distinct_map inj_on_def)

lemma delivery_inv_transition:
  assumes inv: "delivery_inv r"
  shows "delivery_inv (delivery_step r (Op_Transition tg c))"
proof -
  let ?l' = "fst (transition (life r) tg c)" and ?tr = "snd (transition (life r) tg c)"
  have "times (accepted r) i = times (ids ?l') i + times (fell_back r @ own_ids (fallbacks ?tr)) i +
        times (completed r @ own_ids (completions ?tr)) i \<and>
      times (begun r) i + times (open_ids ?l') i \<le> times (ids ?l') i + times (completed r @ own_ids (completions ?tr)) i"
    for i
  proof -
    have "times (accepted r) i = times (ids (life r)) i + times (fell_back r) i + times (completed r) i"
      "times (begun r) i + times (open_ids (life r)) i \<le> times (ids (life r)) i + times (completed r) i"
      using inv by (simp_all add: delivery_inv_def)
    then show ?thesis
      using transition_books [where l = "life r" and tg = tg and c = c and i = i] by (simp del: map_map)
  qed
  moreover have "distinct (ids ?l')" using inv by (simp add: delivery_inv_def transition_distinct)
  ultimately show ?thesis by (simp add: delivery_inv_def case_prod_beta del: map_map)
qed

lemma delivery_inv_step: "delivery_inv r \<Longrightarrow> delivery_inv (delivery_step r op)"
  by (cases op) (simp_all only: delivery_inv_admit delivery_inv_begin delivery_inv_finish
      delivery_inv_transition)

lemma delivery_inv_run: "delivery_inv (delivery_run ops)"
proof -
  have "delivery_inv r \<Longrightarrow> delivery_inv (foldl delivery_step r ops)" for r
    by (induction ops arbitrary: r) (simp_all add: delivery_inv_step)
  then show ?thesis by (simp add: delivery_run_def delivery_inv_start)
qed

section \<open>What the commit decides\<close>

lemma finish_failed:
  assumes "\<And>ms. commit ms = Inl e" and "snd (finish_delivery l bd commit) \<noteq> Inr []"
  shows "finish_delivery l bd commit = (l, Inl e)"
  using assms by (auto simp: finish_delivery_def Let_def split: if_splits)

lemma begin_empties_pending: "pending_messages (fst (begin_delivery l bd)) bd = []"
  by (auto simp: pending_messages_def slots_begin filter_empty_conv)

section \<open>Properties\<close>

text \<open>
  C12: exactly-once delivery. Over any sequence of admissions, begins, finishes with any commit
  and terminal transitions, an identity is handed to a turn and given back as a fallback together
  at most as often as it was accepted: one accepted once is never begun twice, and never both
  begun and queued again. Nothing accepted disappears: it is still owned, fell back or completed.
\<close>

theorem delivered_at_most_once:
  "count_list (begun (delivery_run ops)) i + count_list (fell_back (delivery_run ops)) i
     \<le> count_list (accepted (delivery_run ops)) i \<and>
   count_list (accepted (delivery_run ops)) i =
     count_list (ids (life (delivery_run ops))) i + count_list (fell_back (delivery_run ops)) i +
     count_list (completed (delivery_run ops)) i \<and>
   distinct (ids (life (delivery_run ops)))"
proof -
  have inv: "delivery_inv (delivery_run ops)" by (rule delivery_inv_run)
  then have "count_list (begun (delivery_run ops)) i \<le>
      count_list (ids (life (delivery_run ops))) i + count_list (completed (delivery_run ops)) i"
    by (simp add: delivery_inv_def) (meson add_leD1)
  with inv show ?thesis by (simp add: delivery_inv_def)
qed

text \<open>
  A commit that fails leaves every slot as it was, so the delivery can be retried: the failed
  finish returns the commit's error, and a later finish hands the same messages to its commit.
\<close>

theorem failed_commit_changes_nothing:
  assumes "commit (map (message \<circ> owned) (filter (projecting_at bd) (slots l))) = Inl e"
    and "filter (projecting_at bd) (slots l) \<noteq> []"
  shows "finish_delivery l bd commit = (l, Inl e) \<and>
    snd (finish_delivery (fst (finish_delivery l bd commit)) bd (\<lambda>_. Inr ())) =
      Inr (map (message \<circ> owned) (filter (projecting_at bd) (slots l)))"
  using assms by (simp add: finish_delivery_def Let_def)

definition sample_owned :: "(nat, nat, nat, nat, nat, nat) owned_delivery" where
  "sample_owned = \<lparr>binding = \<lparr>prompt_id = 1, epoch = 0\<rparr>,
     message = \<lparr>identity = 7, source = 0, content = 0\<rparr>, completion = 0\<rparr>"

lemma failed_commit_changes_nothing_witness:
  "finish_delivery \<lparr>slots = [Projecting sample_owned]\<rparr> (binding sample_owned) (\<lambda>_. Inl (5 :: nat))
     = (\<lparr>slots = [Projecting sample_owned]\<rparr>, Inl 5)"
  by (rule failed_commit_changes_nothing [THEN conjunct1]) simp_all

text \<open>
  What a turn's end does: it touches only the slots its target matches; completion, soft
  cancel and rewind return the messages no turn has begun as fallbacks, in order, and complete
  the others; a hard teardown falls back on nothing.
\<close>

theorem turn_end_splits_slots:
  "slots (fst (transition l tg c)) = filter (\<lambda>sl. \<not> target_matches tg sl) (slots l) \<and>
   fallbacks (snd (transition l tg c)) =
     (if c \<in> {Completion, SoftCancel, Rewind}
      then map owned (filter (\<lambda>sl. target_matches tg sl \<and> is_Pending sl) (slots l)) else []) \<and>
   completions (snd (transition l tg c)) =
     map owned (filter (\<lambda>sl. target_matches tg sl \<and>
       \<not> (is_Pending sl \<and> c \<in> {Completion, SoftCancel, Rewind})) (slots l))"
  by (simp add: transition_parts falls_back_def)

end
