(* ===== verification/Rust_Str.thy ===== *)
theory Rust_Str
  imports Prelude "HOL-Library.Sublist"
begin

text \<open>
  The string functions of the Rust standard library that the permission code calls. A
  \<open>str\<close> is the list of its UTF-8 bytes, a \<open>char\<close> of the pattern functions an ASCII byte.
\<close>

section \<open>Prefixes and suffixes\<close>

definition strip_prefix :: "string \<Rightarrow> string \<Rightarrow> string option" where
  "strip_prefix p s = (if prefix p s then Some (drop (length p) s) else None)"

definition strip_suffix :: "string \<Rightarrow> string \<Rightarrow> string option" where
  "strip_suffix p s = (if suffix p s then Some (take (length s - length p) s) else None)"

lemma strip_prefix_Some_iff: "strip_prefix p s = Some r \<longleftrightarrow> s = p @ r"
  by (auto simp: strip_prefix_def prefix_def)

lemma strip_suffix_Some_iff: "strip_suffix p s = Some r \<longleftrightarrow> s = r @ p"
  by (auto simp: strip_suffix_def suffix_def)

lemma strip_prefix_append [simp]: "strip_prefix p (p @ r) = Some r"
  by (simp add: strip_prefix_Some_iff)

lemma strip_suffix_append [simp]: "strip_suffix p (r @ p) = Some r"
  by (simp add: strip_suffix_Some_iff)

section \<open>White space\<close>

text \<open>The UTF-8 encodings of the characters with the Unicode property \<open>White_Space\<close>.\<close>

definition whitespace :: "string list" where
  "whitespace = [
     [CHR 0x09], [CHR 0x0A], [CHR 0x0B], [CHR 0x0C], [CHR 0x0D], [CHR 0x20],
     [CHR 0xC2, CHR 0x85], [CHR 0xC2, CHR 0xA0], [CHR 0xE1, CHR 0x9A, CHR 0x80],
     [CHR 0xE2, CHR 0x80, CHR 0x80], [CHR 0xE2, CHR 0x80, CHR 0x81],
     [CHR 0xE2, CHR 0x80, CHR 0x82], [CHR 0xE2, CHR 0x80, CHR 0x83],
     [CHR 0xE2, CHR 0x80, CHR 0x84], [CHR 0xE2, CHR 0x80, CHR 0x85],
     [CHR 0xE2, CHR 0x80, CHR 0x86], [CHR 0xE2, CHR 0x80, CHR 0x87],
     [CHR 0xE2, CHR 0x80, CHR 0x88], [CHR 0xE2, CHR 0x80, CHR 0x89],
     [CHR 0xE2, CHR 0x80, CHR 0x8A], [CHR 0xE2, CHR 0x80, CHR 0xA8],
     [CHR 0xE2, CHR 0x80, CHR 0xA9], [CHR 0xE2, CHR 0x80, CHR 0xAF],
     [CHR 0xE2, CHR 0x81, CHR 0x9F], [CHR 0xE3, CHR 0x80, CHR 0x80]]"

lemma whitespace_nonempty: "w \<in> set whitespace \<Longrightarrow> w \<noteq> []"
  by (auto simp: whitespace_def)

function trim_start :: "string \<Rightarrow> string" where
  "trim_start s = (case find (\<lambda>w. prefix w s) whitespace of
     None \<Rightarrow> s | Some w \<Rightarrow> trim_start (drop (length w) s))"
  by auto
termination
proof (relation "measure length")
  fix s w
  assume "find (\<lambda>w. prefix w s) whitespace = Some w"
  then have "w \<in> set whitespace" "prefix w s" by (auto simp: find_Some_iff)
  then show "(drop (length w) s, s) \<in> measure length"
    using whitespace_nonempty [of w] by (cases s) (auto simp: prefix_Nil)
qed simp

function trim_end :: "string \<Rightarrow> string" where
  "trim_end s = (case find (\<lambda>w. suffix w s) whitespace of
     None \<Rightarrow> s | Some w \<Rightarrow> trim_end (take (length s - length w) s))"
  by auto
termination
proof (relation "measure length")
  fix s w
  assume "find (\<lambda>w. suffix w s) whitespace = Some w"
  then have "w \<in> set whitespace" "suffix w s" by (auto simp: find_Some_iff)
  then have "0 < length w" "length w \<le> length s"
    using whitespace_nonempty [of w] by (auto dest: suffix_length_le)
  then show "(take (length s - length w) s, s) \<in> measure length" by (cases s) auto
qed simp

declare trim_start.simps [simp del] trim_end.simps [simp del]

definition trim :: "string \<Rightarrow> string" where
  "trim s = trim_end (trim_start s)"

lemma trim_start_id: "\<forall>w\<in>set whitespace. \<not> prefix w s \<Longrightarrow> trim_start s = s"
  by (subst trim_start.simps) (auto split: option.split simp: find_Some_iff)

lemma trim_end_id: "\<forall>w\<in>set whitespace. \<not> suffix w s \<Longrightarrow> trim_end s = s"
  by (subst trim_end.simps) (auto split: option.split simp: find_Some_iff)

lemma trim_start_suffix: "suffix (trim_start s) s"
proof (induction s rule: trim_start.induct)
  case (1 s)
  then show ?case
    by (subst trim_start.simps) (auto split: option.split intro: suffix_order.trans suffix_drop)
qed

text \<open>A string that begins and ends with a printable ASCII character is not changed by \<open>trim\<close>.\<close>

definition solid :: "char \<Rightarrow> bool" where
  "solid c = (32 < (of_char c :: nat) \<and> (of_char c :: nat) < 127)"

lemma whitespace_ends: "w \<in> set whitespace \<Longrightarrow> \<not> solid (hd w) \<and> \<not> solid (last w)"
  by (auto simp: whitespace_def solid_def)

lemma trim_start_solid: "solid c \<Longrightarrow> trim_start (c # s) = c # s"
  using whitespace_ends whitespace_nonempty
  by (intro trim_start_id) (metis list.sel(1) prefix_Cons)

lemma trim_end_solid: "solid c \<Longrightarrow> trim_end (s @ [c]) = s @ [c]"
  using whitespace_ends whitespace_nonempty
  by (intro trim_end_id) (metis snoc_suffix_snoc suffix_snoc last_snoc)

section \<open>Searching and splitting\<close>

text \<open>\<open>rsplit\<close> by a set of separators, first item: what follows the last separator.\<close>

definition rsplit_last :: "char list \<Rightarrow> string \<Rightarrow> string" where
  "rsplit_last seps s = rev (takeWhile (\<lambda>c. c \<notin> set seps) (rev s))"

definition backslash :: char where
  "backslash = CHR 0x5C"

definition basename :: "string \<Rightarrow> string" where
  "basename s = rsplit_last [CHR ''/'', backslash] s"

lemma basename_id: "CHR ''/'' \<notin> set s \<Longrightarrow> backslash \<notin> set s \<Longrightarrow> basename s = s"
  unfolding basename_def rsplit_last_def by (subst takeWhile_eq_all_conv [THEN iffD2]) auto

definition find_char :: "char \<Rightarrow> string \<Rightarrow> nat option" where
  "find_char c s = find (\<lambda>i. s ! i = c) [0..<length s]"

fun join_with :: "string \<Rightarrow> string list \<Rightarrow> string" where
  "join_with sep [] = []"
| "join_with sep [t] = t"
| "join_with sep (t # u # ts) = t @ sep @ join_with sep (u # ts)"

lemma join_with_snoc: "ts \<noteq> [] \<Longrightarrow> join_with sep (ts @ [t]) = join_with sep ts @ sep @ t"
  by (induction sep ts rule: join_with.induct) simp_all

fun replace_all :: "string \<Rightarrow> string \<Rightarrow> string \<Rightarrow> string" where
  "replace_all pat by [] = []"
| "replace_all pat by (c # s) =
     (if pat \<noteq> [] \<and> prefix pat (c # s) then by @ replace_all pat by (drop (length pat) (c # s))
      else c # replace_all pat by s)"

text \<open>A separator splits off one piece more than it occurs.\<close>

fun split_on :: "char \<Rightarrow> string \<Rightarrow> string list" where
  "split_on sep [] = [[]]"
| "split_on sep (c # s) =
     (if c = sep then [] # split_on sep s
      else (case split_on sep s of [] \<Rightarrow> [[c]] | p # ps \<Rightarrow> (c # p) # ps))"

lemma split_on_nonempty [simp]: "split_on sep s \<noteq> []"
  by (induction s) (auto split: list.split)

section \<open>Character classes\<close>

definition is_ascii_digit :: "char \<Rightarrow> bool" where
  "is_ascii_digit c = (48 \<le> (of_char c :: nat) \<and> (of_char c :: nat) \<le> 57)"

definition is_ascii_alphabetic :: "char \<Rightarrow> bool" where
  "is_ascii_alphabetic c =
     (let n = (of_char c :: nat) in 65 \<le> n \<and> n \<le> 90 \<or> 97 \<le> n \<and> n \<le> 122)"

definition is_ascii_alphanumeric :: "char \<Rightarrow> bool" where
  "is_ascii_alphanumeric c = (is_ascii_alphabetic c \<or> is_ascii_digit c)"

definition ascii_lower :: "char \<Rightarrow> char" where
  "ascii_lower c = (let n = (of_char c :: nat) in if 65 \<le> n \<and> n \<le> 90 then char_of (n + 32) else c)"

definition to_ascii_lowercase :: "string \<Rightarrow> string" where
  "to_ascii_lowercase s = map ascii_lower s"

section \<open>Lines\<close>

text \<open>
  \<open>str::lines\<close>: a line loses its newline and a carriage return in front of that; what follows the
  last newline is a line when it is not empty, and keeps its carriage return.
\<close>

definition nl :: char where "nl = CHR 0x0A"

definition strip_cr :: "string \<Rightarrow> string" where
  "strip_cr l = (if l \<noteq> [] \<and> last l = CHR 0x0D then butlast l else l)"

fun lines_of_pieces :: "string list \<Rightarrow> string list" where
  "lines_of_pieces [] = []"
| "lines_of_pieces [rest] = (if rest = [] then [] else [rest])"
| "lines_of_pieces (l # ls) = strip_cr l # lines_of_pieces ls"

definition str_lines :: "string \<Rightarrow> string list" where
  "str_lines s = lines_of_pieces (split_on nl s)"

end
