(* ===== verification/Prompt_Queue.thy ===== *)
theory Prompt_Queue
  imports Rust_Str "HOL-Library.Multiset"
begin

text \<open>
  Follow-up prompts that wait for the running turn: the merge rules of
  \<open>crates/codegen/xai-prompt-queue/src/combine.rs\<close> and the pager's queue that applies them
  (\<open>crates/codegen/xai-grok-pager/src/app/agent.rs\<close>: the rows, their identifiers, enqueueing,
  swapping and the combined dequeue). Images, wire blocks other than text and the kind and display of a
  chip are carried along and never looked into: they are type parameters. Text positions are
  byte offsets, so a string is the list of its bytes.
\<close>

section \<open>Merge rules\<close>

definition TEXT_SEPARATOR :: string where
  "TEXT_SEPARATOR = [CHR 0x0A, CHR 0x0A]"

record combine_gate =
  g_id :: string
  is_plain_prompt :: bool
  is_synthetic :: bool
  is_expanded_skill :: bool
  is_bash :: bool
  has_images :: bool
  g_text :: string

definition can_merge_front :: "combine_gate \<Rightarrow> bool" where
  "can_merge_front g \<longleftrightarrow> is_plain_prompt g \<and> \<not> is_synthetic g \<and> \<not> is_expanded_skill g \<and>
     \<not> is_bash g \<and> g_text g \<noteq> []"

definition can_merge_follower :: "combine_gate \<Rightarrow> string list \<Rightarrow> bool" where
  "can_merge_follower g skip_ids \<longleftrightarrow>
     can_merge_front g \<and> \<not> has_images g \<and> g_id g \<notin> set skip_ids"

fun count_followers :: "combine_gate list \<Rightarrow> string list \<Rightarrow> nat" where
  "count_followers [] skip_ids = 0"
| "count_followers (g # gs) skip_ids =
     (if \<not> can_merge_follower g skip_ids then 0 else Suc (count_followers gs skip_ids))"

fun combine_prefix_len :: "combine_gate list \<Rightarrow> string list \<Rightarrow> nat" where
  "combine_prefix_len [] skip_ids = 0"
| "combine_prefix_len (front # rest) skip_ids =
     (if \<not> can_merge_front front then 1 else 1 + count_followers rest skip_ids)"

definition join_texts :: "string list \<Rightarrow> string" where
  "join_texts texts = join_with TEXT_SEPARATOR (filter (\<lambda>t. t \<noteq> []) texts)"

definition is_combined :: "string list \<Rightarrow> bool" where
  "is_combined segs = (2 \<le> length segs)"

text \<open>A JSON object is a map; only arrays of strings are written here.\<close>

datatype 'j json = Strings "string list" | Other 'j

definition COMBINED_DISPLAY_TEXTS_META :: string where
  "COMBINED_DISPLAY_TEXTS_META = ''combinedDisplayTexts''"

definition stamp_combined_display_texts ::
  "(string \<rightharpoonup> 'j json) \<Rightarrow> string list \<Rightarrow> (string \<rightharpoonup> 'j json)" where
  "stamp_combined_display_texts meta segs =
     (if \<not> is_combined segs then meta
      else meta(COMBINED_DISPLAY_TEXTS_META \<mapsto> Strings segs))"

section \<open>The pager's queue\<close>

datatype entry_kind = Prompt | Command | BashCommand | Cron

datatype 'blk content_block = Text_Block string | Other_Block 'blk

record 'chip chip_element =
  range_start :: nat
  range_end :: nat
  chip :: 'chip

record ('img, 'blk, 'chip) queued_prompt =
  q_id :: u64
  q_text :: string
  kind :: entry_kind
  wire_blocks :: "'blk content_block list option"
  images :: "'img list"
  display_as_skill :: bool
  skill_token_ranges :: "(nat \<times> nat) list"
  task_id :: "string option"
  human_schedule :: "string option"
  chip_elements :: "'chip chip_element list"
  combined_texts :: "string list"

definition plain :: "u64 \<Rightarrow> string \<Rightarrow> entry_kind \<Rightarrow> ('img, 'blk, 'chip) queued_prompt" where
  "plain i t k = \<lparr>q_id = i, q_text = t, kind = k, wire_blocks = None, images = [],
     display_as_skill = False, skill_token_ranges = [], task_id = None, human_schedule = None,
     chip_elements = [], combined_texts = []\<rparr>"

fun wire_matches_display :: "('img, 'blk, 'chip) queued_prompt \<Rightarrow> bool" where
  "wire_matches_display p =
     (case wire_blocks p of
        None \<Rightarrow> True
      | Some [Text_Block t] \<Rightarrow> t = q_text p
      | Some _ \<Rightarrow> False)"

record ('img, 'blk, 'chip) prompt_session =
  pending_prompts :: "('img, 'blk, 'chip) queued_prompt list"
  next_queue_id :: u64

definition session_new :: "('img, 'blk, 'chip) prompt_session" where
  "session_new = \<lparr>pending_prompts = [], next_queue_id = 0\<rparr>"

definition enqueue_entry_at ::
  "('img, 'blk, 'chip) prompt_session \<Rightarrow> string \<Rightarrow> entry_kind \<Rightarrow> bool \<Rightarrow> (nat \<times> nat) list
     \<Rightarrow> ('img, 'blk, 'chip) prompt_session \<times> u64" where
  "enqueue_entry_at s t k front ranges =
     (let i = next_queue_id s;
          entry = (plain i t k)\<lparr>skill_token_ranges := ranges\<rparr>
      in (s\<lparr>next_queue_id := i + 1,
            pending_prompts := (if front then entry # pending_prompts s else pending_prompts s @ [entry])\<rparr>,
          i))"

definition enqueue_in_flight_prompt_front ::
  "('img, 'blk, 'chip) prompt_session \<Rightarrow> string \<Rightarrow> 'img list \<Rightarrow> 'chip chip_element list
     \<Rightarrow> ('img, 'blk, 'chip) prompt_session \<times> u64" where
  "enqueue_in_flight_prompt_front s t imgs chips =
     (let i = next_queue_id s
      in (s\<lparr>next_queue_id := i + 1,
            pending_prompts := (plain i t Prompt)\<lparr>images := imgs, chip_elements := chips\<rparr> # pending_prompts s\<rparr>,
          i))"

definition enqueue_cron_prompt ::
  "('img, 'blk, 'chip) prompt_session \<Rightarrow> string \<Rightarrow> string \<Rightarrow> string
     \<Rightarrow> ('img, 'blk, 'chip) prompt_session \<times> u64" where
  "enqueue_cron_prompt s t tid sched =
     (let i = next_queue_id s
      in (s\<lparr>next_queue_id := i + 1,
            pending_prompts := pending_prompts s @
              [(plain i t Cron)\<lparr>task_id := Some tid, human_schedule := Some sched\<rparr>]\<rparr>,
          i))"

definition dequeue_prompt ::
  "('img, 'blk, 'chip) prompt_session
     \<Rightarrow> ('img, 'blk, 'chip) prompt_session \<times> ('img, 'blk, 'chip) queued_prompt option" where
  "dequeue_prompt s =
     (case pending_prompts s of
        [] \<Rightarrow> (s, None)
      | p # ps \<Rightarrow> (s\<lparr>pending_prompts := ps\<rparr>, Some p))"

text \<open>\<open>u64::to_string\<close>: the decimal digits.\<close>

fun decimal :: "nat \<Rightarrow> string" where
  "decimal n = (if n < 10 then [] else decimal (n div 10)) @ [char_of (48 + n mod 10)]"

declare decimal.simps [simp del]

definition id_string :: "u64 \<Rightarrow> string" where
  "id_string i = decimal (unat i)"

definition gate_of :: "('img, 'blk, 'chip) queued_prompt \<Rightarrow> combine_gate" where
  "gate_of p = \<lparr>g_id = id_string (q_id p), is_plain_prompt = (kind p = Prompt), is_synthetic = False,
     is_expanded_skill = (\<not> wire_matches_display p), is_bash = (kind p = BashCommand),
     has_images = (images p \<noteq> []), g_text = q_text p\<rparr>"

text \<open>One round of the loop folds one follower into the front row.\<close>

definition absorb ::
  "string list \<Rightarrow> ('img, 'blk, 'chip) queued_prompt \<Rightarrow> ('img, 'blk, 'chip) queued_prompt
     \<Rightarrow> string list \<times> ('img, 'blk, 'chip) queued_prompt" where
  "absorb segs merged nxt =
     (let sh = length (join_texts segs) + length TEXT_SEPARATOR
      in (segs @ [q_text nxt],
          merged\<lparr>chip_elements := chip_elements merged @
                   map (\<lambda>c. c\<lparr>range_start := range_start c + sh, range_end := range_end c + sh\<rparr>)
                     (chip_elements nxt),
                 wire_blocks := None, display_as_skill := False, task_id := None,
                 human_schedule := None\<rparr>))"

text \<open>\<open>expect("prefix length checked")\<close> panics on an empty queue.\<close>

datatype panic = Panic

fun absorb_loop ::
  "nat \<Rightarrow> string list \<Rightarrow> ('img, 'blk, 'chip) queued_prompt \<Rightarrow> ('img, 'blk, 'chip) queued_prompt list
     \<Rightarrow> (panic, string list \<times> ('img, 'blk, 'chip) queued_prompt \<times> ('img, 'blk, 'chip) queued_prompt list) res"
  where
  "absorb_loop 0 segs merged ps = Inr (segs, merged, ps)"
| "absorb_loop (Suc k) segs merged [] = Inl Panic"
| "absorb_loop (Suc k) segs merged (p # ps) =
     (let (segs', merged') = absorb segs merged p in absorb_loop k segs' merged' ps)"

definition dequeue_combined_prompt ::
  "('img, 'blk, 'chip) prompt_session \<Rightarrow> u64 option
     \<Rightarrow> (panic, ('img, 'blk, 'chip) prompt_session \<times> ('img, 'blk, 'chip) queued_prompt option) res" where
  "dequeue_combined_prompt s editing_id =
     (case pending_prompts s of
        [] \<Rightarrow> Inr (s, None)
      | front # rest \<Rightarrow>
          (let skip_refs = (case editing_id of None \<Rightarrow> [] | Some i \<Rightarrow> [id_string i]);
               n = max (combine_prefix_len (map gate_of (pending_prompts s)) skip_refs) 1
           in if n = 1 then Inr (s\<lparr>pending_prompts := rest\<rparr>, Some front)
              else (case absorb_loop (n - 1) [q_text front] front rest of
                      Inl e \<Rightarrow> Inl e
                    | Inr (segs, merged, rest') \<Rightarrow>
                        Inr (s\<lparr>pending_prompts := rest'\<rparr>,
                             Some (merged\<lparr>q_text := join_texts segs, skill_token_ranges := [],
                                          combined_texts := segs\<rparr>)))))"

fun position :: "('a \<Rightarrow> bool) \<Rightarrow> 'a list \<Rightarrow> nat option" where
  "position P [] = None"
| "position P (x # xs) = (if P x then Some 0 else map_option Suc (position P xs))"

definition queue_position :: "('img, 'blk, 'chip) prompt_session \<Rightarrow> u64 \<Rightarrow> nat option" where
  "queue_position s i = position (\<lambda>p. q_id p = i) (pending_prompts s)"

definition swap_at :: "'a list \<Rightarrow> nat \<Rightarrow> nat \<Rightarrow> 'a list" where
  "swap_at xs i j = xs[i := xs ! j, j := xs ! i]"

definition swap_prompt_up ::
  "('img, 'blk, 'chip) prompt_session \<Rightarrow> u64 \<Rightarrow> ('img, 'blk, 'chip) prompt_session" where
  "swap_prompt_up s i =
     (case queue_position s i of
        None \<Rightarrow> s
      | Some pos \<Rightarrow> if 0 < pos then s\<lparr>pending_prompts := swap_at (pending_prompts s) pos (pos - 1)\<rparr> else s)"

definition swap_prompt_down ::
  "('img, 'blk, 'chip) prompt_session \<Rightarrow> u64 \<Rightarrow> ('img, 'blk, 'chip) prompt_session" where
  "swap_prompt_down s i =
     (case queue_position s i of
        None \<Rightarrow> s
      | Some pos \<Rightarrow> if pos + 1 < length (pending_prompts s)
                   then s\<lparr>pending_prompts := swap_at (pending_prompts s) pos (pos + 1)\<rparr> else s)"

section \<open>Identifiers\<close>

text \<open>Reading the digits back shows that two rows with one printed identifier are one row.\<close>

definition read_decimal :: "string \<Rightarrow> nat" where
  "read_decimal s = foldl (\<lambda>n c. 10 * n + (of_char c - 48)) 0 s"

lemma read_decimal_decimal [simp]: "read_decimal (decimal n) = n"
proof (induction n rule: decimal.induct)
  case (1 n)
  then show ?case by (subst decimal.simps) (auto simp: read_decimal_def)
qed

lemma id_string_inject [simp]: "id_string i = id_string j \<longleftrightarrow> i = j"
  by (metis id_string_def read_decimal_decimal unsigned_word_eqI)

section \<open>The merged prefix\<close>

lemma count_followers_le: "count_followers gs sk \<le> length gs"
  by (induction gs) auto

lemma count_followers_takeWhile:
  "count_followers gs sk = length (takeWhile (\<lambda>g. can_merge_follower g sk) gs)"
  by (induction gs) auto

lemma combine_prefix_len_le: "combine_prefix_len gs sk \<le> length gs"
  by (cases gs) (auto simp: count_followers_le)

lemma join_texts_snoc:
  "filter (\<lambda>t. t \<noteq> []) ts \<noteq> [] \<Longrightarrow> t \<noteq> [] \<Longrightarrow> join_texts (ts @ [t]) = join_texts ts @ TEXT_SEPARATOR @ t"
  by (simp add: join_texts_def join_with_snoc)

lemma absorb_parts:
  assumes "absorb segs m p = (segs', m')"
  shows "segs' = segs @ [q_text p]" and "q_id m' = q_id m" and "kind m' = kind m" and "images m' = images m"
    and "wire_blocks m' = None"
  using assms by (auto simp: absorb_def Let_def)

lemma absorb_loop_result:
  "k \<le> length ps \<Longrightarrow> \<exists>m. absorb_loop k segs merged ps = Inr (segs @ map q_text (take k ps), m, drop k ps)
     \<and> q_id m = q_id merged \<and> kind m = kind merged \<and> images m = images merged
     \<and> (0 < k \<longrightarrow> wire_blocks m = None)"
proof (induction k arbitrary: segs merged ps)
  case 0
  then show ?case by simp
next
  case (Suc k)
  then obtain p qs where ps: "ps = p # qs" by (cases ps) auto
  obtain s' m' where ab: "absorb segs merged p = (s', m')" by (cases "absorb segs merged p")
  note parts = absorb_parts [OF ab]
  from Suc.prems ps have "k \<le> length qs" by simp
  from Suc.IH [OF this, of s' m'] obtain m where
    "absorb_loop k s' m' qs = Inr (s' @ map q_text (take k qs), m, drop k qs)"
    "q_id m = q_id m'" "kind m = kind m'" "images m = images m'" "0 < k \<longrightarrow> wire_blocks m = None"
    by blast
  moreover from this(1) have "k = 0 \<longrightarrow> m = m'" by auto
  ultimately show ?case using ab parts ps by auto
qed

section \<open>Chips keep naming the text they were placed on\<close>

definition selects :: "string \<Rightarrow> 'chip chip_element \<Rightarrow> string" where
  "selects t c = take (range_end c - range_start c) (drop (range_start c) t)"

definition chip_ok :: "string \<Rightarrow> 'chip chip_element \<Rightarrow> bool" where
  "chip_ok t c \<longleftrightarrow> range_start c \<le> range_end c \<and> range_end c \<le> length t"

definition chips_ok :: "('img, 'blk, 'chip) queued_prompt \<Rightarrow> bool" where
  "chips_ok p \<longleftrightarrow> (\<forall>c\<in>set (chip_elements p). chip_ok (q_text p) c)"

lemma selects_append: "chip_ok t c \<Longrightarrow> selects (t @ u) c = selects t c"
  by (auto simp: selects_def chip_ok_def)

lemma selects_shift:
  "selects (t @ u) (c\<lparr>range_start := range_start c + length t, range_end := range_end c + length t\<rparr>) = selects u c"
  by (simp add: selects_def)

definition selected :: "('img, 'blk, 'chip) queued_prompt \<Rightarrow> (string \<times> 'chip) list" where
  "selected p = map (\<lambda>c. (selects (q_text p) c, chip c)) (chip_elements p)"

text \<open>
  Absorbing a row keeps what the chips of the front select in the
  q_text joined so far and adds what the chips of that row selected in its own q_text.
\<close>

lemma absorb_selected:
  fixes p m :: "('img, 'blk, 'chip) queued_prompt"
  assumes "filter (\<lambda>t. t \<noteq> []) segs \<noteq> []" and "q_text p \<noteq> []" and "chips_ok p"
    and "\<forall>c\<in>set (chip_elements m). chip_ok (join_texts segs) c"
    and "absorb segs m p = (segs', m')"
  shows "map (\<lambda>c. (selects (join_texts segs') c, chip c)) (chip_elements m') =
      map (\<lambda>c. (selects (join_texts segs) c, chip c)) (chip_elements m) @ selected p"
    and "\<forall>c\<in>set (chip_elements m'). chip_ok (join_texts segs') c"
proof -
  let ?t = "join_texts segs @ TEXT_SEPARATOR"
  let ?sh = "\<lambda>c :: 'chip chip_element. c\<lparr>range_start := range_start c + length ?t, range_end := range_end c + length ?t\<rparr>"
  have j: "join_texts segs' = ?t @ q_text p" and
    ch: "chip_elements m' = chip_elements m @ map ?sh (chip_elements p)"
    using assms join_texts_snoc [of segs "q_text p"] by (auto simp: absorb_def Let_def)
  have "selects (?t @ q_text p) c = selects (join_texts segs) c" if "c \<in> set (chip_elements m)" for c
    using assms(4) that by (simp add: selects_append)
  moreover have "selects (?t @ q_text p) (?sh c) = selects (q_text p) c" for c :: "'chip chip_element"
    by (rule selects_shift)
  ultimately show "map (\<lambda>c. (selects (join_texts segs') c, chip c)) (chip_elements m') =
      map (\<lambda>c. (selects (join_texts segs) c, chip c)) (chip_elements m) @ selected p"
    by (simp add: j ch selected_def del: append_assoc)
  show "\<forall>c\<in>set (chip_elements m'). chip_ok (join_texts segs') c"
    using assms(3,4) by (auto simp: j ch chip_ok_def chips_ok_def)
qed

lemma absorb_loop_selected:
  assumes "k \<le> length ps" and "filter (\<lambda>t. t \<noteq> []) segs \<noteq> []"
    and "\<forall>p\<in>set (take k ps). q_text p \<noteq> [] \<and> chips_ok p"
    and "\<forall>c\<in>set (chip_elements m). chip_ok (join_texts segs) c"
    and "absorb_loop k segs m ps = Inr (segs', m', ps')"
  shows "map (\<lambda>c. (selects (join_texts segs') c, chip c)) (chip_elements m') =
      map (\<lambda>c. (selects (join_texts segs) c, chip c)) (chip_elements m) @ concat (map selected (take k ps))"
  using assms
proof (induction k arbitrary: segs m ps)
  case 0
  then show ?case by simp
next
  case (Suc k)
  then obtain p qs where ps: "ps = p # qs" by (cases ps) auto
  obtain s1 m1 where ab: "absorb segs m p = (s1, m1)" by (cases "absorb segs m p")
  have p: "q_text p \<noteq> []" "chips_ok p" using Suc.prems(3) ps by auto
  note step = absorb_selected [OF Suc.prems(2) p Suc.prems(4) ab]
  have s1: "s1 = segs @ [q_text p]" using ab by (auto simp: absorb_def Let_def)
  have "filter (\<lambda>t. t \<noteq> []) s1 \<noteq> []" using p s1 by simp
  moreover have "absorb_loop k s1 m1 qs = Inr (segs', m', ps')" using Suc.prems(5) ps ab by simp
  ultimately have "map (\<lambda>c. (selects (join_texts segs') c, chip c)) (chip_elements m') =
      map (\<lambda>c. (selects (join_texts s1) c, chip c)) (chip_elements m1) @ concat (map selected (take k qs))"
    using Suc.IH [of qs s1 m1] Suc.prems(1,3) ps step(2) by simp
  with step(1) ps show ?case by simp
qed

section \<open>What a combined dequeue takes and leaves\<close>

definition followers ::
  "('img, 'blk, 'chip) prompt_session \<Rightarrow> u64 option \<Rightarrow> ('img, 'blk, 'chip) queued_prompt list" where
  "followers s editing =
     (case pending_prompts s of
        [] \<Rightarrow> []
      | front # rest \<Rightarrow>
          if can_merge_front (gate_of front)
          then takeWhile (\<lambda>p. can_merge_front (gate_of p) \<and> images p = [] \<and> editing \<noteq> Some (q_id p)) rest
          else [])"

lemma follower_iff:
  "can_merge_follower (gate_of p) (case ed of None \<Rightarrow> [] | Some i \<Rightarrow> [id_string i]) \<longleftrightarrow>
     can_merge_front (gate_of p) \<and> images p = [] \<and> ed \<noteq> Some (q_id p)"
  by (auto simp: can_merge_follower_def gate_of_def split: option.splits)

lemma prefix_len_followers:
  assumes "pending_prompts s = front # rest"
  shows "max (combine_prefix_len (map gate_of (front # rest))
      (case ed of None \<Rightarrow> [] | Some i \<Rightarrow> [id_string i])) 1 = Suc (length (followers s ed))"
  using assms
  by (simp add: followers_def count_followers_takeWhile takeWhile_map comp_def follower_iff)

lemma followers_take:
  "pending_prompts s = front # rest \<Longrightarrow> followers s ed = take (length (followers s ed)) rest"
  by (simp add: followers_def) (metis takeWhile_eq_take)

lemma dequeue_combined_alone:
  assumes "pending_prompts s = front # rest" and "followers s ed = []"
  shows "dequeue_combined_prompt s ed = Inr (s\<lparr>pending_prompts := rest\<rparr>, Some front)"
  by (simp only: dequeue_combined_prompt_def Let_def assms list.case prefix_len_followers [OF assms(1), of ed]) simp

lemma dequeue_combined_merged:
  assumes s: "pending_prompts s = front # rest" and f: "followers s ed \<noteq> []"
  shows "\<exists>m. absorb_loop (length (followers s ed)) [q_text front] front rest =
       Inr (map q_text (front # followers s ed), m, drop (length (followers s ed)) rest)
     \<and> q_id m = q_id front \<and> kind m = kind front \<and> images m = images front \<and> wire_blocks m = None
     \<and> dequeue_combined_prompt s ed =
         Inr (s\<lparr>pending_prompts := drop (length (followers s ed)) rest\<rparr>,
              Some (m\<lparr>q_text := join_texts (map q_text (front # followers s ed)), skill_token_ranges := [],
                     combined_texts := map q_text (front # followers s ed)\<rparr>))"
proof -
  let ?k = "length (followers s ed)"
  have t: "followers s ed = take ?k rest" by (rule followers_take [OF s])
  then have "?k \<le> length rest" by (metis length_take min.bounded_iff order_refl)
  from absorb_loop_result [OF this, of "[q_text front]" front] t f obtain m where
    m: "absorb_loop ?k [q_text front] front rest = Inr (map q_text (front # followers s ed), m, drop ?k rest)"
    "q_id m = q_id front" "kind m = kind front" "images m = images front" "wire_blocks m = None"
    by auto
  then show ?thesis
    using f by (simp only: dequeue_combined_prompt_def Let_def s list.case prefix_len_followers [OF s, of ed]) auto
qed

lemma followers_mergeable:
  "p \<in> set (followers s ed) \<Longrightarrow> can_merge_front (gate_of p) \<and> images p = [] \<and> ed \<noteq> Some (q_id p)"
  by (auto simp: followers_def split: list.splits if_splits dest: set_takeWhileD)

lemma followers_front:
  "pending_prompts s = front # rest \<Longrightarrow> followers s ed \<noteq> [] \<Longrightarrow> can_merge_front (gate_of front)"
  by (auto simp: followers_def split: if_splits)

lemma mergeable_text: "can_merge_front (gate_of p) \<Longrightarrow> q_text p \<noteq> []"
  by (simp add: can_merge_front_def gate_of_def)

lemma taken_texts_nonempty:
  assumes "pending_prompts s = front # rest" and "followers s ed \<noteq> []"
  shows "\<forall>t\<in>set (map q_text (front # followers s ed)). t \<noteq> []"
proof -
  have "q_text front \<noteq> []" using followers_front [OF assms] by (rule mergeable_text)
  moreover have "q_text p \<noteq> []" if "p \<in> set (followers s ed)" for p
    using followers_mergeable [OF that, THEN conjunct1] by (rule mergeable_text)
  ultimately show ?thesis by auto
qed

section \<open>Identifiers are never handed out twice\<close>

lemma mset_swap_at: "i < length xs \<Longrightarrow> j < length xs \<Longrightarrow> mset (swap_at xs i j) = mset xs"
  unfolding swap_at_def by (rule mset_swap)

lemma position_Some: "position P xs = Some n \<Longrightarrow> n < length xs \<and> P (xs ! n) \<and> (\<forall>k<n. \<not> P (xs ! k))"
  by (induction xs arbitrary: n) (auto simp: less_Suc_eq_0_disj nth_Cons' split: if_splits)

lemma swap_prompt_mset:
  "mset (pending_prompts (swap_prompt_up s i)) = mset (pending_prompts s)"
  "mset (pending_prompts (swap_prompt_down s i)) = mset (pending_prompts s)"
  by (auto simp: swap_prompt_up_def swap_prompt_down_def queue_position_def mset_swap_at
      split: option.splits dest!: position_Some)

datatype ('img, 'blk, 'chip) queue_op =
    Enqueue string entry_kind bool "(nat \<times> nat) list"
  | Enqueue_In_Flight string "'img list" "'chip chip_element list"
  | Enqueue_Cron string string string
  | Dequeue
  | Dequeue_Combined "u64 option"
  | Swap_Up u64
  | Swap_Down u64

fun queue_step ::
  "('img, 'blk, 'chip) prompt_session \<Rightarrow> ('img, 'blk, 'chip) queue_op \<Rightarrow> ('img, 'blk, 'chip) prompt_session"
  where
  "queue_step s (Enqueue t k front ranges) = fst (enqueue_entry_at s t k front ranges)"
| "queue_step s (Enqueue_In_Flight t imgs chips) = fst (enqueue_in_flight_prompt_front s t imgs chips)"
| "queue_step s (Enqueue_Cron t tid sched) = fst (enqueue_cron_prompt s t tid sched)"
| "queue_step s Dequeue = fst (dequeue_prompt s)"
| "queue_step s (Dequeue_Combined ed) =
     (case dequeue_combined_prompt s ed of Inl _ \<Rightarrow> s | Inr (s', _) \<Rightarrow> s')"
| "queue_step s (Swap_Up i) = swap_prompt_up s i"
| "queue_step s (Swap_Down i) = swap_prompt_down s i"

fun assigns_id :: "('img, 'blk, 'chip) queue_op \<Rightarrow> bool" where
  "assigns_id (Enqueue _ _ _ _) = True"
| "assigns_id (Enqueue_In_Flight _ _ _) = True"
| "assigns_id (Enqueue_Cron _ _ _) = True"
| "assigns_id _ = False"

text \<open>After \<open>n\<close> assignments the next identifier is \<open>n\<close> and every queued one lies below it.\<close>

definition ids_below :: "nat \<Rightarrow> ('img, 'blk, 'chip) prompt_session \<Rightarrow> bool" where
  "ids_below n s \<longleftrightarrow> next_queue_id s = word_of_nat n \<and> distinct (map q_id (pending_prompts s)) \<and>
     (\<forall>p\<in>set (pending_prompts s). unat (q_id p) < n)"

lemma ids_below_drop:
  "ids_below n s \<Longrightarrow> ids_below n (s\<lparr>pending_prompts := drop k (pending_prompts s)\<rparr>)"
  by (auto simp: ids_below_def drop_map [symmetric] dest: in_set_dropD)

lemma ids_below_permuted:
  assumes "ids_below n s" and "mset (pending_prompts s') = mset (pending_prompts s)"
    and "next_queue_id s' = next_queue_id s"
  shows "ids_below n s'"
proof -
  have "mset (map q_id (pending_prompts s')) = mset (map q_id (pending_prompts s))"
    using assms(2) by simp
  then have "distinct (map q_id (pending_prompts s'))"
    using assms(1) by (metis ids_below_def mset_eq_imp_distinct_iff)
  moreover have "set (pending_prompts s') = set (pending_prompts s)"
    using assms(2) by (metis set_mset_mset)
  ultimately show ?thesis using assms(1,3) by (simp add: ids_below_def)
qed

lemma ids_below_add:
  assumes "ids_below n s" and "n < 2 ^ 64" and "q_id e = next_queue_id s"
    and "mset qs = add_mset e (mset (pending_prompts s))"
  shows "ids_below (Suc n) (s\<lparr>next_queue_id := next_queue_id s + 1, pending_prompts := qs\<rparr>)"
proof -
  have e: "unat (q_id e) = n"
    using assms(1-3) by (simp add: ids_below_def unat_of_nat)
  have "e' \<in> set (pending_prompts s) \<Longrightarrow> q_id e' \<noteq> q_id e" for e'
    using assms(1) e by (auto simp: ids_below_def)
  then have "q_id e \<notin> q_id ` set (pending_prompts s)" by fastforce
  then have "distinct (map q_id (e # pending_prompts s))"
    using assms(1) by (simp add: ids_below_def)
  moreover have "mset (map q_id qs) = mset (map q_id (e # pending_prompts s))"
    using assms(4) by simp
  ultimately have "distinct (map q_id qs)" by (metis mset_eq_imp_distinct_iff)
  moreover have "set qs = insert e (set (pending_prompts s))"
    using assms(4) by (metis set_mset_add_mset_insert set_mset_mset)
  ultimately show ?thesis
    using assms(1) e by (auto simp: ids_below_def less_Suc_eq)
qed

lemma dequeue_combined_drops:
  "\<exists>k. (case dequeue_combined_prompt s ed of Inl _ \<Rightarrow> s | Inr (s', _) \<Rightarrow> s') =
     s\<lparr>pending_prompts := drop k (pending_prompts s)\<rparr>"
proof (cases "pending_prompts s")
  case Nil
  then show ?thesis by (intro exI [of _ 0]) (simp add: dequeue_combined_prompt_def)
next
  case (Cons front rest)
  show ?thesis
  proof (cases "followers s ed = []")
    case True
    with dequeue_combined_alone [OF Cons True] Cons show ?thesis by (intro exI [of _ 1]) simp
  next
    case False
    with dequeue_combined_merged [OF Cons False] Cons show ?thesis
      by (intro exI [of _ "Suc (length (followers s ed))"]) auto
  qed
qed

lemma swap_next [simp]:
  "next_queue_id (swap_prompt_up s i) = next_queue_id s"
  "next_queue_id (swap_prompt_down s i) = next_queue_id s"
  by (simp_all add: swap_prompt_up_def swap_prompt_down_def split: option.split)

lemma ids_below_step:
  assumes "ids_below n s" and "assigns_id op \<Longrightarrow> n < 2 ^ 64"
  shows "ids_below (if assigns_id op then Suc n else n) (queue_step s op)"
proof (cases op)
  case (Enqueue t k front ranges)
  with assms show ?thesis
    by (auto simp: enqueue_entry_at_def Let_def plain_def intro!: ids_below_add)
next
  case (Enqueue_In_Flight t imgs chips)
  with assms show ?thesis
    by (auto simp: enqueue_in_flight_prompt_front_def Let_def plain_def intro!: ids_below_add)
next
  case (Enqueue_Cron t tid sched)
  with assms show ?thesis
    by (auto simp: enqueue_cron_prompt_def Let_def plain_def intro!: ids_below_add)
next
  case Dequeue
  then show ?thesis
    using ids_below_drop [OF assms(1), of 1] assms(1)
    by (auto simp: dequeue_prompt_def split: list.split)
next
  case (Dequeue_Combined ed)
  obtain k where "queue_step s op = s\<lparr>pending_prompts := drop k (pending_prompts s)\<rparr>"
    using dequeue_combined_drops [of s ed] Dequeue_Combined by auto
  then show ?thesis using ids_below_drop [OF assms(1)] Dequeue_Combined by simp
next
  case (Swap_Up i)
  then show ?thesis
    using ids_below_permuted [OF assms(1) swap_prompt_mset(1)] by simp
next
  case (Swap_Down i)
  then show ?thesis
    using ids_below_permuted [OF assms(1) swap_prompt_mset(2)] by simp
qed

lemma ids_below_run:
  assumes "ids_below n s" and "n + length (filter assigns_id ops) \<le> 2 ^ 64"
  shows "ids_below (n + length (filter assigns_id ops)) (foldl queue_step s ops)"
  using assms
proof (induction ops arbitrary: n s)
  case (Cons op ops)
  have "ids_below (if assigns_id op then Suc n else n) (queue_step s op)"
    using Cons.prems by (intro ids_below_step) auto
  from Cons.IH [OF this] Cons.prems(2) show ?case by (auto split: if_splits)
qed simp

section \<open>Properties\<close>

text \<open>
  C16: a combined dequeue takes the front row and exactly the longest run of rows behind it that
  are plain, image-free and not under edit, leaves the rest in order, never panics, keeps the
  front's identifier and images, and the merged row's text is the taken texts joined, each of them
  non-empty.
\<close>

theorem combined_dequeue_takes_prefix:
  assumes "pending_prompts s = front # rest" and "followers s ed \<noteq> []"
  shows "\<exists>m. dequeue_combined_prompt s ed =
         Inr (s\<lparr>pending_prompts := drop (length (followers s ed)) rest\<rparr>, Some m)
     \<and> rest = followers s ed @ drop (length (followers s ed)) rest
     \<and> q_id m = q_id front \<and> images m = images front
     \<and> combined_texts m = map q_text (front # followers s ed)
     \<and> q_text m = join_with TEXT_SEPARATOR (map q_text (front # followers s ed))
     \<and> [] \<notin> set (combined_texts m)"
proof -
  note ne = taken_texts_nonempty [OF assms]
  then have "join_texts (map q_text (front # followers s ed)) =
      join_with TEXT_SEPARATOR (map q_text (front # followers s ed))"
    by (simp only: join_texts_def filter_True)
  moreover have "rest = followers s ed @ drop (length (followers s ed)) rest"
    using followers_take [OF assms(1), of ed] by (metis append_take_drop_id)
  moreover obtain m where "q_id m = q_id front" "images m = images front"
    "dequeue_combined_prompt s ed = Inr (s\<lparr>pending_prompts := drop (length (followers s ed)) rest\<rparr>,
       Some (m\<lparr>q_text := join_texts (map q_text (front # followers s ed)), skill_token_ranges := [],
              combined_texts := map q_text (front # followers s ed)\<rparr>))"
    using dequeue_combined_merged [OF assms] by blast
  moreover have "[] \<notin> set (map q_text (front # followers s ed))" using ne by blast
  ultimately show ?thesis
    by (intro exI [of _ "m\<lparr>q_text := join_texts (map q_text (front # followers s ed)), skill_token_ranges := [],
              combined_texts := map q_text (front # followers s ed)\<rparr>"]) (simp del: map_map list.map)
qed

definition sample_session :: "(nat, nat, nat) prompt_session" where
  "sample_session = \<lparr>pending_prompts =
     [(plain 0 ''fix'' Prompt)\<lparr>chip_elements := [\<lparr>range_start = 0, range_end = 2, chip = 1\<rparr>]\<rparr>,
      (plain 1 ''tests'' Prompt)\<lparr>chip_elements := [\<lparr>range_start = 1, range_end = 4, chip = 2\<rparr>]\<rparr>,
      plain 2 ''ls'' BashCommand], next_queue_id = 3\<rparr>"

lemma sample_followers:
  "followers sample_session None = [(plain 1 ''tests'' Prompt)\<lparr>chip_elements := [\<lparr>range_start = 1, range_end = 4, chip = 2\<rparr>]\<rparr>]"
  by (simp add: followers_def sample_session_def can_merge_front_def gate_of_def plain_def)

lemma combined_dequeue_takes_prefix_witness:
  "\<exists>s' m. dequeue_combined_prompt sample_session None = Inr (s', Some m) \<and> q_text m = ''fix'' @ TEXT_SEPARATOR @ ''tests''"
  using combined_dequeue_takes_prefix [of sample_session _ _ None] sample_followers
  by (fastforce simp: sample_session_def plain_def)

text \<open>
  C15: merging prompts keeps every chip on the text it was placed on: in the merged text each chip
  of each merged row selects exactly the bytes it selected in its own row, in order, provided the
  chips of the rows lay inside their texts.
\<close>

theorem chips_survive_merge:
  assumes "pending_prompts s = front # rest" and "followers s ed \<noteq> []"
    and "\<forall>p\<in>set (front # followers s ed). chips_ok p"
    and "dequeue_combined_prompt s ed = Inr (s', Some m)"
  shows "selected m = concat (map selected (front # followers s ed))"
proof -
  let ?k = "length (followers s ed)"
  obtain m' where al: "absorb_loop ?k [q_text front] front rest =
       Inr (map q_text (front # followers s ed), m', drop ?k rest)"
    and m: "m = m'\<lparr>q_text := join_texts (map q_text (front # followers s ed)), skill_token_ranges := [],
                 combined_texts := map q_text (front # followers s ed)\<rparr>"
    using dequeue_combined_merged [OF assms(1,2)] assms(4) by auto
  have t: "followers s ed = take ?k rest" by (rule followers_take [OF assms(1)])
  have f: "q_text front \<noteq> []" using followers_front [OF assms(1,2)] mergeable_text by blast
  have "\<forall>p\<in>set (take ?k rest). q_text p \<noteq> [] \<and> chips_ok p"
    using assms(3) t followers_mergeable mergeable_text by (metis list.set_intros(2))
  moreover have "?k \<le> length rest" using t by (metis length_take min.bounded_iff order_refl)
  ultimately have "map (\<lambda>c. (selects (join_texts (map q_text (front # followers s ed))) c, chip c)) (chip_elements m')
      = map (\<lambda>c. (selects (join_texts [q_text front]) c, chip c)) (chip_elements front) @ concat (map selected (take ?k rest))"
    using absorb_loop_selected [OF _ _ _ _ al] f assms(3) by (simp add: join_texts_def chips_ok_def)
  with f t show ?thesis by (simp add: m selected_def join_texts_def)
qed

lemma chips_survive_merge_witness:
  "\<exists>s' m. dequeue_combined_prompt sample_session None = Inr (s', Some m) \<and> selected m = [(''fi'', 1), (''est'', 2)]"
proof -
  obtain s' m where d: "dequeue_combined_prompt sample_session None = Inr (s', Some m)"
    using dequeue_combined_merged [of sample_session _ _ None] sample_followers
    by (fastforce simp: sample_session_def)
  moreover have "selected m = [(''fi'', 1), (''est'', 2)]"
    using chips_survive_merge [OF _ _ _ d] sample_followers
    by (simp add: sample_session_def chips_ok_def chip_ok_def plain_def selected_def selects_def)
  ultimately show ?thesis by blast
qed

text \<open>
  A queue identifier is never handed out twice: over any sequence of enqueues of every kind,
  dequeues, combined dequeues and swaps with fewer than \<open>2 ^ 64\<close> enqueues, the rows in the queue
  have distinct identifiers, each below the next one to be assigned, which counts the enqueues.
\<close>

theorem queue_ids_unique:
  assumes "length (filter assigns_id ops) < 2 ^ 64"
  shows "distinct (map q_id (pending_prompts (foldl queue_step session_new ops))) \<and>
    unat (next_queue_id (foldl queue_step session_new ops)) = length (filter assigns_id ops) \<and>
    (\<forall>p\<in>set (pending_prompts (foldl queue_step session_new ops)).
       q_id p < next_queue_id (foldl queue_step session_new ops))"
proof -
  have "ids_below 0 session_new" by (simp add: ids_below_def session_new_def)
  from ids_below_run [OF this, of ops] assms
  have "ids_below (length (filter assigns_id ops)) (foldl queue_step session_new ops)" by simp
  then show ?thesis
    using assms by (simp add: ids_below_def word_less_nat_alt unat_of_nat)
qed

lemma queue_ids_unique_witness:
  "distinct (map q_id (pending_prompts (foldl queue_step (session_new :: (nat, nat, nat) prompt_session)
     [Enqueue ''a'' Prompt False [], Enqueue ''b'' Prompt True [], Swap_Up 0, Dequeue, Enqueue ''c'' Command False []])))"
  by (rule queue_ids_unique [THEN conjunct1]) simp

end
