(* ===== verification/Permission_Types.thy ===== *)
theory Permission_Types
  imports Rust_Str
begin

text \<open>
  The vocabulary of the permission system (\<open>permission/types.rs\<close> of
  \<open>crates/codegen/xai-grok-workspace\<close>): what a tool call wants to access, what may be decided
  about it, and the rules of a policy.
\<close>

section \<open>JSON values\<close>

datatype json = Null | Bool bool | Number string | String string | Array "json list"
  | Object "(string \<times> json) list"

fun as_str :: "json \<Rightarrow> string option" where
  "as_str (String s) = Some s"
| "as_str _ = None"

fun as_object :: "json \<Rightarrow> (string \<times> json) list option" where
  "as_object (Object kvs) = Some kvs"
| "as_object _ = None"

section \<open>Accesses\<close>

datatype access_kind =
    Read "string option"
  | Grep "string option" "string option"
  | Edit string
  | Bash string
  | MCPTool string json
  | WebFetch string
  | WebSearch string
  | AgentMessage string

definition dynamic_string_field :: "json \<Rightarrow> string list \<Rightarrow> string option" where
  "dynamic_string_field v keys =
     (case as_object v of
        None \<Rightarrow> None
      | Some object \<Rightarrow> find_map (\<lambda>k. Option.bind (map_of object k) as_str) keys)"

definition dynamic_has_field :: "json \<Rightarrow> string list \<Rightarrow> bool" where
  "dynamic_has_field v keys =
     (case as_object v of
        None \<Rightarrow> False
      | Some object \<Rightarrow> list_ex (\<lambda>k. map_of object k \<noteq> None) keys)"

definition access_kind_from_dynamic :: "json \<Rightarrow> access_kind" where
  "access_kind_from_dynamic v =
     (case dynamic_string_field v [''filePath'', ''file_path'', ''path''] of
        Some path \<Rightarrow>
          (if dynamic_has_field v [''oldString'', ''old_string'', ''newString'', ''new_string'',
                ''content'', ''edits'', ''replaceAll'', ''replace_all'']
           then Edit path else Read (Some path))
      | None \<Rightarrow>
          (case dynamic_string_field v [''command''] of
             Some command \<Rightarrow> Bash command
           | None \<Rightarrow> Read None))"

text \<open>The tool inputs with the fields the conversion reads; \<open>T_Other\<close> stands for the rest.\<close>

datatype tool_input =
    T_ReadFile string | T_ListDir string | T_Grep "string option" "string option"
  | T_TodoWrite | T_TaskOutput | T_WaitTasks | T_KillTask | T_Skill
  | T_Task string | T_SendSubagentMessage string | T_WebSearch string
  | T_SearchReplace string | T_ApplyPatch | T_HashlineEdit string | T_Write string
  | T_Bash string | T_Monitor string | T_MCPTool string json | T_UseTool string json
  | T_WebFetch string | T_Dynamic json | T_Other

fun access_of_tool_input :: "tool_input \<Rightarrow> access_kind" where
  "access_of_tool_input (T_ReadFile p) = Read (Some p)"
| "access_of_tool_input (T_ListDir d) = Read (Some d)"
| "access_of_tool_input (T_Grep p g) = Grep p g"
| "access_of_tool_input T_TodoWrite = Read None"
| "access_of_tool_input T_TaskOutput = Read None"
| "access_of_tool_input T_WaitTasks = Read None"
| "access_of_tool_input T_KillTask = Read None"
| "access_of_tool_input T_Skill = Read None"
| "access_of_tool_input (T_Task st) = Edit (''task:'' @ st)"
| "access_of_tool_input (T_SendSubagentMessage i) = AgentMessage i"
| "access_of_tool_input (T_WebSearch q) = WebSearch q"
| "access_of_tool_input (T_SearchReplace p) = Edit p"
| "access_of_tool_input T_ApplyPatch = Edit ''apply_patch''"
| "access_of_tool_input (T_HashlineEdit p) = Edit p"
| "access_of_tool_input (T_Write p) = Edit p"
| "access_of_tool_input (T_Bash c) = Bash c"
| "access_of_tool_input (T_Monitor c) = Bash c"
| "access_of_tool_input (T_MCPTool n i) = MCPTool n i"
| "access_of_tool_input (T_UseTool n i) = MCPTool n i"
| "access_of_tool_input (T_WebFetch u) = WebFetch u"
| "access_of_tool_input (T_Dynamic v) = access_kind_from_dynamic v"
| "access_of_tool_input T_Other = Read None"

section \<open>Decisions and rules\<close>

datatype decision =
    Allow | Ask | FollowupMessage string | Reject string | PolicyDeny string | Cancelled

datatype prompt_policy = PP_Ask | PP_Deny | PP_Auto | PP_Allow

datatype pattern_mode = Glob | Domain

datatype rule_action = RA_Allow | RA_Deny | RA_Ask

datatype tool_filter =
    TF_Any | TF_Bash | TF_Edit | TF_Read | TF_Grep | TF_Mcp | TF_WebFetch | TF_WebSearch | TF_AgentMessage

record permission_rule =
  action :: rule_action
  tool :: tool_filter
  pattern :: "string option"
  mode :: pattern_mode

record permission_config =
  rules :: "permission_rule list"
  prompt_policy :: prompt_policy
  default_mode_configured :: bool

definition config_new :: "permission_rule list \<Rightarrow> permission_config" where
  "config_new rs = \<lparr>rules = rs, prompt_policy = PP_Ask, default_mode_configured = False\<rparr>"

section \<open>Clients\<close>

datatype client_type = Generic | GrokTUI | GrokWeb | Nebula | Extension | GrokPager | Desktop

fun user_agent_label :: "client_type \<Rightarrow> string" where
  "user_agent_label Generic = ''grok-shell''"
| "user_agent_label GrokTUI = ''grok-tui''"
| "user_agent_label GrokWeb = ''grok-web''"
| "user_agent_label Nebula = ''nebula''"
| "user_agent_label Extension = ''grok-code-extension''"
| "user_agent_label GrokPager = ''grok-pager''"
| "user_agent_label Desktop = ''grok-desktop''"

definition from_client_identifier :: "string option \<Rightarrow> client_type" where
  "from_client_identifier i =
     (if i = Some ''grok-web'' then GrokWeb
      else if i = Some ''nebula'' then Nebula
      else if i = Some ''grok-code-extension'' then Extension
      else if i = Some ''grok-desktop'' then Desktop
      else if i = Some ''grok-pager'' then GrokPager
      else Generic)"

fun feedback_label :: "client_type \<Rightarrow> string" where
  "feedback_label GrokTUI = ''tui''"
| "feedback_label GrokPager = ''tui''"
| "feedback_label GrokWeb = ''web''"
| "feedback_label Nebula = ''nebula''"
| "feedback_label Extension = ''extension''"
| "feedback_label Generic = ''agent''"
| "feedback_label Desktop = ''desktop''"

definition can_present_permission_prompt :: "client_type \<Rightarrow> bool" where
  "can_present_permission_prompt c = (c \<noteq> Generic)"

section \<open>Questions from hooks\<close>

record hook_ask =
  hook_name :: string
  reason :: "string option"

text \<open>The separator is a space, an em dash and a space.\<close>

definition HOOK_ASK_SEPARATOR :: string where
  "HOOK_ASK_SEPARATOR = map char_of [0x20 :: nat, 0xE2, 0x80, 0x94, 0x20]"

function split_whitespace :: "string \<Rightarrow> string \<Rightarrow> string list" where
  "split_whitespace cur [] = (if cur = [] then [] else [cur])"
| "split_whitespace cur (c # cs) =
     (case find (\<lambda>w. prefix w (c # cs)) whitespace of
        Some w \<Rightarrow> (if cur = [] then [] else [cur]) @ split_whitespace [] (drop (length w - 1) cs)
      | None \<Rightarrow> split_whitespace (cur @ [c]) cs)"
  by pat_completeness auto
termination by (relation "measure (\<lambda>(_, s). length s)") auto

definition ask_line :: "hook_ask \<Rightarrow> string" where
  "ask_line h =
     (let r = join_with '' '' (split_whitespace [] (case reason h of None \<Rightarrow> [] | Some r \<Rightarrow> r))
      in if r = [] then ''hook '' @ [CHR 0x27] @ hook_name h @ [CHR 0x27] @ '' asks for confirmation''
         else ''hook '' @ [CHR 0x27] @ hook_name h @ [CHR 0x27] @ '' asks: '' @ r)"

definition prompt_header :: "hook_ask \<Rightarrow> string \<Rightarrow> string" where
  "prompt_header h act = act @ HOOK_ASK_SEPARATOR @ ask_line h"

definition strip_prompt_header :: "hook_ask \<Rightarrow> string \<Rightarrow> string" where
  "strip_prompt_header h title =
     (case Option.bind (strip_suffix (ask_line h) title) (strip_suffix HOOK_ASK_SEPARATOR) of
        Some act \<Rightarrow> act | None \<Rightarrow> title)"

lemma strip_prompt_header_inverse: "strip_prompt_header h (prompt_header h act) = act"
proof -
  have "strip_suffix (ask_line h) (prompt_header h act) = Some (act @ HOOK_ASK_SEPARATOR)"
    by (simp add: prompt_header_def strip_suffix_Some_iff)
  then show ?thesis by (simp add: strip_prompt_header_def)
qed

end
