(* ===== verification/Rule_Parser.thy ===== *)
theory Rule_Parser
  imports Permission_Types
begin

text \<open>
  \<open>permission/rules.rs\<close> of \<open>crates/codegen/xai-grok-workspace\<close>: the text form of a permission
  rule, \<open>Tool(pattern)\<close>, and the default modes of the settings files.
\<close>

section \<open>Default modes\<close>

datatype default_permission_mode = DM_Default | AcceptEdits | Plan | Auto | DontAsk | BypassPermissions

definition mode_from_str :: "string \<Rightarrow> (string, default_permission_mode) res" where
  "mode_from_str s =
     (if s = ''default'' then Inr DM_Default
      else if s = ''acceptEdits'' then Inr AcceptEdits
      else if s = ''plan'' then Inr Plan
      else if s = ''auto'' then Inr Auto
      else if s = ''dontAsk'' then Inr DontAsk
      else if s = ''bypassPermissions'' then Inr BypassPermissions
      else Inl s)"

record default_mode_effects =
  dm_prompt_policy :: prompt_policy
  accept_edits :: bool
  bypass_permissions :: bool

definition no_effects :: default_mode_effects where
  "no_effects = \<lparr>dm_prompt_policy = PP_Ask, accept_edits = False, bypass_permissions = False\<rparr>"

fun effects :: "default_permission_mode \<Rightarrow> default_mode_effects" where
  "effects AcceptEdits = no_effects\<lparr>accept_edits := True\<rparr>"
| "effects BypassPermissions = no_effects\<lparr>bypass_permissions := True\<rparr>"
| "effects DM_Default = no_effects"
| "effects Plan = no_effects"
| "effects DontAsk = no_effects\<lparr>dm_prompt_policy := PP_Deny\<rparr>"
| "effects Auto = no_effects\<lparr>dm_prompt_policy := PP_Auto\<rparr>"

section \<open>Escapes\<close>

datatype rule_parse_error =
    UnsupportedToolPrefix string | UnknownToolPrefix string | MalformedRule string

text \<open>The loop counts the backslashes right before the position.\<close>

definition backslashes_before :: "string \<Rightarrow> nat \<Rightarrow> nat" where
  "backslashes_before s pos = length (takeWhile (\<lambda>c. c = backslash) (rev (take pos s)))"

definition is_unescaped :: "string \<Rightarrow> nat \<Rightarrow> bool" where
  "is_unescaped s pos = even (backslashes_before s pos)"

definition find_first_unescaped :: "string \<Rightarrow> char \<Rightarrow> nat option" where
  "find_first_unescaped s c = find (\<lambda>i. s ! i = c \<and> is_unescaped s i) [0..<length s]"

definition find_last_unescaped :: "string \<Rightarrow> char \<Rightarrow> nat option" where
  "find_last_unescaped s c = find (\<lambda>i. s ! i = c \<and> is_unescaped s i) (rev [0..<length s])"

definition lparen :: char where "lparen = CHR 0x28"
definition rparen :: char where "rparen = CHR 0x29"

definition unescape_rule_content :: "string \<Rightarrow> string" where
  "unescape_rule_content s =
     (if backslash \<notin> set s then s
      else replace_all [backslash, backslash] [backslash]
             (replace_all [backslash, rparen] [rparen] (replace_all [backslash, lparen] [lparen] s)))"

section \<open>The parser\<close>

definition tool_name_to_filter :: "string \<Rightarrow> tool_filter option" where
  "tool_name_to_filter nm =
     (if nm = ''Bash'' then Some TF_Bash
      else if nm = ''Read'' then Some TF_Read
      else if nm \<in> {''Edit'', ''Write''} then Some TF_Edit
      else if nm = ''MCPTool'' then Some TF_Mcp
      else if nm \<in> {''Grep'', ''Glob''} then Some TF_Grep
      else if nm = ''WebFetch'' then Some TF_WebFetch
      else if nm = ''WebSearch'' then Some TF_WebSearch
      else if nm \<in> {''AgentMessage'', ''SendSubagentMessage'', ''SendAgentMessage''} then Some TF_AgentMessage
      else None)"

definition unsupported_tools :: "string set" where
  "unsupported_tools = {''EnterWorktree'', ''NotebookEdit'', ''NotebookRead''}"

definition strip_domain_prefix :: "string \<Rightarrow> string \<times> pattern_mode" where
  "strip_domain_prefix p =
     (case strip_prefix ''domain:'' p of Some d \<Rightarrow> (d, Domain) | None \<Rightarrow> (p, Glob))"

definition strip_bash_colon_wildcard :: "string \<Rightarrow> string" where
  "strip_bash_colon_wildcard p = (case strip_suffix '':*'' p of Some q \<Rightarrow> q | None \<Rightarrow> p)"

definition opt_pattern :: "string \<Rightarrow> string option" where
  "opt_pattern p = (if p = [] then None else Some p)"

definition parse_tool_rule :: "string \<Rightarrow> nat \<Rightarrow> rule_action \<Rightarrow> (rule_parse_error, permission_rule) res" where
  "parse_tool_rule rule open_paren act =
     (let prefix_trimmed = trim (take open_paren rule);
          content_and_close = drop (open_paren + 1) rule
      in case find_last_unescaped content_and_close rparen of
           None \<Rightarrow> Inl (MalformedRule ''missing closing parenthesis'')
         | Some close_paren \<Rightarrow>
           (let raw = trim (take close_paren content_and_close);
                pat = (if raw = [] \<or> raw = ''*'' then [] else unescape_rule_content raw)
            in case tool_name_to_filter prefix_trimmed of
                 None \<Rightarrow> (if prefix_trimmed \<in> unsupported_tools
                          then Inl (UnsupportedToolPrefix prefix_trimmed)
                          else Inl (UnknownToolPrefix prefix_trimmed))
               | Some t \<Rightarrow>
                   (let pat1 = (if t = TF_Bash then strip_bash_colon_wildcard pat else pat);
                        (pat2, md) = strip_domain_prefix pat1
                    in Inr \<lparr>action = act, tool = t, pattern = opt_pattern pat2, mode = md\<rparr>)))"

definition parse_mcp_name :: "string \<Rightarrow> string option" where
  "parse_mcp_name rest =
     (if rest = ''*'' then None
      else if sublist ''__'' rest then Some rest
      else Some (rest @ ''__*''))"

definition parse_bare_rule :: "string \<Rightarrow> rule_action \<Rightarrow> (rule_parse_error, permission_rule) res" where
  "parse_bare_rule rule act =
     (if rule \<in> unsupported_tools then Inl (UnsupportedToolPrefix rule)
      else (case tool_name_to_filter rule of
              Some t \<Rightarrow> Inr \<lparr>action = act, tool = t, pattern = None, mode = Glob\<rparr>
            | None \<Rightarrow>
                (case strip_prefix ''mcp__'' rule of
                   Some (c # rest) \<Rightarrow>
                     Inr \<lparr>action = act, tool = TF_Mcp, pattern = parse_mcp_name (c # rest), mode = Glob\<rparr>
                 | _ \<Rightarrow> Inr \<lparr>action = act, tool = TF_Any, pattern = opt_pattern rule, mode = Glob\<rparr>)))"

definition parse_permission_rule :: "string \<Rightarrow> rule_action \<Rightarrow> (rule_parse_error, permission_rule) res" where
  "parse_permission_rule rule0 act =
     (let rule = trim rule0
      in case find_first_unescaped rule lparen of
           Some open_paren \<Rightarrow> parse_tool_rule rule open_paren act
         | None \<Rightarrow> parse_bare_rule rule act)"

section \<open>Escaping, and that the parser undoes it\<close>

definition escape_in :: "char set \<Rightarrow> string \<Rightarrow> string" where
  "escape_in S s = concat (map (\<lambda>c. if c \<in> S then [backslash, c] else [c]) s)"

definition escape_rule_content :: "string \<Rightarrow> string" where
  "escape_rule_content s = escape_in {backslash, lparen, rparen} s"

lemma paren_chars [simp]: "lparen \<noteq> backslash" "rparen \<noteq> backslash" "lparen \<noteq> rparen"
  "backslash \<noteq> lparen" "backslash \<noteq> rparen" "rparen \<noteq> lparen"
  by (simp_all add: lparen_def rparen_def backslash_def)

lemma escape_in_simps [simp]:
  "escape_in S [] = []"
  "escape_in S (c # s) = (if c \<in> S then backslash # c # escape_in S s else c # escape_in S s)"
  by (simp_all add: escape_in_def)

lemma escape_in_append [simp]: "escape_in S (s @ t) = escape_in S s @ escape_in S t"
  by (simp add: escape_in_def)

lemma escape_in_head: "backslash \<in> S \<Longrightarrow> c \<in> S \<Longrightarrow> c \<noteq> backslash \<Longrightarrow> escape_in S s \<noteq> c # t"
  by (cases s) auto

lemma replace_paren:
  assumes "backslash \<in> S" "c \<in> S" "c \<noteq> backslash"
  shows "replace_all [backslash, c] [c] (escape_in S s) = escape_in (S - {c}) s"
proof (induction s)
  case (Cons d s)
  have "\<not> prefix [c] (escape_in S s)"
    using assms escape_in_head by (auto simp: prefix_def)
  with Cons assms show ?case by auto
qed simp

lemma replace_backslash: "replace_all [backslash, backslash] [backslash] (escape_in {backslash} s) = s"
  by (induction s) auto

lemma escape_in_none: "backslash \<in> S \<Longrightarrow> backslash \<notin> set (escape_in S s) \<Longrightarrow> escape_in S s = s"
  by (induction s) (auto split: if_splits)

lemma unescape_escape: "unescape_rule_content (escape_rule_content s) = s"
proof (cases "backslash \<in> set (escape_rule_content s)")
  case True
  have "{backslash, lparen, rparen} - {lparen} = {backslash, rparen}"
    and "{backslash, rparen} - {rparen} = {backslash}" by auto
  with True show ?thesis
    by (simp add: unescape_rule_content_def escape_rule_content_def replace_paren replace_backslash)
next
  case False
  then show ?thesis
    using escape_in_none [of "{backslash, lparen, rparen}" s]
    by (simp add: unescape_rule_content_def escape_rule_content_def)
qed

text \<open>Every backslash of an escaped text is one of a pair or escapes a parenthesis.\<close>

lemma trailing_backslashes: "even (length (takeWhile (\<lambda>c. c = backslash) (rev (escape_rule_content s))))"
  unfolding escape_rule_content_def
proof (induction s rule: rev_induct)
  case (snoc c s)
  then show ?case by (auto simp: lparen_def)
qed simp

lemma find_last_escaped: "find_last_unescaped (escape_rule_content s @ rparen # []) rparen = Some (length (escape_rule_content s))"
  using trailing_backslashes [of s]
  by (simp add: find_last_unescaped_def is_unescaped_def backslashes_before_def nth_append)

lemma find_upt_Some:
  assumes "n < m" "P n" "\<And>i. i < n \<Longrightarrow> \<not> P i"
  shows "find P [0..<m] = Some n"
  using assms by (auto simp: find_Some_iff intro!: exI [of _ n])

lemma find_first_paren:
  assumes "lparen \<notin> set nm" "backslash \<notin> set nm"
  shows "find_first_unescaped (nm @ lparen # rest) lparen = Some (length nm)"
proof -
  have "takeWhile (\<lambda>c. c = backslash) (rev nm) = []"
    using assms(2) by (cases nm rule: rev_cases) auto
  then have "is_unescaped (nm @ lparen # rest) (length nm)"
    by (simp add: is_unescaped_def backslashes_before_def)
  moreover have "(nm @ lparen # rest) ! i \<noteq> lparen" if "i < length nm" for i
    using that assms(1) by (metis nth_append nth_mem)
  ultimately show ?thesis
    unfolding find_first_unescaped_def by (intro find_upt_Some) auto
qed

lemma trim_solid: "solid c \<Longrightarrow> solid d \<Longrightarrow> trim (c # s @ [d]) = c # s @ [d]"
  using trim_end_solid [of d "c # s"] by (simp add: trim_def trim_start_solid)

lemma trim_solid1: "solid c \<Longrightarrow> trim [c] = [c]"
  using trim_end_solid [of c "[]"] by (simp add: trim_def trim_start_solid)

lemma trim_between:
  assumes "s \<noteq> []" "solid (hd s)" "solid (last s)"
  shows "trim s = s"
proof (cases s)
  case (Cons c t)
  then show ?thesis
    using assms trim_solid1 trim_solid by (cases t rule: rev_cases) auto
qed (use assms in simp)

definition plain_name :: "string \<Rightarrow> bool" where
  "plain_name nm \<longleftrightarrow> nm \<noteq> [] \<and> list_all is_ascii_alphabetic nm"

lemma alphabetic_solid: "is_ascii_alphabetic c \<Longrightarrow> solid c \<and> c \<noteq> lparen \<and> c \<noteq> backslash"
  by (auto simp: is_ascii_alphabetic_def solid_def Let_def lparen_def backslash_def)

lemma plain_name_facts:
  assumes "plain_name nm"
  shows "trim nm = nm" "solid (hd nm)" "lparen \<notin> set nm" "backslash \<notin> set nm"
proof -
  have "\<forall>c\<in>set nm. solid c \<and> c \<noteq> lparen \<and> c \<noteq> backslash"
    using assms alphabetic_solid by (auto simp: plain_name_def list_all_iff)
  then show "trim nm = nm" "solid (hd nm)" "lparen \<notin> set nm" "backslash \<notin> set nm"
    using assms by (auto simp: plain_name_def intro!: trim_between)
qed

definition tool_names :: "string list" where
  "tool_names = [''Bash'', ''Read'', ''Edit'', ''Write'', ''MCPTool'', ''Grep'', ''Glob'', ''WebFetch'',
     ''WebSearch'', ''AgentMessage'', ''SendSubagentMessage'', ''SendAgentMessage'']"

lemma tool_names_plain: "list_all plain_name tool_names"
  by code_simp

lemma tool_name_listed: "tool_name_to_filter nm \<noteq> None \<Longrightarrow> nm \<in> set tool_names"
  unfolding tool_name_to_filter_def tool_names_def list.set
  by (simp only: split: if_split_asm) (simp_all only: insert_iff empty_iff simp_thms, (elim disjE; simp only: simp_thms)+)

lemma tool_name_plain: "tool_name_to_filter nm = Some t \<Longrightarrow> plain_name nm"
  using tool_name_listed [of nm] tool_names_plain by (simp add: list_all_iff)

definition render_rule :: "string \<Rightarrow> string \<Rightarrow> string" where
  "render_rule nm pat = nm @ lparen # escape_rule_content pat @ [rparen]"

lemma escape_ends:
  assumes "pat \<noteq> []" "solid (hd pat)" "solid (last pat)"
  shows "escape_rule_content pat \<noteq> []" "solid (hd (escape_rule_content pat))"
    "solid (last (escape_rule_content pat))"
proof -
  have bs: "solid backslash" by (simp add: solid_def backslash_def)
  show "escape_rule_content pat \<noteq> []" "solid (hd (escape_rule_content pat))"
    using assms bs by (cases pat; auto simp: escape_rule_content_def)+
  show "solid (last (escape_rule_content pat))"
    using assms bs by (cases pat rule: rev_cases) (auto simp: escape_rule_content_def)
qed

lemma escape_in_Nil_iff: "escape_in S s = [] \<longleftrightarrow> s = []"
  by (cases s) auto

lemma escape_not_star: "pat \<noteq> ''*'' \<Longrightarrow> escape_rule_content pat \<noteq> ''*''"
proof (cases pat)
  case (Cons c s)
  assume "pat \<noteq> ''*''"
  have "backslash \<noteq> CHR ''*''" by (simp add: backslash_def)
  with Cons \<open>pat \<noteq> ''*''\<close> show ?thesis
    by (simp add: escape_rule_content_def escape_in_Nil_iff)
qed (simp add: escape_rule_content_def)

lemma parse_rendered:
  assumes "tool_name_to_filter nm = Some t" and "pat \<noteq> []" "solid (hd pat)" "solid (last pat)" "pat \<noteq> ''*''"
  shows "parse_permission_rule (render_rule nm pat) act =
    (let (pat2, md) = strip_domain_prefix (if t = TF_Bash then strip_bash_colon_wildcard pat else pat)
     in Inr \<lparr>action = act, tool = t, pattern = opt_pattern pat2, mode = md\<rparr>)"
proof -
  have nm: "plain_name nm" by (rule tool_name_plain [OF assms(1)])
  note nf = plain_name_facts [OF nm]
  have tr: "trim (render_rule nm pat) = render_rule nm pat"
    using nm nf(2) by (intro trim_between) (auto simp: render_rule_def plain_name_def solid_def rparen_def)
  have tc: "trim (escape_rule_content pat) = escape_rule_content pat"
    using escape_ends [OF assms(2-4)] by (intro trim_between)
  have ff: "find_first_unescaped (render_rule nm pat) lparen = Some (length nm)"
    unfolding render_rule_def by (rule find_first_paren [OF nf(3,4)])
  show ?thesis
    using assms escape_ends(1) [OF assms(2-4)] escape_not_star [OF assms(5)]
    by (simp add: parse_permission_rule_def tr ff Let_def parse_tool_rule_def)
      (simp add: render_rule_def find_last_escaped nf(1) tc unescape_escape case_prod_beta Let_def)
qed

section \<open>Properties\<close>

text \<open>
  C20: writing a rule and parsing it gives the rule back: for every tool name and every pattern that
  begins and ends with a printable ASCII character, with parentheses and backslashes escaped, the
  parser returns exactly that pattern, as a glob, for that tool, provided the pattern does not use
  the special forms \<open>*\<close>, \<open>domain:\<close> and, for Bash, a trailing \<open>:*\<close>.
\<close>

theorem parse_inverts_rendering:
  assumes "tool_name_to_filter nm = Some t" and "pat \<noteq> []" and "solid (hd pat)" and "solid (last pat)"
    and "pat \<noteq> ''*''" and "\<not> prefix ''domain:'' pat" and "t = TF_Bash \<longrightarrow> \<not> suffix '':*'' pat"
  shows "parse_permission_rule (render_rule nm pat) act =
    Inr \<lparr>action = act, tool = t, pattern = Some pat, mode = Glob\<rparr>"
  using assms(2,6,7) parse_rendered [OF assms(1-5), of act]
  by (auto simp: strip_domain_prefix_def strip_bash_colon_wildcard_def strip_prefix_def strip_suffix_def
      opt_pattern_def)

lemma parse_inverts_rendering_witness:
  "parse_permission_rule (render_rule ''Bash'' ''echo (a) b'') RA_Deny =
     Inr \<lparr>action = RA_Deny, tool = TF_Bash, pattern = Some ''echo (a) b'', mode = Glob\<rparr>"
  by (rule parse_inverts_rendering) (code_simp+)

end
