(* ===== verification/Command_Words.thy ===== *)
theory Command_Words
  imports Rust_Str
begin

text \<open>
  \<open>permission/bash_command_splitting.rs\<close> of \<open>crates/codegen/xai-grok-workspace\<close>, on the words
  of one command: peeling the wrappers (\<open>timeout\<close>, \<open>env\<close>, \<open>nice\<close>, ...) and the transparent
  prefixes (\<open>exec\<close>, \<open>command\<close>, \<open>builtin\<close>) so that the rules see the command that runs. A
  slice of the argument vector is a list; every peel keeps a suffix of it, so the source's test
  for an unchanged slice (length and address) is equality of lengths here.
\<close>

section \<open>Peeling, one step and many\<close>

text \<open>A peel step takes something off the front and leaves a command behind.\<close>

locale peel_step =
  fixes peel :: "string list \<Rightarrow> string list option"
  assumes peel_shorter: "peel ws = Some inner \<Longrightarrow> strict_suffix inner ws"
    and peel_command: "peel ws = Some inner \<Longrightarrow> inner \<noteq> []"
begin

fun peel_upto :: "nat \<Rightarrow> string list \<Rightarrow> string list" where
  "peel_upto 0 ws = ws"
| "peel_upto (Suc n) ws = (case peel ws of None \<Rightarrow> ws | Some inner \<Rightarrow> peel_upto n inner)"

lemma peel_upto_suffix: "suffix (peel_upto n ws) ws"
proof (induction n arbitrary: ws)
  case (Suc n)
  show ?case
  proof (cases "peel ws")
    case (Some inner)
    then have "suffix inner ws" using peel_shorter by (simp add: strict_suffix_def)
    with Suc [of inner] Some show ?thesis by (auto intro: suffix_order.trans)
  qed simp
qed simp

lemma peel_upto_command: "ws \<noteq> [] \<Longrightarrow> peel_upto n ws \<noteq> []"
  by (induction n arbitrary: ws) (auto split: option.split dest: peel_command)

text \<open>As many rounds as there are words always reach the innermost command.\<close>

lemma peel_upto_done: "length ws \<le> n \<Longrightarrow> peel (peel_upto n ws) = None"
proof (induction n arbitrary: ws)
  case 0
  then show ?case using peel_shorter [of "[]"] by (cases "peel []") (auto simp: strict_suffix_def)
next
  case (Suc n)
  show ?case
  proof (cases "peel ws")
    case (Some inner)
    then have "length inner < length ws"
      using peel_shorter [OF Some] by (auto simp: strict_suffix_def suffix_def)
    with Suc Some show ?thesis by simp
  qed simp
qed

end

section \<open>\<open>env\<close>\<close>

definition is_env_assignment :: "string \<Rightarrow> bool" where
  "is_env_assignment tok =
     (case find_char CHR ''='' tok of
        None \<Rightarrow> False
      | Some eq \<Rightarrow>
          (let nm = take eq tok
           in nm \<noteq> [] \<and> (is_ascii_alphabetic (hd nm) \<or> hd nm = CHR ''_'')
              \<and> list_all (\<lambda>b. is_ascii_alphanumeric b \<or> b = CHR ''_'') nm))"

definition squote :: char where "squote = CHR 0x27"
definition dquote :: char where "dquote = CHR 0x22"

fun decode_spelling :: "char option \<Rightarrow> string \<Rightarrow> string option" where
  "decode_spelling quote [] = (if quote = None then Some [] else None)"
| "decode_spelling quote (c # cs) =
     (if quote = None \<and> (c = squote \<or> c = dquote) then decode_spelling (Some c) cs
      else if quote = Some c then decode_spelling None cs
      else if quote = None \<and> c = backslash then
        (case cs of [] \<Rightarrow> None | n # cs' \<Rightarrow> map_option ((#) n) (decode_spelling quote cs'))
      else if quote = Some dquote \<and> c = backslash then
        (case cs of [] \<Rightarrow> None
         | n # cs' \<Rightarrow>
             map_option (\<lambda>out. if n \<in> {CHR ''$'', CHR 0x60, dquote, backslash, CHR 0x0A} then n # out
                             else backslash # n # out)
               (decode_spelling quote cs'))
      else map_option ((#) c) (decode_spelling quote cs))"

definition decode_shell_literal_spelling :: "string \<Rightarrow> string option" where
  "decode_shell_literal_spelling raw = decode_spelling None raw"

definition decode_env_option_token :: "string \<Rightarrow> string" where
  "decode_env_option_token raw =
     (if squote \<notin> set raw \<and> dquote \<notin> set raw then raw
      else (case decode_shell_literal_spelling raw of Some decoded \<Rightarrow> decoded | None \<Rightarrow> raw))"

definition is_high_confidence_env_s_payload :: "string \<Rightarrow> bool" where
  "is_high_confidence_env_s_payload s \<longleftrightarrow> s \<noteq> [] \<and> CHR 0x00 \<notin> set s \<and>
     list_all (\<lambda>c. c \<notin> {squote, dquote, backslash, CHR ''#'', CHR 0x60, CHR ''$'', CHR 0x0A, CHR 0x0D}) s"

definition take_high_confidence_payload :: "string \<Rightarrow> string option" where
  "take_high_confidence_payload raw = (if is_high_confidence_env_s_payload raw then Some raw else None)"

datatype env_short =
    SplitStringNext
  | SplitStringGlued string
  | SplitStringDetect
  | NoArg
  | ArgNeedNext char
  | ArgGlued char
  | Uncertain

fun classify_cluster :: "string \<Rightarrow> env_short" where
  "classify_cluster [] = NoArg"
| "classify_cluster (c # cs) =
     (if c \<in> {CHR ''i'', CHR ''v'', CHR ''0''} then classify_cluster cs
      else if c = CHR ''S'' then SplitStringDetect
      else if c \<in> {CHR ''u'', CHR ''C'', CHR ''P'', CHR ''a''}
        then (if cs \<noteq> [] then ArgGlued c else ArgNeedNext c)
      else Uncertain)"

definition classify_env_short :: "string \<Rightarrow> env_short" where
  "classify_env_short tok =
     (if \<not> prefix ''-'' tok \<or> prefix ''--'' tok \<or> tok = ''-'' then Uncertain
      else (let body = tl tok
            in if body = [] then Uncertain
               else (case strip_prefix ''S'' body of
                       Some rest \<Rightarrow> (if rest = [] then SplitStringNext else SplitStringGlued rest)
                     | None \<Rightarrow> classify_cluster body)))"

record env_scan =
  chdir :: "string option"
  es_split_string :: bool
  es_uncertain :: bool
  split_string_script :: "string option"
  command_start :: nat

text \<open>What one token does to the scan: go on after one or two words, or stop.\<close>

datatype env_step = Next env_scan | Next2 env_scan | Break nat env_scan

definition mark_uncertain :: "env_scan \<Rightarrow> env_step" where
  "mark_uncertain s = Break 0 (s\<lparr>es_uncertain := True\<rparr>)"

definition split_next :: "string list \<Rightarrow> env_scan \<Rightarrow> env_step" where
  "split_next rest s =
     Break 0 (s\<lparr>es_split_string := True,
       split_string_script := (case rest of [] \<Rightarrow> split_string_script s
                               | raw # _ \<Rightarrow> take_high_confidence_payload raw)\<rparr>)"

definition env_long :: "string \<Rightarrow> string list \<Rightarrow> env_scan \<Rightarrow> env_step" where
  "env_long tok rest s =
     (if tok = ''--chdir'' then (case rest of dir # _ \<Rightarrow> Next2 (s\<lparr>chdir := Some dir\<rparr>) | [] \<Rightarrow> mark_uncertain s)
      else (case strip_prefix ''--chdir='' tok of
        Some dir \<Rightarrow> Next (s\<lparr>chdir := Some dir\<rparr>)
      | None \<Rightarrow>
        if tok \<in> {''--unset'', ''--path'', ''--argv0''}
          then (case rest of _ # _ \<Rightarrow> Next2 s | [] \<Rightarrow> mark_uncertain s)
        else if prefix ''--unset='' tok \<or> prefix ''--path='' tok \<or> prefix ''--argv0='' tok then Next s
        else if tok \<in> {''--ignore-environment'', ''--null'', ''--debug'', ''--version'', ''--help''} then Next s
        else if tok = ''--split-string'' then split_next rest s
        else (case strip_prefix ''--split-string='' tok of
          Some payload \<Rightarrow>
            (let payload' = (case strip_prefix ''--split-string='' (decode_env_option_token tok) of
                               Some p \<Rightarrow> p | None \<Rightarrow> payload)
             in Break 0 (s\<lparr>es_split_string := True,
                           split_string_script := take_high_confidence_payload payload'\<rparr>))
        | None \<Rightarrow> mark_uncertain s)))"

definition env_short_step :: "string \<Rightarrow> string list \<Rightarrow> env_scan \<Rightarrow> env_step" where
  "env_short_step tok_raw rest s =
     (case classify_env_short (decode_env_option_token tok_raw) of
        SplitStringNext \<Rightarrow> split_next rest s
      | SplitStringGlued payload \<Rightarrow>
          Break 0 (s\<lparr>es_split_string := True, split_string_script := take_high_confidence_payload payload\<rparr>)
      | SplitStringDetect \<Rightarrow> Break 0 (s\<lparr>es_split_string := True\<rparr>)
      | NoArg \<Rightarrow> Next s
      | ArgNeedNext k \<Rightarrow>
          (case rest of
             operand # _ \<Rightarrow> Next2 (if k = CHR ''C'' then s\<lparr>chdir := Some operand\<rparr> else s)
           | [] \<Rightarrow> mark_uncertain s)
      | ArgGlued k \<Rightarrow>
          Next (if k = CHR ''C''
                then s\<lparr>chdir := Some (case strip_prefix ''-C'' tok_raw of None \<Rightarrow> [] | Some d \<Rightarrow> d)\<rparr> else s)
      | Uncertain \<Rightarrow> mark_uncertain s)"

definition env_token :: "string \<Rightarrow> string list \<Rightarrow> env_scan \<Rightarrow> env_step" where
  "env_token tok rest s =
     (if tok = ''--'' then Break 1 s
      else if tok = ''-'' then Next s
      else if \<not> prefix ''-'' tok then (if is_env_assignment tok then Next s else Break 0 s)
      else if prefix ''--'' tok then env_long tok rest s
      else env_short_step tok rest s)"

fun env_loop :: "string list \<Rightarrow> nat \<Rightarrow> env_scan \<Rightarrow> env_scan" where
  "env_loop [] i s = s\<lparr>command_start := i\<rparr>"
| "env_loop (tok # rest) i s =
     (case env_token tok rest s of
        Break k s' \<Rightarrow> s'\<lparr>command_start := i + k\<rparr>
      | Next s' \<Rightarrow> env_loop rest (i + 1) s'
      | Next2 s' \<Rightarrow> (case rest of [] \<Rightarrow> s'\<lparr>command_start := i + 2\<rparr> | _ # rest' \<Rightarrow> env_loop rest' (i + 2) s'))"

definition scan_start :: env_scan where
  "scan_start = \<lparr>chdir = None, es_split_string = False, es_uncertain = False,
     split_string_script = None, command_start = 1\<rparr>"

definition env_scan_of :: "string list \<Rightarrow> env_scan" where
  "env_scan_of cmd = env_loop (drop 1 cmd) 1 scan_start"

definition env_split_string_script :: "string list \<Rightarrow> string option" where
  "env_split_string_script words =
     (case words of
        [] \<Rightarrow> None
      | w # _ \<Rightarrow>
          if basename w \<noteq> ''env'' then None
          else (let scan = env_scan_of words
                in if \<not> es_split_string scan then None else split_string_script scan))"

section \<open>Wrappers\<close>

text \<open>Skip the leading options; those in \<open>takes\<close> are followed by a value.\<close>

fun skip_options :: "(string \<Rightarrow> bool) \<Rightarrow> string list \<Rightarrow> string list" where
  "skip_options takes [] = []"
| "skip_options takes (t # ts) =
     (if \<not> prefix ''-'' t then t # ts
      else if takes t then (case ts of [] \<Rightarrow> [] | _ # ts' \<Rightarrow> skip_options takes ts')
      else skip_options takes ts)"

definition nonempty :: "'a list \<Rightarrow> 'a list option" where
  "nonempty xs = (if xs = [] then None else Some xs)"

text \<open>Skip one mandatory operand (a duration, a priority).\<close>

definition skip_operand :: "string list \<Rightarrow> string list option" where
  "skip_operand ts = (case ts of [] \<Rightarrow> None | _ # inner \<Rightarrow> nonempty inner)"

definition strip_wrapper_command :: "string list \<Rightarrow> string list option" where
  "strip_wrapper_command cmd =
     (case cmd of
        [] \<Rightarrow> None
      | w # args \<Rightarrow>
        (let h = basename w
         in if h = ''timeout'' then
              skip_operand (skip_options (\<lambda>t. t \<in> {''-k'', ''-s'', ''--kill-after'', ''--signal''}) args)
            else if h = ''nice'' then nonempty (skip_options (\<lambda>t. t \<in> {''-n'', ''--adjustment''}) args)
            else if h = ''ionice'' then
              nonempty (skip_options (\<lambda>t. t \<in> {''-c'', ''-n'', ''-p'', ''-P'', ''-u'', ''--class'',
                ''--classdata'', ''--pid'', ''--pgid'', ''--uid''}) args)
            else if h = ''chrt'' then skip_operand (skip_options (\<lambda>_. False) args)
            else if h = ''stdbuf'' then nonempty (skip_options (\<lambda>t. t \<in> {''-i'', ''-o'', ''-e''}) args)
            else if h = ''env'' then
              (let scan = env_scan_of cmd
               in if es_split_string scan \<or> es_uncertain scan then None
                  else nonempty (drop (command_start scan) cmd))
            else None))"

definition is_wrapper_command :: "string list \<Rightarrow> bool" where
  "is_wrapper_command words =
     (case words of
        [] \<Rightarrow> False
      | w # _ \<Rightarrow> basename w \<in> {''timeout'', ''nice'', ''ionice'', ''chrt'', ''stdbuf'', ''env''})"

definition MAX_WRAPPER_DEPTH :: nat where "MAX_WRAPPER_DEPTH = 8"
definition MAX_INLINE_SHELL_DEPTH :: nat where "MAX_INLINE_SHELL_DEPTH = 8"
definition MAX_TRANSPARENT_PREFIX_DEPTH :: nat where "MAX_TRANSPARENT_PREFIX_DEPTH = 8"
definition MAX_NORMALIZE_ROUNDS :: nat where
  "MAX_NORMALIZE_ROUNDS = MAX_WRAPPER_DEPTH + MAX_TRANSPARENT_PREFIX_DEPTH"

record wrapper_peel =
  wp_words :: "string list"
  wp_chdir :: bool
  wp_split_string :: bool
  wp_uncertain :: bool
  wp_exhausted :: bool

definition note_env :: "string list \<Rightarrow> wrapper_peel \<Rightarrow> wrapper_peel" where
  "note_env current p =
     (case current of
        [] \<Rightarrow> p
      | w # _ \<Rightarrow>
          if basename w = ''env''
          then (let scan = env_scan_of current
                in p\<lparr>wp_chdir := wp_chdir p \<or> chdir scan \<noteq> None,
                     wp_split_string := wp_split_string p \<or> es_split_string scan,
                     wp_uncertain := wp_uncertain p \<or> es_uncertain scan\<rparr>)
          else p)"

fun unwrap_loop :: "nat \<Rightarrow> wrapper_peel \<Rightarrow> wrapper_peel" where
  "unwrap_loop 0 p =
     p\<lparr>wp_exhausted := is_wrapper_command (wp_words p) \<and> strip_wrapper_command (wp_words p) \<noteq> None\<rparr>"
| "unwrap_loop (Suc n) p =
     (let p1 = note_env (wp_words p) p
      in (case strip_wrapper_command (wp_words p) of
            Some inner \<Rightarrow> unwrap_loop n (p1\<lparr>wp_words := inner\<rparr>)
          | None \<Rightarrow> p1\<lparr>wp_exhausted := False\<rparr>))"

definition unwrap_wrappers_checked :: "string list \<Rightarrow> wrapper_peel" where
  "unwrap_wrappers_checked words = unwrap_loop MAX_WRAPPER_DEPTH
     \<lparr>wp_words = words, wp_chdir = False, wp_split_string = False, wp_uncertain = False, wp_exhausted = False\<rparr>"

definition unwrap_wrappers :: "string list \<Rightarrow> string list" where
  "unwrap_wrappers words = wp_words (unwrap_wrappers_checked words)"

section \<open>Transparent prefixes\<close>

datatype transparent_strip = NotPrefix | Peeled "string list" | Ambiguous

definition peeled_or_none :: "string list \<Rightarrow> transparent_strip" where
  "peeled_or_none inner = (if inner = [] then NotPrefix else Peeled inner)"

definition NUL :: string where "NUL = [CHR 0x00]"

fun exec_loop :: "string list \<Rightarrow> transparent_strip" where
  "exec_loop [] = NotPrefix"
| "exec_loop (tok # rest) =
     (if tok = ''--'' then peeled_or_none rest
      else if tok = ''-'' \<or> \<not> prefix ''-'' tok then Peeled (tok # rest)
      else if tok \<in> {''-c'', ''-l'', ''-cl'', ''-lc''} then exec_loop rest
      else if tok = ''-a'' then
        (case rest of v # rest' \<Rightarrow> if v \<noteq> NUL \<and> v \<noteq> [] then exec_loop rest' else Ambiguous | [] \<Rightarrow> Ambiguous)
      else if prefix ''-a'' tok then (if drop 2 tok = NUL then Ambiguous else exec_loop rest)
      else if \<not> prefix ''--'' tok \<and> list_all (\<lambda>c. c = CHR ''c'' \<or> c = CHR ''l'') (tl tok) then exec_loop rest
      else Ambiguous)"

fun command_loop :: "string list \<Rightarrow> transparent_strip" where
  "command_loop [] = NotPrefix"
| "command_loop (tok # rest) =
     (if tok = ''--'' then peeled_or_none rest
      else if tok = ''-'' \<or> \<not> prefix ''-'' tok then Peeled (tok # rest)
      else if tok \<in> {''-v'', ''-V'', ''--help'', ''--version''}
          \<or> (\<not> prefix ''--'' tok \<and> list_ex (\<lambda>c. c = CHR ''v'' \<or> c = CHR ''V'') (tl tok)) then NotPrefix
      else if tok = ''-p'' \<or> (\<not> prefix ''--'' tok \<and> list_all (\<lambda>c. c = CHR ''p'') (tl tok)) then command_loop rest
      else Ambiguous)"

definition strip_builtin_prefix :: "string list \<Rightarrow> transparent_strip" where
  "strip_builtin_prefix cmd =
     (case drop 1 cmd of
        [] \<Rightarrow> NotPrefix
      | tok # rest \<Rightarrow> if prefix ''-'' tok \<and> tok \<noteq> ''-'' then Ambiguous else Peeled (tok # rest))"

definition strip_exec_prefix :: "string list \<Rightarrow> transparent_strip" where
  "strip_exec_prefix cmd = exec_loop (drop 1 cmd)"

definition strip_command_prefix :: "string list \<Rightarrow> transparent_strip" where
  "strip_command_prefix cmd = command_loop (drop 1 cmd)"

definition strip_transparent_prefix :: "string list \<Rightarrow> transparent_strip" where
  "strip_transparent_prefix cmd =
     (case cmd of
        [] \<Rightarrow> NotPrefix
      | h # _ \<Rightarrow>
          if h = [] \<or> h = NUL then NotPrefix
          else if basename h = ''exec'' then strip_exec_prefix cmd
          else if basename h = ''command'' then strip_command_prefix cmd
          else if basename h = ''builtin'' then strip_builtin_prefix cmd
          else NotPrefix)"

text \<open>\<open>None\<close> is the source's \<open>Ambiguous\<close>.\<close>

fun peel_loop :: "nat \<Rightarrow> string list \<Rightarrow> string list option" where
  "peel_loop 0 current =
     (case strip_transparent_prefix current of NotPrefix \<Rightarrow> Some current | _ \<Rightarrow> None)"
| "peel_loop (Suc n) current =
     (case strip_transparent_prefix current of
        NotPrefix \<Rightarrow> Some current
      | Peeled inner \<Rightarrow> peel_loop n inner
      | Ambiguous \<Rightarrow> None)"

definition peel_transparent_prefixes :: "string list \<Rightarrow> string list option" where
  "peel_transparent_prefixes words = peel_loop MAX_TRANSPARENT_PREFIX_DEPTH words"

section \<open>Normalization\<close>

record command_peel =
  words :: "string list"
  has_chdir :: bool
  has_split_string :: bool
  env_options_uncertain :: bool
  exhausted :: bool
  ambiguous :: bool

text \<open>One round: wrappers, then prefixes; the flag tells whether to go on.\<close>

definition normalize_round :: "command_peel \<Rightarrow> command_peel \<times> bool" where
  "normalize_round p =
     (let start_len = length (words p);
          w = unwrap_wrappers_checked (words p);
          p1 = p\<lparr>has_chdir := has_chdir p \<or> wp_chdir w,
                 has_split_string := has_split_string p \<or> wp_split_string w,
                 env_options_uncertain := env_options_uncertain p \<or> wp_uncertain w,
                 exhausted := exhausted p \<or> wp_exhausted w,
                 words := wp_words w\<rparr>
      in if has_split_string p1 \<or> env_options_uncertain p1 then (p1, False)
         else (case peel_transparent_prefixes (words p1) of
                 None \<Rightarrow> (p1\<lparr>ambiguous := True\<rparr>, False)
               | Some inner \<Rightarrow> (p1\<lparr>words := inner\<rparr>, length inner \<noteq> start_len)))"

fun normalize_loop :: "nat \<Rightarrow> command_peel \<Rightarrow> command_peel" where
  "normalize_loop 0 p = p"
| "normalize_loop (Suc n) p =
     (let (p', again) = normalize_round p in if again then normalize_loop n p' else p')"

definition normalize_finish :: "command_peel \<Rightarrow> command_peel" where
  "normalize_finish p =
     (if \<not> ambiguous p \<and> \<not> has_split_string p \<and> \<not> env_options_uncertain p
      then (let still_wrapper = is_wrapper_command (words p) \<and> strip_wrapper_command (words p) \<noteq> None;
                still_transparent = strip_transparent_prefix (words p) \<noteq> NotPrefix
            in if still_wrapper \<or> still_transparent then p\<lparr>exhausted := True\<rparr> else p)
      else p)"

definition normalize_command_words :: "string list \<Rightarrow> command_peel" where
  "normalize_command_words ws = normalize_finish (normalize_loop MAX_NORMALIZE_ROUNDS
     \<lparr>words = ws, has_chdir = False, has_split_string = False, env_options_uncertain = False,
      exhausted = False, ambiguous = False\<rparr>)"

text \<open>The callers of the policy give up on a command when any of these flags is up.\<close>

definition peel_failed :: "command_peel \<Rightarrow> bool" where
  "peel_failed p \<longleftrightarrow> exhausted p \<or> ambiguous p \<or> env_options_uncertain p \<or> has_split_string p"

definition is_setup_command :: "string list \<Rightarrow> bool" where
  "is_setup_command cmd =
     (case cmd of
        [] \<Rightarrow> True
      | w # _ \<Rightarrow> w \<in> {''cd'', ''pushd'', ''popd'', ''export'', ''unset'', ''set'', ''sleep'', ''timeout''})"

section \<open>Splitting for display\<close>

text \<open>A character is white space when one of its encodings begins there.\<close>

function sh_split :: "string \<Rightarrow> string \<Rightarrow> bool \<Rightarrow> bool \<Rightarrow> string list" where
  "sh_split [] current in_s in_d = (if current \<noteq> [] then [current] else [])"
| "sh_split (c # cs) current in_s in_d =
     (if c = squote \<and> \<not> in_d then sh_split cs current (\<not> in_s) in_d
      else if c = dquote \<and> \<not> in_s then sh_split cs current in_s (\<not> in_d)
      else if c = backslash then
        (case cs of [] \<Rightarrow> sh_split [] current in_s in_d
                  | n # cs' \<Rightarrow> sh_split cs' (current @ [n]) in_s in_d)
      else (case (if in_s \<or> in_d then None else find (\<lambda>w. prefix w (c # cs)) whitespace) of
              Some w \<Rightarrow>
                (if current \<noteq> [] then current # sh_split (drop (length w - 1) cs) [] in_s in_d
                 else sh_split (drop (length w - 1) cs) current in_s in_d)
            | None \<Rightarrow> sh_split cs (current @ [c]) in_s in_d))"
  by pat_completeness auto
termination by (relation "measure (\<lambda>(s, _). length s)") auto

definition sh_split_simple :: "string \<Rightarrow> string list" where
  "sh_split_simple s = sh_split s [] False False"

section \<open>Peels are suffixes\<close>

lemma suffix_Cons1: "suffix xs ys \<Longrightarrow> suffix xs (y # ys)"
  by (simp add: suffix_Cons)

lemma suffix_Cons2: "suffix xs ys \<Longrightarrow> suffix xs (x # y # ys)"
  by (simp add: suffix_Cons)

lemma skip_options_suffix: "suffix (skip_options takes ts) ts"
proof (induction takes ts rule: skip_options.induct)
  case (2 takes t ts)
  then show ?case
    by (cases "takes t"; cases ts) (auto simp del: skip_options.simps(2) simp: skip_options.simps(2) [of takes t]
        intro: suffix_Cons1 suffix_Cons2)
qed simp

lemma nonempty_Some_iff [simp]: "nonempty xs = Some ys \<longleftrightarrow> xs = ys \<and> ys \<noteq> []"
  by (auto simp: nonempty_def)

lemma skip_operand_Some_iff: "skip_operand ts = Some inner \<longleftrightarrow> (\<exists>d. ts = d # inner) \<and> inner \<noteq> []"
  by (auto simp: skip_operand_def split: list.split)

lemma suffix_args: "suffix xs args \<Longrightarrow> strict_suffix xs (w # args)"
  by (auto simp: strict_suffix_def suffix_def)

lemma env_loop_start: "i \<le> command_start (env_loop ts i s)"
proof (induction ts i s rule: env_loop.induct)
  case (2 tok rest i s)
  show ?case
  proof (cases "env_token tok rest s")
    case (Next s')
    then show ?thesis using "2.IH"(1) [OF Next] by simp
  next
    case (Next2 s')
    then show ?thesis
      using "2.IH"(2) [OF Next2] by (cases rest) fastforce+
  qed simp
qed simp

lemma strict_suffix_skip: "skip_options t args = xs \<Longrightarrow> strict_suffix xs (w # args)"
  by (metis skip_options_suffix suffix_args)

lemma strict_suffix_skip1: "skip_options t args = d # inner \<Longrightarrow> strict_suffix inner (w # args)"
  by (metis skip_options_suffix suffix_args suffix_ConsD)

lemma strict_suffix_env: "strict_suffix (drop (command_start (env_scan_of (w # args))) (w # args)) (w # args)"
proof -
  have "1 \<le> command_start (env_scan_of (w # args))" unfolding env_scan_of_def by (rule env_loop_start)
  then obtain n where "command_start (env_scan_of (w # args)) = Suc n" by (cases "command_start (env_scan_of (w # args))") auto
  then show ?thesis by (simp add: suffix_args suffix_drop)
qed

lemma strip_wrapper_suffix: "strip_wrapper_command ws = Some inner \<Longrightarrow> strict_suffix inner ws"
  by (cases ws)
    (auto simp: strip_wrapper_command_def skip_operand_Some_iff Let_def strict_suffix_skip
      strict_suffix_skip1 strict_suffix_env split: if_splits)

lemma strip_wrapper_command_left: "strip_wrapper_command ws = Some inner \<Longrightarrow> inner \<noteq> []"
  by (auto simp: strip_wrapper_command_def skip_operand_Some_iff Let_def split: list.splits if_splits)

interpretation wrapper: peel_step strip_wrapper_command
  by unfold_locales (simp_all add: strip_wrapper_suffix strip_wrapper_command_left)

lemma exec_loop_cases:
  "exec_loop (tok # rest) = Peeled inner \<Longrightarrow>
     (inner = rest \<and> rest \<noteq> []) \<or> inner = tok # rest \<or> exec_loop rest = Peeled inner
     \<or> (\<exists>v rest'. rest = v # rest' \<and> exec_loop rest' = Peeled inner)"
  unfolding exec_loop.simps peeled_or_none_def
  by (simp only: split: if_split_asm list.split_asm) (simp_all only: transparent_strip.inject
      transparent_strip.distinct list.inject simp_thms ex_simps, (blast+)?)

lemma exec_loop_suffix: "exec_loop ts = Peeled inner \<Longrightarrow> suffix inner ts \<and> inner \<noteq> []"
proof (induction "length ts" arbitrary: ts rule: less_induct)
  case less
  show ?case
  proof (cases ts)
    case (Cons tok rest)
    with less.prems have "exec_loop (tok # rest) = Peeled inner" by simp
    then consider "inner = rest" "rest \<noteq> []" | "inner = tok # rest" | "exec_loop rest = Peeled inner"
      | v rest' where "rest = v # rest'" "exec_loop rest' = Peeled inner"
      using exec_loop_cases by blast
    then show ?thesis
    proof cases
      case 3
      with less.hyps [of rest] Cons show ?thesis by (simp add: suffix_Cons1)
    next
      case 4
      with less.hyps [of rest'] Cons show ?thesis by (simp add: suffix_Cons2)
    qed (use Cons in \<open>simp_all add: suffix_Cons1\<close>)
  qed (use less.prems in simp)
qed

lemma command_loop_cases:
  "command_loop (tok # rest) = Peeled inner \<Longrightarrow>
     (inner = rest \<and> rest \<noteq> []) \<or> inner = tok # rest \<or> command_loop rest = Peeled inner"
  unfolding command_loop.simps peeled_or_none_def
  by (simp only: split: if_split_asm) (simp_all only: transparent_strip.inject
      transparent_strip.distinct simp_thms, (blast+)?)

lemma command_loop_suffix: "command_loop ts = Peeled inner \<Longrightarrow> suffix inner ts \<and> inner \<noteq> []"
proof (induction ts)
  case (Cons tok rest)
  then consider "inner = rest" "rest \<noteq> []" | "inner = tok # rest" | "command_loop rest = Peeled inner"
    using command_loop_cases by blast
  then show ?case using Cons.IH by cases (simp_all add: suffix_Cons1)
qed simp

definition peel_transparent :: "string list \<Rightarrow> string list option" where
  "peel_transparent ws = (case strip_transparent_prefix ws of Peeled inner \<Rightarrow> Some inner | _ \<Rightarrow> None)"

lemma strip_transparent_suffix:
  "strip_transparent_prefix ws = Peeled inner \<Longrightarrow> strict_suffix inner ws \<and> inner \<noteq> []"
  by (cases ws) (auto simp: strip_transparent_prefix_def strip_exec_prefix_def strip_command_prefix_def
      strip_builtin_prefix_def suffix_args dest!: exec_loop_suffix command_loop_suffix
      split: if_splits list.splits)

interpretation transparent: peel_step peel_transparent
  by unfold_locales (auto simp: peel_transparent_def dest: strip_transparent_suffix split: transparent_strip.splits)

section \<open>What normalization leaves\<close>

lemma wp_words_note_env [simp]: "wp_words (note_env ws p) = wp_words p"
  by (simp add: note_env_def Let_def split: list.split)

lemma unwrap_words: "wp_words (unwrap_loop n p) = wrapper.peel_upto n (wp_words p)"
  by (induction n p rule: unwrap_loop.induct) (simp_all add: Let_def split: option.split)

lemma unwrap_suffix: "suffix (wp_words (unwrap_wrappers_checked ws)) ws"
  by (simp add: unwrap_wrappers_checked_def unwrap_words wrapper.peel_upto_suffix)

lemma unwrap_command: "ws \<noteq> [] \<Longrightarrow> wp_words (unwrap_wrappers_checked ws) \<noteq> []"
  by (simp add: unwrap_wrappers_checked_def unwrap_words wrapper.peel_upto_command)

lemma peel_loop_words: "peel_loop n ws = Some out \<Longrightarrow> out = transparent.peel_upto n ws"
  by (induction n ws rule: peel_loop.induct)
    (simp_all add: peel_transparent_def split: transparent_strip.splits)

lemma normalize_round_words:
  "suffix (words (fst (normalize_round p))) (words p)
   \<and> (words p \<noteq> [] \<longrightarrow> words (fst (normalize_round p)) \<noteq> [])"
proof -
  let ?w = "wp_words (unwrap_wrappers_checked (words p))"
  have "suffix out (words p) \<and> (words p \<noteq> [] \<longrightarrow> out \<noteq> [])" if "peel_transparent_prefixes ?w = Some out" for out
    using peel_loop_words [OF that [unfolded peel_transparent_prefixes_def]]
      transparent.peel_upto_suffix transparent.peel_upto_command unwrap_suffix unwrap_command
    by (metis suffix_order.trans)
  then show ?thesis
    by (simp add: normalize_round_def Let_def unwrap_suffix unwrap_command split: option.split)
qed

lemma normalize_loop_words:
  "suffix (words (normalize_loop n p)) (words p) \<and> (words p \<noteq> [] \<longrightarrow> words (normalize_loop n p) \<noteq> [])"
proof (induction n arbitrary: p)
  case (Suc n)
  then show ?case
    using normalize_round_words [of p] Suc [of "fst (normalize_round p)"]
    by (auto simp: case_prod_beta intro: suffix_order.trans)
qed simp

lemma words_finish [simp]: "words (normalize_finish p) = words p"
  by (simp add: normalize_finish_def Let_def)

lemma normalize_words:
  "suffix (words (normalize_command_words ws)) ws"
  "ws \<noteq> [] \<Longrightarrow> words (normalize_command_words ws) \<noteq> []"
  using normalize_loop_words [of MAX_NORMALIZE_ROUNDS "\<lparr>words = ws, has_chdir = False,
      has_split_string = False, env_options_uncertain = False, exhausted = False, ambiguous = False\<rparr>"]
  by (simp_all add: normalize_command_words_def)

lemma strip_not_wrapper: "\<not> is_wrapper_command ws \<Longrightarrow> strip_wrapper_command ws = None"
  by (cases ws) (auto simp: strip_wrapper_command_def is_wrapper_command_def Let_def split: if_splits)

lemma finish_done:
  "\<not> peel_failed (normalize_finish p) \<Longrightarrow>
     strip_wrapper_command (words p) = None \<and> strip_transparent_prefix (words p) = NotPrefix"
  using strip_not_wrapper [of "words p"]
  by (auto simp: normalize_finish_def peel_failed_def Let_def split: if_splits)

section \<open>When the rounds are enough\<close>

lemma round_again:
  "normalize_round p = (p', True) \<Longrightarrow> length (words p') < length (words p)"
proof -
  assume r: "normalize_round p = (p', True)"
  then have "suffix (words p') (words p)" using normalize_round_words [of p] by simp
  moreover have "length (words p') \<noteq> length (words p)"
    using r by (auto simp: normalize_round_def Let_def split: if_split_asm option.splits)
  ultimately show ?thesis using suffix_length_le [of "words p'" "words p"] by linarith
qed

lemma loop_settles:
  "words p \<noteq> [] \<Longrightarrow> length (words p) \<le> n \<Longrightarrow>
     (\<exists>q. normalize_round q = (normalize_loop n p, False)) \<and> (\<forall>m\<ge>n. normalize_loop m p = normalize_loop n p)"
proof (induction n arbitrary: p)
  case (Suc n)
  obtain p' again where r: "normalize_round p = (p', again)" by force
  show ?case
  proof (cases again)
    case True
    with r have "length (words p') < length (words p)" and ne: "words p' \<noteq> []"
      using round_again [of p p'] normalize_round_words [of p] Suc.prems(1) by simp_all
    then have len: "length (words p') \<le> n" using Suc.prems(2) by linarith
    note IH = conjunct1 [OF Suc.IH [OF ne len]] conjunct2 [OF Suc.IH [OF ne len]]
    have "normalize_loop m p = normalize_loop (Suc n) p" if "Suc n \<le> m" for m
    proof -
      from that obtain k where m: "m = Suc k" "n \<le> k" by (cases m) auto
      from IH(2) m(2) have "normalize_loop k p' = normalize_loop n p'" by blast
      with r True m(1) show ?thesis by simp
    qed
    moreover have "normalize_loop (Suc n) p = normalize_loop n p'" using r True by simp
    ultimately show ?thesis using IH(1) by metis
  next
    case False
    have "normalize_loop m p = p'" if "Suc n \<le> m" for m
      using that r False by (cases m) simp_all
    then have all: "\<forall>m\<ge>Suc n. normalize_loop m p = p'" by blast
    with r False show ?thesis by (metis le_refl)
  qed
qed simp

definition env_open_question :: "string list \<Rightarrow> bool" where
  "env_open_question ws \<longleftrightarrow>
     (case ws of [] \<Rightarrow> False
      | w # _ \<Rightarrow> basename w = ''env'' \<and> (es_split_string (env_scan_of ws) \<or> es_uncertain (env_scan_of ws)))"

lemma unwrap_unchanged:
  assumes "wp_words (unwrap_wrappers_checked ws) = ws"
  shows "strip_wrapper_command ws = None"
    and "env_open_question ws \<Longrightarrow> wp_split_string (unwrap_wrappers_checked ws) \<or> wp_uncertain (unwrap_wrappers_checked ws)"
proof -
  obtain k where eight: "MAX_WRAPPER_DEPTH = Suc k" by (cases MAX_WRAPPER_DEPTH) (simp add: MAX_WRAPPER_DEPTH_def)
  show strip: "strip_wrapper_command ws = None"
  proof (rule ccontr)
    assume "strip_wrapper_command ws \<noteq> None"
    then obtain inner where inner: "strip_wrapper_command ws = Some inner" by auto
    with assms have "suffix ws inner"
      using wrapper.peel_upto_suffix [of k inner]
      by (simp add: unwrap_wrappers_checked_def unwrap_words eight)
    with strip_wrapper_suffix [OF inner] show False by (simp add: suffix_order.less_le_not_le)
  qed
  show "wp_split_string (unwrap_wrappers_checked ws) \<or> wp_uncertain (unwrap_wrappers_checked ws)" if "env_open_question ws"
    using that strip
    by (cases ws) (auto simp: unwrap_wrappers_checked_def eight note_env_def env_open_question_def Let_def)
qed

lemma settled_round:
  assumes "normalize_round q = (p, False)" and "\<not> ambiguous p"
    and "\<not> has_split_string p" and "\<not> env_options_uncertain p"
  shows "\<not> env_open_question (words p)"
proof -
  let ?w = "unwrap_wrappers_checked (words q)"
  obtain inner where inner: "peel_transparent_prefixes (wp_words ?w) = Some inner" "length inner = length (words q)"
    and p: "words p = inner" "\<not> wp_split_string ?w" "\<not> wp_uncertain ?w"
    using assms by (auto simp: normalize_round_def Let_def split: if_split_asm option.split_asm)
  have "suffix inner (wp_words ?w)"
    using peel_loop_words [OF inner(1) [unfolded peel_transparent_prefixes_def]] transparent.peel_upto_suffix by simp
  then have "wp_words ?w = words q" "inner = words q"
    using unwrap_suffix [of "words q"] inner(2) by (auto simp: suffix_def)
  with unwrap_unchanged(2) [of "words q"] p show ?thesis by auto
qed

lemma finish_flags:
  "\<not> peel_failed (normalize_finish p) \<Longrightarrow> \<not> ambiguous p \<and> \<not> has_split_string p \<and> \<not> env_options_uncertain p"
  by (auto simp: peel_failed_def normalize_finish_def Let_def split: if_split_asm)

section \<open>Well-formed invocations of \<open>env\<close>\<close>

fun env_group :: "string list \<Rightarrow> bool" where
  "env_group [t] \<longleftrightarrow> t \<in> {''-'', ''-i'', ''-v'', ''-0'', ''--ignore-environment'', ''--null'', ''--debug''}
     \<or> (\<not> prefix ''-'' t \<and> is_env_assignment t)"
| "env_group [t, v] \<longleftrightarrow> t \<in> {''-u'', ''-C'', ''-P'', ''-a'', ''--unset'', ''--chdir'', ''--path'', ''--argv0''}"
| "env_group _ = False"

definition scan_ok :: "env_scan \<Rightarrow> bool" where
  "scan_ok s \<longleftrightarrow> \<not> es_split_string s \<and> \<not> es_uncertain s"

lemma decode_plain: "squote \<notin> set t \<Longrightarrow> dquote \<notin> set t \<Longrightarrow> decode_env_option_token t = t"
  by (simp add: decode_env_option_token_def)

lemma decode_no_quote: "list_all (\<lambda>c. c \<noteq> CHR 0x27 \<and> c \<noteq> CHR 0x22) t \<Longrightarrow> decode_env_option_token t = t"
  unfolding squote_def [symmetric] dquote_def [symmetric] list_all_iff
  by (rule decode_plain) blast+

lemmas env_token_simps = env_token_def env_long_def env_short_step_def decode_no_quote
  classify_env_short_def strip_prefix_def

lemma env_token_single: "env_group [t] \<Longrightarrow> env_token t rest s = Next s"
proof -
  assume "env_group [t]"
  then have "t \<in> {''-'', ''-i'', ''-v'', ''-0'', ''--ignore-environment'', ''--null'', ''--debug''}
      \<or> (\<not> prefix ''-'' t \<and> is_env_assignment t)"
    by (simp only: env_group.simps)
  then show ?thesis
  proof (elim disjE conjE)
    assume "\<not> prefix ''-'' t" "is_env_assignment t"
    moreover from this have "t \<noteq> ''--''" "t \<noteq> ''-''" by auto
    ultimately show ?thesis by (simp add: env_token_def)
  next
    assume "t \<in> {''-'', ''-i'', ''-v'', ''-0'', ''--ignore-environment'', ''--null'', ''--debug''}"
    then show ?thesis by (elim insertE emptyE; hypsubst; simp add: env_token_simps)
  qed
qed

lemma env_token_pairs:
  "env_token ''-u'' (v # rest) s = Next2 s" "env_token ''-C'' (v # rest) s = Next2 (s\<lparr>chdir := Some v\<rparr>)"
  "env_token ''-P'' (v # rest) s = Next2 s" "env_token ''-a'' (v # rest) s = Next2 s"
  "env_token ''--unset'' (v # rest) s = Next2 s" "env_token ''--path'' (v # rest) s = Next2 s"
  "env_token ''--argv0'' (v # rest) s = Next2 s"
  "env_token ''--chdir'' (v # rest) s = Next2 (s\<lparr>chdir := Some v\<rparr>)"
  by code_simp+

lemma env_token_pair:
  assumes "env_group [t, v]"
  shows "\<exists>s'. env_token t (v # rest) s = Next2 s' \<and> scan_ok s' = scan_ok s"
proof -
  have "t \<in> {''-u'', ''-C'', ''-P'', ''-a'', ''--unset'', ''--chdir'', ''--path'', ''--argv0''}"
    using assms by simp
  then show ?thesis
    by (elim insertE emptyE; hypsubst; unfold env_token_pairs; simp add: scan_ok_def)
qed

lemma env_group_cases:
  assumes "env_group g"
  obtains (single) t where "g = [t]" | (pair) t v where "g = [t, v]"
  using assms by (cases g rule: env_group.cases) auto

lemma env_loop_group:
  assumes "env_group g"
  shows "\<exists>s'. env_loop (g @ rest) i s = env_loop rest (i + length g) s' \<and> scan_ok s' = scan_ok s"
  using assms
proof (cases g rule: env_group_cases)
  case (single t)
  with assms show ?thesis using env_token_single [of t rest s] by auto
next
  case (pair t v)
  with assms env_token_pair [of t v rest s] show ?thesis by auto
qed

lemma env_loop_groups:
  "\<forall>g\<in>set gs. env_group g \<Longrightarrow>
     \<exists>s'. env_loop (concat gs @ rest) i s = env_loop rest (i + length (concat gs)) s' \<and> scan_ok s' = scan_ok s"
proof (induction gs arbitrary: i s)
  case (Cons g gs)
  from env_loop_group [of g "concat gs @ rest" i s] Cons.prems obtain s' where
    1: "env_loop (g @ concat gs @ rest) i s = env_loop (concat gs @ rest) (i + length g) s'" "scan_ok s' = scan_ok s"
    by auto
  from Cons.IH [of "i + length g" s'] Cons.prems obtain s'' where
    "env_loop (concat gs @ rest) (i + length g) s' = env_loop rest (i + length g + length (concat gs)) s''"
    "scan_ok s'' = scan_ok s'"
    by auto
  with 1 show ?case by (auto simp: add.assoc)
qed auto

lemma env_loop_command:
  "\<not> prefix ''-'' c \<Longrightarrow> \<not> is_env_assignment c \<Longrightarrow> env_loop (c # args) i s = s\<lparr>command_start := i\<rparr>"
  by (auto simp: env_token_def)

section \<open>Quoting\<close>

text \<open>The shell's way to write an arbitrary word: quote it, and each quote in it on its own.\<close>

definition quote_char :: "char \<Rightarrow> string" where
  "quote_char c = (if c = squote then [squote, backslash, squote, squote] else [c])"

definition shell_quote :: "string \<Rightarrow> string" where
  "shell_quote s = squote # concat (map quote_char s) @ [squote]"

lemma quote_chars_distinct [simp]: "squote \<noteq> backslash" "dquote \<noteq> backslash" "squote \<noteq> dquote"
  "backslash \<noteq> squote" "backslash \<noteq> dquote" "dquote \<noteq> squote"
  by (simp_all add: squote_def dquote_def backslash_def)

lemma decode_quoted: "decode_spelling (Some squote) (concat (map quote_char s) @ [squote]) = Some s"
  by (induction s) (simp_all add: quote_char_def)

section \<open>Properties\<close>

text \<open>
  C19: what the rules are matched against is what runs: normalization returns the tail of the
  words it was given, never drops the whole command, and when it raises no flag nothing is left to
  peel: the command is headed by neither a wrapper with a command behind it nor a transparent prefix.
\<close>

theorem normalization_reaches_the_command:
  "suffix (words (normalize_command_words ws)) ws
   \<and> (ws \<noteq> [] \<longrightarrow> words (normalize_command_words ws) \<noteq> [])
   \<and> (\<not> peel_failed (normalize_command_words ws) \<longrightarrow>
        strip_wrapper_command (words (normalize_command_words ws)) = None
        \<and> strip_transparent_prefix (words (normalize_command_words ws)) = NotPrefix)"
  using normalize_words finish_done unfolding normalize_command_words_def by (metis words_finish)

lemma normalization_reaches_the_command_witness:
  "strip_wrapper_command (words (normalize_command_words [''timeout'', ''30'', ''command'', ''nice'', ''rm'', ''x''])) = None"
proof -
  have "\<not> peel_failed (normalize_command_words [''timeout'', ''30'', ''command'', ''nice'', ''rm'', ''x''])"
    by code_simp
  then show ?thesis
    using normalization_reaches_the_command [of "[''timeout'', ''30'', ''command'', ''nice'', ''rm'', ''x'']"] by blast
qed

text \<open>
  C18: \<open>env\<close> hides nothing: any interleaving of assignments and modelled options, with their
  operands, is peeled to exactly the command behind it.
\<close>

theorem env_peels_to_command:
  assumes "basename w = ''env''" and "\<forall>g\<in>set gs. env_group g"
    and "\<not> prefix ''-'' c" and "\<not> is_env_assignment c"
  shows "strip_wrapper_command (w # concat gs @ c # args) = Some (c # args)"
proof -
  obtain s' where "env_scan_of (w # concat gs @ c # args) = s'\<lparr>command_start := 1 + length (concat gs)\<rparr>"
    and "scan_ok s' = scan_ok scan_start"
    using env_loop_groups [OF assms(2), of "c # args" 1 scan_start] env_loop_command [OF assms(3,4)]
    by (auto simp: env_scan_of_def)
  then show ?thesis
    using assms(1) by (simp add: strip_wrapper_command_def scan_ok_def scan_start_def Let_def nonempty_def)
qed

lemma env_peels_to_command_witness:
  "strip_wrapper_command [''/usr/bin/env'', ''A=1'', ''-u'', ''B'', ''-i'', ''rm'', ''-rf'', ''/''] = Some [''rm'', ''-rf'', ''/'']"
proof -
  have "basename ''/usr/bin/env'' = ''env''" by code_simp
  moreover have "\<forall>g\<in>set [[''A=1''], [''-u'', ''B''], [''-i'']]. env_group g" by code_simp
  moreover have "\<not> prefix ''-'' ''rm''" "\<not> is_env_assignment ''rm''" by code_simp+
  ultimately show ?thesis
    using env_peels_to_command [of "''/usr/bin/env''" "[[''A=1''], [''-u'', ''B''], [''-i'']]" "''rm''" "[''-rf'', ''/'']"]
    by simp
qed

text \<open>
  A long option of \<open>stdbuf\<close> with its value in the next word is taken for an option without
  one: the value is left as the head of the command, no flag is raised, and the rules never see
  the command that runs.
\<close>

theorem stdbuf_long_option_hides_command:
  "words (normalize_command_words [''stdbuf'', ''--output'', ''L'', ''rm'', ''-rf'', ''/'']) = [''L'', ''rm'', ''-rf'', ''/'']
   \<and> \<not> peel_failed (normalize_command_words [''stdbuf'', ''--output'', ''L'', ''rm'', ''-rf'', ''/''])
   \<and> words (normalize_command_words [''stdbuf'', ''-o'', ''L'', ''rm'', ''-rf'', ''/'']) = [''rm'', ''-rf'', ''/'']"
  by code_simp

text \<open>C19: decoding a shell-quoted word gives the word back, whatever characters it has.\<close>

theorem decode_inverts_quoting:
  "decode_shell_literal_spelling (shell_quote s) = Some s"
  using decode_quoted [of s] by (simp add: decode_shell_literal_spelling_def shell_quote_def)

text \<open>
  C36: for a command of at most sixteen words the bounded loop of normalization is as good as an
  unbounded one: further rounds change nothing, and when no flag is raised the command that is left
  is not an \<open>env\<close> with a split string or with options the scan could not read.
\<close>

theorem sixteen_words_are_normalized:
  assumes "words p \<noteq> []" and "length (words p) \<le> MAX_NORMALIZE_ROUNDS"
  shows "(\<forall>m\<ge>MAX_NORMALIZE_ROUNDS. normalize_loop m p = normalize_loop MAX_NORMALIZE_ROUNDS p)
    \<and> (\<not> peel_failed (normalize_finish (normalize_loop MAX_NORMALIZE_ROUNDS p)) \<longrightarrow>
         \<not> env_open_question (words (normalize_finish (normalize_loop MAX_NORMALIZE_ROUNDS p))))"
proof -
  note settles = loop_settles [OF assms]
  from conjunct1 [OF settles] obtain q
    where q: "normalize_round q = (normalize_loop MAX_NORMALIZE_ROUNDS p, False)" ..
  show ?thesis
  proof (intro conjI impI)
    show "\<forall>m\<ge>MAX_NORMALIZE_ROUNDS. normalize_loop m p = normalize_loop MAX_NORMALIZE_ROUNDS p"
      by (rule conjunct2 [OF settles])
    assume "\<not> peel_failed (normalize_finish (normalize_loop MAX_NORMALIZE_ROUNDS p))"
    from settled_round [OF q] finish_flags [OF this]
    show "\<not> env_open_question (words (normalize_finish (normalize_loop MAX_NORMALIZE_ROUNDS p)))"
      unfolding words_finish by blast
  qed
qed

lemma sixteen_words_are_normalized_witness:
  "\<not> env_open_question (words (normalize_finish (normalize_loop MAX_NORMALIZE_ROUNDS
     \<lparr>words = [''command'', ''nice'', ''env'', ''A=1'', ''ls''], has_chdir = False, has_split_string = False,
      env_options_uncertain = False, exhausted = False, ambiguous = False\<rparr>)))"
proof -
  let ?p = "\<lparr>words = [''command'', ''nice'', ''env'', ''A=1'', ''ls''], has_chdir = False, has_split_string = False,
      env_options_uncertain = False, exhausted = False, ambiguous = False\<rparr>"
  have "\<not> peel_failed (normalize_finish (normalize_loop MAX_NORMALIZE_ROUNDS ?p))" by code_simp
  moreover have "length (words ?p) \<le> MAX_NORMALIZE_ROUNDS"
    by (simp add: MAX_NORMALIZE_ROUNDS_def MAX_WRAPPER_DEPTH_def MAX_TRANSPARENT_PREFIX_DEPTH_def)
  moreover have "words ?p \<noteq> []" by simp
  ultimately show ?thesis using conjunct2 [OF sixteen_words_are_normalized [of ?p]] by blast
qed

end
