(* ===== verification/Shell_Tree.thy ===== *)
theory Shell_Tree
  imports Command_Words "HOL-Library.Multiset" "HOL-Library.Product_Lexorder"
begin

text \<open>
  \<open>permission/bash_command_splitting.rs\<close>, the part that walks the syntax tree of a script. The
  tree is what \<open>tree-sitter-bash\<close> returns; the parser itself is a third-party grammar and stands
  as the parameter \<open>parse\<close> wherever a script is analysed. A node carries the byte range it covers,
  and its text is that slice of the source.
\<close>

section \<open>Trees\<close>

datatype node = Node (kind: string) (is_named: bool) (start_byte: nat) (end_byte: nat) (children: "node list")

record tree =
  root_node :: node
  has_error :: bool

type_synonym shell_parser = "string \<Rightarrow> tree option"

definition slice :: "string \<Rightarrow> nat \<Rightarrow> nat \<Rightarrow> string" where
  "slice s a b = take (b - a) (drop a s)"

definition node_text :: "string \<Rightarrow> node \<Rightarrow> string" where
  "node_text src n = slice src (start_byte n) (end_byte n)"

definition named_children :: "node \<Rightarrow> node list" where
  "named_children n = filter is_named (children n)"

definition nth_child :: "node list \<Rightarrow> nat \<Rightarrow> node option" where
  "nth_child ns i = (if i < length ns then Some (ns ! i) else None)"

lemma size_child: "c \<in> set (children n) \<Longrightarrow> size c < size n"
  by (cases n) (auto dest: size_list_estimation' [OF _ order_refl, of _ _ size])

lemma size_children: "size_list size (children n) < size n"
  by (cases n) simp

section \<open>Plain commands\<close>

record plain_command =
  pc_words :: "string list"
  span_start :: nat
  span_end :: nat

text \<open>The loop's state: the words so far and the span, empty before the first word.\<close>

record word_scan =
  ws_words :: "string list"
  ws_start :: "nat option"
  ws_end :: "nat option"

definition add_word :: "string \<Rightarrow> node \<Rightarrow> word_scan \<Rightarrow> word_scan" where
  "add_word txt n w = w\<lparr>ws_words := ws_words w @ [txt],
     ws_start := (case ws_start w of None \<Rightarrow> Some (start_byte n) | s \<Rightarrow> s),
     ws_end := Some (end_byte n)\<rparr>"

definition is_simple_string :: "node \<Rightarrow> bool" where
  "is_simple_string n \<longleftrightarrow> map kind (children n) = [[dquote], ''string_content'', [dquote]]"

definition strip_raw_string :: "string \<Rightarrow> string option" where
  "strip_raw_string s = Option.bind (strip_prefix [squote] s) (strip_suffix [squote])"

definition scan_child :: "string \<Rightarrow> node \<Rightarrow> word_scan \<Rightarrow> word_scan option" where
  "scan_child src c w =
     (if kind c = ''variable_assignment'' then Some w
      else if kind c = ''command_name'' then
        (case named_children c of
           [] \<Rightarrow> None
         | wn # _ \<Rightarrow> if kind wn \<noteq> ''word'' then None else Some (add_word (node_text src wn) wn w))
      else if kind c = ''word'' \<or> kind c = ''number'' then Some (add_word (node_text src c) c w)
      else if kind c = ''string'' \<and> is_simple_string c
        then Some (add_word (node_text src (children c ! 1)) c w)
      else if kind c = ''raw_string'' then
        (case strip_raw_string (node_text src c) of
           None \<Rightarrow> None | Some s \<Rightarrow> Some (add_word s c w))
      else if kind c = ''concatenation'' then Some (add_word (node_text src c) c w)
      else None)"

fun scan_children :: "string \<Rightarrow> node list \<Rightarrow> word_scan \<Rightarrow> word_scan option" where
  "scan_children src [] w = Some w"
| "scan_children src (c # cs) w =
     (case scan_child src c w of None \<Rightarrow> None | Some w' \<Rightarrow> scan_children src cs w')"

definition parse_plain_command_from_node :: "string \<Rightarrow> node \<Rightarrow> plain_command option" where
  "parse_plain_command_from_node src cmd =
     (if kind cmd \<noteq> ''command'' then None
      else (case scan_children src (named_children cmd) \<lparr>ws_words = [], ws_start = None, ws_end = None\<rparr> of
              None \<Rightarrow> None
            | Some w \<Rightarrow> Some \<lparr>pc_words = ws_words w,
                 span_start = (case ws_start w of None \<Rightarrow> start_byte cmd | Some s \<Rightarrow> s),
                 span_end = (case ws_end w of None \<Rightarrow> end_byte cmd | Some e \<Rightarrow> e)\<rparr>))"

text \<open>\<open>str::is_char_boundary\<close>: not inside a UTF-8 sequence.\<close>

definition is_char_boundary :: "string \<Rightarrow> nat \<Rightarrow> bool" where
  "is_char_boundary s i \<longleftrightarrow> i = 0 \<or> i = length s \<or>
     (i < length s \<and> \<not> (0x80 \<le> (of_char (s ! i) :: nat) \<and> (of_char (s ! i) :: nat) < 0xC0))"

text \<open>\<open>str::get\<close> of a range that is out of bounds or cuts a character is \<open>None\<close>.\<close>

definition spans_whole_script :: "plain_command \<Rightarrow> string \<Rightarrow> bool" where
  "spans_whole_script c script \<longleftrightarrow> span_start c \<le> length script \<and> span_end c \<le> length script
     \<and> is_char_boundary script (span_start c) \<and> is_char_boundary script (span_end c)
     \<and> trim (take (span_start c) script) = [] \<and> trim (drop (span_end c) script) = []"

section \<open>Sequences of plain commands\<close>

definition allowed_kinds :: "string list" where
  "allowed_kinds = [''program'', ''list'', ''pipeline'', ''command'', ''command_name'', ''word'',
     ''string'', ''string_content'', ''raw_string'', ''number'', ''concatenation'',
     ''variable_assignment'', ''variable_name'', ''redirected_statement'', ''file_redirect'',
     ''file_descriptor'', ''comment'', ''heredoc_redirect'', ''heredoc_start'', ''heredoc_body'',
     ''heredoc_content'', ''heredoc_end'']"

definition allowed_punct_tokens :: "string list" where
  "allowed_punct_tokens = [''&&'', ''||'', '';'', ''|'', [dquote], [squote], ''='', ''>'', ''>>'',
     ''<'', ''<<'', ''>&'', ''&>'', ''&>>'']"

text \<open>
  The source tests the characters \<open>&\<close>, \<open>;\<close> and \<open>|\<close> first; a token that passes its second
  test, being allowed or blank, passes the first as well.
\<close>

definition node_allowed :: "node \<Rightarrow> bool" where
  "node_allowed n =
     (if is_named n then kind n \<in> set allowed_kinds
      else \<not> (list_ex (\<lambda>c. c \<in> set ''&;|'') (kind n) \<and> kind n \<notin> set allowed_punct_tokens)
           \<and> (kind n \<in> set allowed_punct_tokens \<or> trim (kind n) = []))"

text \<open>The stack is walked from its end; the command nodes come out in reverse source order.\<close>

function walk :: "node list \<Rightarrow> node list \<Rightarrow> node list option" where
  "walk stack cmds =
     (if stack = [] then Some cmds
      else (let n = last stack
            in if \<not> node_allowed n then None
               else walk (butlast stack @ children n)
                      (if is_named n \<and> kind n = ''command'' then cmds @ [n] else cmds)))"
  by auto
termination
proof (relation "measure (\<lambda>(stack, _). size_list size stack)")
  fix stack :: "node list" and cmds and n
  assume "stack \<noteq> []" and n: "n = last stack"
  then obtain ns where "stack = ns @ [n]" by (metis append_butlast_last_id)
  then show "((butlast stack @ children n, if is_named n \<and> kind n = ''command'' then cmds @ [n] else cmds), stack, cmds)
      \<in> measure (\<lambda>(stack, _). size_list size stack)"
    using size_children [of n] by simp
qed simp

declare walk.simps [simp del]

fun map_all :: "('a \<Rightarrow> 'b option) \<Rightarrow> 'a list \<Rightarrow> 'b list option" where
  "map_all f [] = Some []"
| "map_all f (x # xs) =
     (case f x of None \<Rightarrow> None | Some y \<Rightarrow> map_option ((#) y) (map_all f xs))"

definition try_parse_word_only_commands_sequence :: "tree \<Rightarrow> string \<Rightarrow> plain_command list option" where
  "try_parse_word_only_commands_sequence t src =
     (if has_error t then None
      else (case walk [root_node t] [] of
              None \<Rightarrow> None
            | Some cmds \<Rightarrow> map_all (parse_plain_command_from_node src) (sort_key start_byte cmds)))"

definition all_commands_from_script :: "shell_parser \<Rightarrow> string \<Rightarrow> plain_command list option" where
  "all_commands_from_script parse script =
     (case parse script of
        None \<Rightarrow> None
      | Some t \<Rightarrow> try_parse_word_only_commands_sequence t script)"

record command_highlights =
  ch_prefix :: "string list"
  highlighted_words :: "string list"
  ch_suffix :: "string list"

definition peel_primary :: "plain_command \<Rightarrow> (plain_command \<times> nat \<times> string list) option" where
  "peel_primary c =
     (let peeled = unwrap_wrappers (pc_words c)
      in if peeled = [] \<or> is_setup_command peeled then None
         else (let off = length (pc_words c) - length peeled in Some (c, off, drop off (pc_words c))))"

fun find_primary :: "plain_command list \<Rightarrow> (plain_command \<times> nat \<times> string list) option" where
  "find_primary [] = None"
| "find_primary (c # cs) = (case peel_primary c of None \<Rightarrow> find_primary cs | found \<Rightarrow> found)"

definition primary_command_from_script :: "shell_parser \<Rightarrow> string \<Rightarrow> command_highlights option" where
  "primary_command_from_script parse script =
     (case all_commands_from_script parse script of
        None \<Rightarrow> None
      | Some commands \<Rightarrow>
          (case find_primary commands of
             None \<Rightarrow> None
           | Some (c, off, peeled_words) \<Rightarrow>
               Some \<lparr>ch_prefix = sh_split_simple (take (span_start c) script) @ take off (pc_words c),
                     highlighted_words = peeled_words,
                     ch_suffix = sh_split_simple (drop (span_end c) script)\<rparr>))"

section \<open>Where the display may break a line\<close>

definition payload_node_kinds :: "string list" where
  "payload_node_kinds = [''heredoc_body'', ''simple_heredoc_body'', ''heredoc_content'', ''heredoc_end'',
     ''string'', ''raw_string'', ''string_content'', ''ansi_c_string'', ''translated_string'', ''comment'']"

definition soft_break_of :: "string \<Rightarrow> node \<Rightarrow> nat list" where
  "soft_break_of script n =
     (if kind n \<in> {''&&'', ''||'', ''|'', '';''} \<and> 0 < end_byte n \<and> end_byte n \<le> length script
         \<and> is_char_boundary script (end_byte n)
      then [end_byte n] else [])"

text \<open>A node's operators, itself first; payload subtrees are skipped whole.\<close>

fun soft_breaks :: "string \<Rightarrow> node \<Rightarrow> nat list" where
  "soft_breaks script (Node k nm a b cs) =
     (if k \<in> set payload_node_kinds then []
      else soft_break_of script (Node k nm a b cs) @ concat (map (soft_breaks script) cs))"

definition soft_break_offsets_after_operators :: "shell_parser \<Rightarrow> string \<Rightarrow> nat list" where
  "soft_break_offsets_after_operators parse script =
     (case parse script of
        None \<Rightarrow> []
      | Some t \<Rightarrow> if has_error t then [] else sorted_list_of_set (set (soft_breaks script (root_node t))))"

definition heredoc_payload :: "string list" where
  "heredoc_payload = [''heredoc_body'', ''simple_heredoc_body'', ''heredoc_content'']"

fun heredoc_ranges :: "string \<Rightarrow> node \<Rightarrow> (nat \<times> nat) list" where
  "heredoc_ranges script (Node k nm a b cs) =
     (if k \<in> set heredoc_payload then (if a < b \<and> b \<le> length script then [(a, b)] else [])
      else concat (map (heredoc_ranges script) cs))"

definition heredoc_payload_byte_ranges :: "shell_parser \<Rightarrow> string \<Rightarrow> (nat \<times> nat) list" where
  "heredoc_payload_byte_ranges parse script =
     (case parse script of
        None \<Rightarrow> []
      | Some t \<Rightarrow> if has_error t then [] else sorted_list_of_set (set (heredoc_ranges script (root_node t))))"

definition range_fully_inside :: "nat \<Rightarrow> nat \<Rightarrow> (nat \<times> nat) list \<Rightarrow> bool" where
  "range_fully_inside a b ranges =
     (if b < a then False else list_ex (\<lambda>(rs, re). rs \<le> a \<and> b \<le> re) ranges)"

fun cut_at :: "string \<Rightarrow> nat \<Rightarrow> nat list \<Rightarrow> string list" where
  "cut_at line from [] = (if from < length line then [drop from line] else [])"
| "cut_at line from (b # bs) =
     (if from < b then slice line from b # cut_at line b bs else cut_at line from bs)"

definition split_physical_line_at_soft_breaks :: "string \<Rightarrow> nat \<Rightarrow> nat list \<Rightarrow> string list" where
  "split_physical_line_at_soft_breaks line line_start breaks =
     (let line_end = line_start + length line;
          rel = remdups_adj (filter (is_char_boundary line)
                  (map (\<lambda>b. b - line_start) (filter (\<lambda>b. line_start < b \<and> b < line_end) breaks)))
      in if rel = [] then [line]
         else (let chunks = cut_at line 0 rel in if chunks = [] then [line] else chunks))"

definition soft_break_chunks :: "shell_parser \<Rightarrow> string \<Rightarrow> string list" where
  "soft_break_chunks parse script =
     (let breaks = soft_break_offsets_after_operators parse script
      in if breaks = [] then [script]
         else cut_at script 0 (filter (\<lambda>b. b \<le> length script) breaks))"

section \<open>What the walk has seen\<close>

fun nodes :: "node \<Rightarrow> node list" where
  "nodes (Node k nm a b cs) = Node k nm a b cs # concat (map nodes cs)"

definition is_command :: "node \<Rightarrow> bool" where
  "is_command n \<longleftrightarrow> is_named n \<and> kind n = ''command''"

lemma nodes_unfold: "nodes n = n # concat (map nodes (children n))"
  by (cases n) simp

lemma walk_step:
  assumes "walk (ns @ [n]) cmds = Some out"
  shows "node_allowed n" and "walk (ns @ children n) (if is_command n then cmds @ [n] else cmds) = Some out"
  using assms by (auto simp: walk.simps [of "ns @ [n]"] Let_def is_command_def split: if_split_asm)

lemma walk_Some:
  "walk stack cmds = Some out \<Longrightarrow>
     (\<forall>n\<in>set (concat (map nodes stack)). node_allowed n)
     \<and> mset out = mset cmds + mset (filter is_command (concat (map nodes stack)))"
proof (induction "size_list size stack" arbitrary: stack cmds rule: less_induct)
  case less
  show ?case
  proof (cases stack rule: rev_cases)
    case Nil
    with less.prems show ?thesis by (simp add: walk.simps)
  next
    case (snoc ns n)
    note step = walk_step [OF less.prems [unfolded snoc]]
    have "size_list size (ns @ children n) < size_list size stack"
      using snoc size_children [of n] by simp
    note IH = less.hyps [OF this step(2)]
    have "concat (map nodes stack) = concat (map nodes ns) @ n # concat (map nodes (children n))"
      using snoc nodes_unfold [of n] by simp
    with IH step(1) show ?thesis by (cases "is_command n") auto
  qed
qed

lemma map_all_length: "map_all f xs = Some ys \<Longrightarrow> length ys = length xs"
  by (induction xs arbitrary: ys) (auto split: option.splits)

lemma map_all_nth: "map_all f xs = Some ys \<Longrightarrow> list_all2 (\<lambda>x y. f x = Some y) xs ys"
  by (induction xs arbitrary: ys) (auto split: option.splits)

lemma parse_sequence_Some:
  assumes "try_parse_word_only_commands_sequence t src = Some cs"
  shows "\<not> has_error t \<and> (\<forall>n\<in>set (nodes (root_node t)). node_allowed n) \<and>
    (\<exists>ns. mset ns = mset (filter is_command (nodes (root_node t))) \<and> sorted (map start_byte ns)
       \<and> list_all2 (\<lambda>n c. parse_plain_command_from_node src n = Some c) ns cs)"
proof -
  obtain cmds where w: "walk [root_node t] [] = Some cmds"
    and m: "map_all (parse_plain_command_from_node src) (sort_key start_byte cmds) = Some cs"
    using assms by (auto simp: try_parse_word_only_commands_sequence_def split: if_splits option.splits)
  have "mset (sort_key start_byte cmds) = mset (filter is_command (nodes (root_node t)))"
    using walk_Some [OF w] by simp
  moreover have "sorted (map start_byte (sort_key start_byte cmds))" by simp
  moreover have "\<not> has_error t"
    using assms by (auto simp: try_parse_word_only_commands_sequence_def split: if_splits)
  ultimately show ?thesis
    using walk_Some [OF w] map_all_nth [OF m] by (intro conjI exI [of _ "sort_key start_byte cmds"]) simp_all
qed

section \<open>Cutting text for display\<close>

lemma concat_cut_at:
  "from \<le> length line \<Longrightarrow> \<forall>b\<in>set bs. b \<le> length line \<Longrightarrow> concat (cut_at line from bs) = drop from line"
proof (induction line "from" bs rule: cut_at.induct)
  case (2 line "from" b bs)
  have "slice line from b @ drop b line = drop from line" if "from < b"
    using that unfolding slice_def
    by (metis add.commute append_take_drop_id drop_drop le_add_diff_inverse less_imp_le_nat)
  with 2 show ?case by auto
qed auto

lemma concat_soft_break_chunks: "concat (soft_break_chunks parse script) = script"
  using concat_cut_at [of 0 script "filter (\<lambda>b. b \<le> length script) (soft_break_offsets_after_operators parse script)"]
  by (simp add: soft_break_chunks_def Let_def)

lemma concat_split_line: "concat (split_physical_line_at_soft_breaks line start breaks) = line"
proof -
  let ?rel = "remdups_adj (filter (is_char_boundary line)
      (map (\<lambda>b. b - start) (filter (\<lambda>b. start < b \<and> b < start + length line) breaks)))"
  have "\<forall>b\<in>set ?rel. b \<le> length line" by auto
  then have "concat (cut_at line 0 ?rel) = line" using concat_cut_at [of 0 line ?rel] by simp
  then show ?thesis unfolding split_physical_line_at_soft_breaks_def Let_def by (simp only: split: if_split) simp
qed

section \<open>Properties\<close>

text \<open>
  C21: a script that is accepted as a sequence of plain commands contains nothing else: the parser
  reported no error, every node of the tree is on the allow list, and the commands returned are one
  per command node of the tree, in source order, each read off its own node.
\<close>

theorem accepted_script_is_plain_commands:
  assumes "all_commands_from_script parse src = Some cs"
  shows "\<exists>t ns. parse src = Some t \<and> \<not> has_error t \<and> (\<forall>n\<in>set (nodes (root_node t)). node_allowed n)
     \<and> mset ns = mset (filter is_command (nodes (root_node t))) \<and> sorted (map start_byte ns)
     \<and> list_all2 (\<lambda>n c. parse_plain_command_from_node src n = Some c) ns cs"
  using assms parse_sequence_Some by (fastforce simp: all_commands_from_script_def split: option.splits)

text \<open>The tree of \<open>rm x; ls\<close>.\<close>

definition sample_script :: string where "sample_script = ''rm x; ls''"

definition sample_parser :: shell_parser where
  "sample_parser s = (if s = sample_script then Some \<lparr>root_node =
     Node ''program'' True 0 8
       [Node ''command'' True 0 4
          [Node ''command_name'' True 0 2 [Node ''word'' True 0 2 []], Node ''word'' True 3 4 []],
        Node '';'' False 4 5 [],
        Node ''command'' True 6 8 [Node ''command_name'' True 6 8 [Node ''word'' True 6 8 []]]],
     has_error = False\<rparr> else None)"

lemma sample_commands:
  "all_commands_from_script sample_parser sample_script =
     Some [\<lparr>pc_words = [''rm'', ''x''], span_start = 0, span_end = 4\<rparr>,
           \<lparr>pc_words = [''ls''], span_start = 6, span_end = 8\<rparr>]"
  by code_simp

lemma accepted_script_is_plain_commands_witness:
  "\<exists>t. sample_parser sample_script = Some t \<and> (\<forall>n\<in>set (nodes (root_node t)). node_allowed n)"
  using accepted_script_is_plain_commands [OF sample_commands] by blast

text \<open>
  Breaking a command for display loses nothing: whatever the parser returns and wherever the
  breaks fall, the pieces of a script and of a line put together are the script and the line.
\<close>

theorem display_breaks_lose_nothing:
  "concat (soft_break_chunks parse script) = script
   \<and> concat (split_physical_line_at_soft_breaks line line_start breaks) = line"
  by (simp add: concat_soft_break_chunks concat_split_line)

end
