(* ===== verification/Unix_Path.thy ===== *)
theory Unix_Path
  imports Rust_Str
begin

text \<open>
  Paths as \<open>std::path\<close> reads them on Unix, and \<open>normalize_lexically\<close> of
  \<open>crates/codegen/xai-grok-paths/src/lib.rs\<close>. A path is its text; \<open>components\<close> reads the text,
  \<open>collect\<close> writes components back the way a \<open>PathBuf\<close> is built by pushing them.
\<close>

section \<open>Components\<close>

datatype path_component = RootDir | CurDir | ParentDir | Normal string

definition slash :: char where "slash = CHR ''/''"

text \<open>An empty piece and a \<open>.\<close> are no component of their own, except a \<open>.\<close> that leads the path.\<close>

definition component_of :: "string \<Rightarrow> path_component option" where
  "component_of p = (if p = [] \<or> p = ''.'' then None
     else if p = ''..'' then Some ParentDir else Some (Normal p))"

definition is_absolute :: "string \<Rightarrow> bool" where
  "is_absolute s = prefix [slash] s"

definition path_start :: "string \<Rightarrow> path_component list" where
  "path_start s = (if is_absolute s then [RootDir]
     else if hd (split_on slash s) = ''.'' then [CurDir] else [])"

definition components :: "string \<Rightarrow> path_component list" where
  "components s = path_start s @ List.map_filter component_of (split_on slash s)"

section \<open>Building paths\<close>

fun component_str :: "path_component \<Rightarrow> string" where
  "component_str RootDir = [slash]"
| "component_str CurDir = ''.''"
| "component_str ParentDir = ''..''"
| "component_str (Normal p) = p"

text \<open>\<open>PathBuf::push\<close>: an absolute path replaces what is there.\<close>

definition path_push :: "string \<Rightarrow> string \<Rightarrow> string" where
  "path_push buf p = (if is_absolute p then p
     else if buf \<noteq> [] \<and> last buf \<noteq> slash then buf @ [slash] @ p else buf @ p)"

definition path_join :: "string \<Rightarrow> string \<Rightarrow> string" where
  "path_join base p = path_push base p"

definition collect :: "path_component list \<Rightarrow> string" where
  "collect cs = foldl path_push [] (map component_str cs)"

text \<open>
  \<open>Path::strip_prefix\<close>: the base has to be a prefix by components; what is left is the rest of
  the text, without the separators and dots at its ends.
\<close>

fun drop_components :: "nat \<Rightarrow> string list \<Rightarrow> string list" where
  "drop_components n [] = []"
| "drop_components 0 (p # ps) = p # ps"
| "drop_components (Suc n) (p # ps) =
     (if component_of p = None then drop_components (Suc n) ps else drop_components n ps)"

definition trim_pieces :: "string list \<Rightarrow> string list" where
  "trim_pieces ps = (let silent = (\<lambda>p. component_of p = None)
     in rev (dropWhile silent (rev (dropWhile silent ps))))"

definition path_strip_prefix :: "string \<Rightarrow> string \<Rightarrow> string option" where
  "path_strip_prefix s base =
     (if prefix (components base) (components s)
      then Some (join_with [slash] (trim_pieces
             (drop_components (length (components base) - length (path_start s)) (split_on slash s))))
      else None)"

section \<open>Lexical normalization\<close>

definition normalize_step :: "path_component list \<Rightarrow> path_component \<Rightarrow> path_component list" where
  "normalize_step acc c =
     (case c of
        CurDir \<Rightarrow> acc
      | ParentDir \<Rightarrow>
          (if acc = [] then acc @ [c]
           else (case last acc of Normal _ \<Rightarrow> butlast acc | RootDir \<Rightarrow> acc | _ \<Rightarrow> acc @ [c]))
      | _ \<Rightarrow> acc @ [c])"

definition normalize_components :: "string \<Rightarrow> path_component list" where
  "normalize_components s = foldl normalize_step [] (components s)"

definition normalize_lexically :: "string \<Rightarrow> string" where
  "normalize_lexically s =
     (let cs = normalize_components s in if cs = [] then ''.'' else collect cs)"

section \<open>Splitting and joining at slashes\<close>

definition piece :: "string \<Rightarrow> bool" where
  "piece p \<longleftrightarrow> slash \<notin> set p \<and> component_of p \<noteq> None"

fun proper :: "path_component \<Rightarrow> bool" where
  "proper (Normal p) \<longleftrightarrow> piece p \<and> p \<noteq> ''..''"
| "proper c \<longleftrightarrow> True"

lemma slash_neq_dot [simp]: "slash \<noteq> CHR ''.''" "CHR ''.'' \<noteq> slash"
  by (simp_all add: slash_def)

lemma split_on_no_sep: "sep \<notin> set p \<Longrightarrow> split_on sep p = [p]"
  by (induction p) auto

lemma split_on_append: "sep \<notin> set p \<Longrightarrow> split_on sep (p @ sep # s) = p # split_on sep s"
  by (induction p) auto

lemma split_on_sep_free: "p \<in> set (split_on sep s) \<Longrightarrow> sep \<notin> set p"
  by (induction sep s arbitrary: p rule: split_on.induct) (auto split: if_splits list.splits)

lemma split_join:
  "ps \<noteq> [] \<Longrightarrow> \<forall>p\<in>set ps. sep \<notin> set p \<Longrightarrow> split_on sep (join_with [sep] ps) = ps"
  by (induction "[sep]" ps rule: join_with.induct) (auto simp: split_on_no_sep split_on_append)

lemma component_of_dots [simp]: "component_of [] = None" "component_of ''.'' = None"
  "component_of ''..'' = Some ParentDir"
  by (simp_all add: component_of_def)

lemma component_of_piece: "piece p \<Longrightarrow> component_of p = Some (if p = ''..'' then ParentDir else Normal p)"
  by (auto simp: piece_def component_of_def split: if_splits)

lemma component_of_Some: "component_of p = Some c \<Longrightarrow> slash \<notin> set p \<Longrightarrow>
    proper c \<and> component_str c = p \<and> c \<noteq> RootDir \<and> c \<noteq> CurDir"
  by (auto simp: component_of_def piece_def split: if_splits)

lemma map_filter_proper:
  "c \<in> set (List.map_filter component_of (split_on slash s)) \<Longrightarrow> proper c \<and> c \<noteq> RootDir \<and> c \<noteq> CurDir"
  unfolding List.map_filter_def using component_of_Some split_on_sep_free by fastforce

lemma components_proper: "c \<in> set (components s) \<Longrightarrow> proper c"
  by (auto simp: components_def path_start_def dest: map_filter_proper split: if_splits)

section \<open>What normalization yields\<close>

text \<open>A normal form: nothing but names below a root, or names below some leading \<open>..\<close>.\<close>

fun is_normal :: "path_component \<Rightarrow> bool" where
  "is_normal (Normal p) = True"
| "is_normal _ = False"

definition normal_form :: "path_component list \<Rightarrow> bool" where
  "normal_form cs \<longleftrightarrow> (\<exists>ns. list_all is_normal ns \<and>
     (cs = RootDir # ns \<or> (\<exists>k. cs = replicate k ParentDir @ ns)))"

lemma normal_form_push: "normal_form cs \<Longrightarrow> normal_form (cs @ [Normal p])"
  unfolding normal_form_def
  by (elim exE conjE disjE) (fastforce intro: exI [of _ "_ @ [Normal p]"])+

lemma normal_form_pop:
  assumes "normal_form cs" and "cs \<noteq> []" and "last cs = Normal p"
  shows "normal_form (butlast cs)"
proof -
  obtain ns where ns: "list_all is_normal ns" "cs = RootDir # ns \<or> (\<exists>k. cs = replicate k ParentDir @ ns)"
    using assms(1) by (auto simp: normal_form_def)
  have "ns \<noteq> []"
  proof
    assume "ns = []"
    with ns(2) assms(2,3) show False by (auto simp: last_replicate split: if_splits)
  qed
  moreover have "list_all is_normal (butlast ns)"
    using ns(1) by (auto simp: list_all_iff dest: in_set_butlastD)
  ultimately show ?thesis
    using ns(2) unfolding normal_form_def
    by (intro exI [of _ "butlast ns"]) (auto simp: butlast_append)
qed

lemma normal_form_parent:
  assumes "normal_form cs" and "cs = [] \<or> last cs \<noteq> RootDir \<and> \<not> is_normal (last cs)"
  shows "normal_form (cs @ [ParentDir])"
proof -
  obtain ns where ns: "list_all is_normal ns" "cs = RootDir # ns \<or> (\<exists>k. cs = replicate k ParentDir @ ns)"
    using assms(1) by (auto simp: normal_form_def)
  have "ns = []" using assms(2) ns by (cases ns rule: rev_cases) auto
  with ns assms(2) obtain k where "cs = replicate k ParentDir" by auto
  then have "cs @ [ParentDir] = replicate (Suc k) ParentDir @ []" by (simp add: replicate_append_same)
  then show ?thesis unfolding normal_form_def by (metis list.pred_inject(1))
qed

lemma normal_form_step:
  assumes "normal_form acc" and "c \<noteq> RootDir"
  shows "normal_form (normalize_step acc c)"
proof (cases c)
  case ParentDir
  show ?thesis
  proof (cases "acc = []")
    case True
    with ParentDir normal_form_parent [OF assms(1)] show ?thesis by (simp add: normalize_step_def)
  next
    case False
    with ParentDir normal_form_parent [OF assms(1)] normal_form_pop [OF assms(1)] assms(1)
    show ?thesis by (cases "last acc") (simp_all add: normalize_step_def)
  qed
qed (use assms in \<open>auto simp: normalize_step_def normal_form_push\<close>)

lemma normal_form_foldl:
  "normal_form acc \<Longrightarrow> RootDir \<notin> set cs \<Longrightarrow> normal_form (foldl normalize_step acc cs)"
  by (induction cs arbitrary: acc) (auto simp: normal_form_step)

lemma normal_form_normalized: "normal_form (normalize_components s)"
proof -
  let ?rest = "List.map_filter component_of (split_on slash s)"
  have rest: "RootDir \<notin> set ?rest" using map_filter_proper by blast
  have "normal_form []" "normal_form [RootDir]"
    unfolding normal_form_def by (auto intro: exI [of _ "[]"])
  then have "normal_form (foldl normalize_step [] (path_start s))"
    by (simp add: path_start_def normalize_step_def)
  from normal_form_foldl [OF this rest] show ?thesis
    by (simp add: normalize_components_def components_def)
qed

lemma normalize_step_set: "set (normalize_step acc c) \<subseteq> insert c (set acc)"
  by (auto simp: normalize_step_def split: path_component.splits if_splits dest: in_set_butlastD)

lemma foldl_normalize_set: "set (foldl normalize_step acc cs) \<subseteq> set acc \<union> set cs"
  by (induction cs arbitrary: acc) (use normalize_step_set in fastforce)+

lemma normalized_proper: "c \<in> set (normalize_components s) \<Longrightarrow> proper c"
  using foldl_normalize_set [of "[]" "components s"] components_proper
  by (auto simp: normalize_components_def)

section \<open>Reading back what was collected\<close>

lemma join_with_Cons: "join_with [slash] (p # ps) = p @ concat (map ((#) slash) ps)"
  by (induction ps arbitrary: p) auto

lemma piece_push: "piece p \<Longrightarrow> buf \<noteq> [] \<Longrightarrow> last buf \<noteq> slash \<Longrightarrow> path_push buf p = buf @ slash # p"
  by (cases p) (auto simp: path_push_def is_absolute_def piece_def)

lemma piece_ends: "piece p \<Longrightarrow> p \<noteq> [] \<and> last p \<noteq> slash \<and> \<not> is_absolute p"
  by (cases p) (auto simp: piece_def is_absolute_def dest: last_in_set split: if_splits)

lemma foldl_push:
  "buf \<noteq> [] \<Longrightarrow> last buf \<noteq> slash \<Longrightarrow> list_all piece ps \<Longrightarrow>
     foldl path_push buf ps = buf @ concat (map ((#) slash) ps)"
  by (induction ps arbitrary: buf) (auto simp: piece_push piece_ends)

lemma collect_pieces:
  assumes "list_all piece ps"
  shows "foldl path_push [] ps = join_with [slash] ps"
    and "foldl path_push [slash] ps = slash # join_with [slash] ps"
proof -
  show "foldl path_push [] ps = join_with [slash] ps"
    using assms piece_ends
    by (cases ps) (simp_all add: path_push_def join_with_Cons foldl_push)
  show "foldl path_push [slash] ps = slash # join_with [slash] ps"
    using assms piece_ends
    by (cases ps) (simp_all add: path_push_def join_with_Cons foldl_push)
qed

lemma map_filter_pieces:
  "list_all proper cs \<Longrightarrow> RootDir \<notin> set cs \<Longrightarrow> CurDir \<notin> set cs \<Longrightarrow>
     List.map_filter component_of (map component_str cs) = cs \<and> list_all piece (map component_str cs)"
proof (induction cs)
  case (Cons c cs)
  then show ?case by (cases c) (auto simp: map_filter_simps component_of_piece piece_def)
qed (simp add: map_filter_simps)

lemma components_join:
  assumes "list_all piece ps" and "ps \<noteq> []"
  shows "components (join_with [slash] ps) = List.map_filter component_of ps"
    and "components (slash # join_with [slash] ps) = RootDir # List.map_filter component_of ps"
proof -
  have free: "\<forall>p\<in>set ps. slash \<notin> set p" using assms(1) by (auto simp: list_all_iff piece_def)
  obtain p qs where ps: "ps = p # qs" using assms(2) by (cases ps) auto
  have "piece p" using assms(1) ps by simp
  then have "\<not> is_absolute (join_with [slash] ps)" "hd ps \<noteq> ''.''"
    using ps piece_ends [of p] unfolding join_with_Cons ps
    by (auto simp: is_absolute_def piece_def prefix_def append_eq_Cons_conv)
  then show "components (join_with [slash] ps) = List.map_filter component_of ps"
    by (simp add: components_def path_start_def split_join [OF assms(2) free])
  show "components (slash # join_with [slash] ps) = RootDir # List.map_filter component_of ps"
    by (simp add: components_def path_start_def is_absolute_def split_join [OF assms(2) free] map_filter_simps)
qed

lemma components_root: "components [slash] = [RootDir]"
  by (simp add: components_def path_start_def is_absolute_def map_filter_simps)

lemma normal_form_cases:
  assumes "normal_form cs"
  obtains (root) ns where "cs = RootDir # ns" "list_all is_normal ns"
  | (relative) "RootDir \<notin> set cs" "CurDir \<notin> set cs"
proof -
  obtain ns where ns: "list_all is_normal ns" "cs = RootDir # ns \<or> (\<exists>k. cs = replicate k ParentDir @ ns)"
    using assms by (auto simp: normal_form_def)
  from ns(2) show thesis
  proof
    assume "cs = RootDir # ns"
    with ns(1) root show thesis by blast
  next
    assume "\<exists>k. cs = replicate k ParentDir @ ns"
    with ns(1) have "RootDir \<notin> set cs" "CurDir \<notin> set cs"
      by (auto simp: list_all_iff dest: bspec [where x = RootDir] bspec [where x = CurDir])
    then show thesis by (rule relative)
  qed
qed

lemma components_collect:
  assumes "normal_form cs" and "list_all proper cs" and "cs \<noteq> []"
  shows "components (collect cs) = cs"
  using assms(1)
proof (cases rule: normal_form_cases)
  case (root ns)
  then have "RootDir \<notin> set ns" "CurDir \<notin> set ns" "list_all proper ns"
    using assms(2) by (auto simp: list_all_iff)
  note ns' = map_filter_pieces [OF this(3,1,2)]
  have "collect cs = foldl path_push [slash] (map component_str ns)"
    by (simp add: collect_def root path_push_def is_absolute_def)
  with ns' show ?thesis
    by (cases "ns = []") (simp_all add: collect_pieces components_join components_root root)
next
  case relative
  note cs' = map_filter_pieces [OF assms(2) relative]
  then show ?thesis
    using assms(3) by (simp add: collect_def collect_pieces components_join)
qed

lemma components_normalized:
  "components (normalize_lexically s) =
     (if normalize_components s = [] then [CurDir] else normalize_components s)"
proof -
  have "components ''.'' = [CurDir]"
    by (simp add: components_def path_start_def is_absolute_def map_filter_simps)
  then show ?thesis
    using components_collect [OF normal_form_normalized] normalized_proper
    by (simp add: normalize_lexically_def Let_def list_all_iff)
qed

section \<open>The place a path names\<close>

text \<open>
  A directory is the list of names from the root down to it. Without symbolic links a component
  leads from one directory to the next, and \<open>..\<close> of the root is the root.
\<close>

fun descend :: "string list \<Rightarrow> path_component \<Rightarrow> string list" where
  "descend d RootDir = []"
| "descend d CurDir = d"
| "descend d ParentDir = butlast d"
| "descend d (Normal p) = d @ [p]"

definition place :: "string list \<Rightarrow> string \<Rightarrow> string list" where
  "place d s = foldl descend d (components s)"

lemma descend_normalize_step:
  assumes "normal_form acc" and "c \<noteq> RootDir"
  shows "foldl descend d (normalize_step acc c) = descend (foldl descend d acc) c"
proof (cases "c = ParentDir \<and> acc \<noteq> []")
  case True
  then obtain cs l where acc: "acc = cs @ [l]" by (metis append_butlast_last_id)
  with True show ?thesis by (cases l) (simp_all add: normalize_step_def)
next
  case False
  with assms(2) show ?thesis by (cases c) (auto simp: normalize_step_def)
qed

lemma descend_normalize:
  "normal_form acc \<Longrightarrow> RootDir \<notin> set cs \<Longrightarrow>
     foldl descend d (foldl normalize_step acc cs) = foldl descend (foldl descend d acc) cs"
  by (induction cs arbitrary: acc) (auto simp: descend_normalize_step normal_form_step)

lemma place_components: "foldl descend d (normalize_components s) = place d s"
proof -
  let ?rest = "List.map_filter component_of (split_on slash s)"
  let ?start = "foldl normalize_step [] (path_start s)"
  have "normal_form ?start"
    using normal_form_foldl by (auto simp: path_start_def normalize_step_def normal_form_def intro: exI [of _ "[]"])
  moreover have "RootDir \<notin> set ?rest" using map_filter_proper by blast
  ultimately show ?thesis
    by (simp add: place_def normalize_components_def components_def descend_normalize)
       (simp add: path_start_def normalize_step_def)
qed

section \<open>Properties\<close>

lemma normalize_normal_form: "normal_form cs \<Longrightarrow> foldl normalize_step [] cs = cs"
proof -
  have names: "foldl normalize_step acc ns = acc @ ns" if "list_all is_normal ns" for acc ns
    using that
  proof (induction ns arbitrary: acc)
    case (Cons n ns)
    then show ?case by (cases n) (simp_all add: normalize_step_def)
  qed simp
  have parents: "foldl normalize_step [] (replicate k ParentDir) = replicate k ParentDir" for k
    by (induction k) (auto simp: normalize_step_def last_replicate simp flip: replicate_append_same)
  assume "normal_form cs"
  then obtain ns where "list_all is_normal ns" "cs = RootDir # ns \<or> (\<exists>k. cs = replicate k ParentDir @ ns)"
    by (auto simp: normal_form_def)
  then show ?thesis using names parents by (auto simp: normalize_step_def)
qed

lemma normalize_components_idem:
  "normalize_components (normalize_lexically s) = normalize_components s"
proof -
  have "normalize_components (normalize_lexically s) =
      foldl normalize_step [] (if normalize_components s = [] then [CurDir] else normalize_components s)"
    by (simp add: normalize_components_def [of "normalize_lexically s"] components_normalized)
  then show ?thesis
    using normalize_normal_form [OF normal_form_normalized, of s] by (auto simp: normalize_step_def)
qed

text \<open>
  C27: lexical normalization changes the spelling of a path and nothing else: from any directory of
  a tree without symbolic links the normalized path leads to the same place, its components are a
  normal form (or the single \<open>.\<close>), so \<open>..\<close> is left only in front of a relative path, and
  normalizing twice is normalizing once.
\<close>

theorem normalization_keeps_the_place:
  "place d (normalize_lexically s) = place d s
   \<and> components (normalize_lexically s) =
       (if normalize_components s = [] then [CurDir] else normalize_components s)
   \<and> normal_form (normalize_components s)
   \<and> normalize_lexically (normalize_lexically s) = normalize_lexically s"
proof (intro conjI)
  show "place d (normalize_lexically s) = place d s"
    using place_components [of d "normalize_lexically s"] place_components [of d s]
    by (simp add: normalize_components_idem)
qed (simp_all add: components_normalized normal_form_normalized normalize_lexically_def [of "normalize_lexically s"]
      normalize_components_idem, simp add: normalize_lexically_def)

end
