(* ===== verification/Path_Rules.thy ===== *)
theory Path_Rules
  imports Unix_Path
begin

text \<open>
  The path half of \<open>permission/policy.rs\<close>: the spellings of a tool path that path rules are matched
  against, and how a symbolic link is followed to the path it stands for. The file system is a
  parameter: what \<open>dunce::canonicalize\<close>, \<open>std::fs::symlink_metadata\<close> and \<open>std::fs::read_link\<close> answer
  for a path.
\<close>

section \<open>Spellings of a path\<close>

definition is_tilde_path :: "string \<Rightarrow> bool" where
  "is_tilde_path p = (case components p of Normal first # _ \<Rightarrow> prefix ''~'' first | _ \<Rightarrow> False)"

definition path_has_parent_dir :: "string \<Rightarrow> bool" where
  "path_has_parent_dir p = list_ex (\<lambda>c. c = ParentDir) (components p)"

definition path_match_string :: "string \<Rightarrow> string" where
  "path_match_string p = map (\<lambda>c. if c = backslash then slash else c) p"

definition join_to_cwd :: "string \<Rightarrow> string option \<Rightarrow> string" where
  "join_to_cwd raw cwd =
     (case cwd of Some c \<Rightarrow> if \<not> is_absolute raw then path_join c raw else raw | None \<Rightarrow> raw)"

definition absolute_normalized_path :: "string \<Rightarrow> string option \<Rightarrow> string" where
  "absolute_normalized_path path cwd =
     (if is_tilde_path path then path else normalize_lexically (join_to_cwd path cwd))"

definition path_match_forms :: "string \<Rightarrow> string option \<Rightarrow> string list" where
  "path_match_forms path cwd =
     (let abs = absolute_normalized_path path cwd;
          forms = [path_match_string abs]
      in case cwd of
           Some c \<Rightarrow>
             (case path_strip_prefix abs (normalize_lexically c) of
                None \<Rightarrow> forms
              | Some rel \<Rightarrow>
                  (let rel_s = path_match_string rel
                   in if rel_s = [] \<or> rel_s = ''.'' then forms @ [''.'', ''./'']
                      else forms @ [''./'' @ rel_s, rel_s]))
         | None \<Rightarrow>
             (if \<not> is_absolute abs \<and> \<not> path_has_parent_dir abs \<and> \<not> is_tilde_path abs
              then (let lex_s = path_match_string abs
                    in if lex_s \<noteq> ''.'' \<and> lex_s \<noteq> [] then forms @ [''./'' @ lex_s] else forms)
              else forms))"

definition raw_absolute_tool_path :: "string \<Rightarrow> string option \<Rightarrow> string option" where
  "raw_absolute_tool_path path cwd =
     (if is_tilde_path path then None
      else (let joined = join_to_cwd path cwd
            in if is_absolute joined then Some (path_match_string joined) else None))"

section \<open>Symbolic links\<close>

datatype metadata = Symlink | Other_File | NotFound | Metadata_Error

record filesystem =
  canonicalize :: "string \<Rightarrow> string option"
  symlink_metadata :: "string \<Rightarrow> metadata"
  read_link :: "string \<Rightarrow> string option"

text \<open>The paths \<open>PathBuf::push\<close> builds up, one component at a time.\<close>

fun any_prefix_symlink :: "filesystem \<Rightarrow> string \<Rightarrow> path_component list \<Rightarrow> bool" where
  "any_prefix_symlink fs pre [] = False"
| "any_prefix_symlink fs pre (c # cs) =
     (let pre' = path_push pre (component_str c)
      in symlink_metadata fs pre' = Symlink \<or> any_prefix_symlink fs pre' cs)"

definition path_has_symlink :: "filesystem \<Rightarrow> string \<Rightarrow> bool" where
  "path_has_symlink fs absolute = (is_absolute absolute \<and> any_prefix_symlink fs [] (components absolute))"

text \<open>
  \<open>Path::file_name\<close> is the last component when it is a name; \<open>Path::parent\<close> is the text before
  the last component, which a root does not have.
\<close>

definition file_name :: "string \<Rightarrow> string option" where
  "file_name p = (case rev (components p) of Normal n # _ \<Rightarrow> Some n | _ \<Rightarrow> None)"

definition before_last :: "string list \<Rightarrow> string list" where
  "before_last ps = (let silent = (\<lambda>p. component_of p = None)
     in rev (dropWhile silent (tl (dropWhile silent (rev ps)))))"

definition path_parent :: "string \<Rightarrow> string option" where
  "path_parent p =
     (let ps = split_on slash p
      in if components p = [] \<or> last (components p) = RootDir then None
         else if is_absolute p then Some (slash # join_with [slash] (before_last (tl ps)))
         else if last (components p) = CurDir then Some []
         else if path_start p = [CurDir] then Some (join_with [slash] (''.'' # before_last (tl ps)))
         else Some (join_with [slash] (before_last ps)))"

definition MAX_SYMLINK_DEPTH :: nat where "MAX_SYMLINK_DEPTH = 40"

text \<open>The recursion is entered with depth 0 and gives up above the limit, so the fuel is one more.\<close>

fun walk_links :: "filesystem \<Rightarrow> nat \<Rightarrow> string \<Rightarrow> string option" where
  "walk_links fs 0 path = None"
| "walk_links fs (Suc n) path =
     (case canonicalize fs path of
        Some canonical \<Rightarrow> Some canonical
      | None \<Rightarrow>
          (case (path_parent path, file_name path) of
             (Some parent, Some name) \<Rightarrow>
               (case walk_links fs n parent of
                  None \<Rightarrow> None
                | Some resolved_parent \<Rightarrow>
                    (let candidate = path_join resolved_parent name
                     in case symlink_metadata fs candidate of
                          Metadata_Error \<Rightarrow> None
                        | Symlink \<Rightarrow>
                            (case read_link fs candidate of
                               None \<Rightarrow> None
                             | Some target \<Rightarrow>
                                 walk_links fs n (if is_absolute target then target
                                                  else path_join resolved_parent target))
                        | _ \<Rightarrow> Some candidate))
           | _ \<Rightarrow> None))"

definition resolve_following_symlinks :: "filesystem \<Rightarrow> string \<Rightarrow> string option" where
  "resolve_following_symlinks fs path = walk_links fs (MAX_SYMLINK_DEPTH + 1) path"

definition resolve_symlink_target :: "filesystem \<Rightarrow> string \<Rightarrow> string option" where
  "resolve_symlink_target fs absolute =
     (if \<not> is_absolute absolute then None
      else map_option (\<lambda>r. path_match_string (normalize_lexically r)) (resolve_following_symlinks fs absolute))"

datatype symlink_follow = No_Follow | Target string | Unresolvable

definition follow_absolute_symlink :: "filesystem \<Rightarrow> string \<Rightarrow> string \<Rightarrow> symlink_follow" where
  "follow_absolute_symlink fs raw_absolute lexical_absolute =
     (case resolve_symlink_target fs raw_absolute of
        Some resolved \<Rightarrow> if resolved \<noteq> lexical_absolute then Target resolved else No_Follow
      | None \<Rightarrow> if path_has_symlink fs raw_absolute then Unresolvable else No_Follow)"

section \<open>Joining and stripping\<close>

lemma split_on_append2: "split_on sep (a @ sep # b) = split_on sep a @ split_on sep b"
  by (induction a) (auto split: list.split)

lemma is_absolute_append: "a \<noteq> [] \<Longrightarrow> is_absolute (a @ b) = is_absolute a"
  by (cases a) (auto simp: is_absolute_def)

lemma descend_start: "\<not> is_absolute s \<Longrightarrow> foldl descend d (path_start s) = d"
  by (simp add: path_start_def)

lemma place_split:
  "place d s = foldl descend (if is_absolute s then [] else d) (List.map_filter component_of (split_on slash s))"
  by (simp add: place_def components_def path_start_def)

lemma path_join_split:
  assumes "is_absolute c" and "\<not> is_absolute raw"
  obtains b where "path_join c raw = b @ slash # raw" and "c = b \<or> c = b @ [slash]"
proof (cases "last c = slash")
  case True
  moreover have "c \<noteq> []" using assms(1) by (auto simp: is_absolute_def)
  ultimately have "c = butlast c @ [slash]" by (metis append_butlast_last_id)
  with True assms that [of "butlast c"] show thesis
    by (metis append.assoc append_Cons append_Nil path_join_def path_push_def)
next
  case False
  moreover have "c \<noteq> []" using assms(1) by (auto simp: is_absolute_def)
  ultimately show thesis
    using assms that [of c] by (simp add: path_join_def path_push_def)
qed

lemma place_join:
  assumes "is_absolute c" and "\<not> is_absolute raw"
  shows "is_absolute (path_join c raw)" and "place d (path_join c raw) = place (place [] c) raw"
proof -
  obtain b where join: "path_join c raw = b @ slash # raw" and c: "c = b \<or> c = b @ [slash]"
    using assms by (rule path_join_split)
  then show abs: "is_absolute (path_join c raw)"
    using assms(1) by (cases b) (auto simp: is_absolute_def)
  have "List.map_filter component_of (split_on slash c) = List.map_filter component_of (split_on slash b)"
    using c split_on_append2 [of slash b "[]"] by (auto simp: map_filter_append map_filter_simps)
  then show "place d (path_join c raw) = place (place [] c) raw"
    using abs assms by (simp add: place_split join split_on_append2 map_filter_append)
qed

lemma normalized_absolute:
  assumes "is_absolute s"
  shows "normalize_components s = RootDir # map Normal (place [] s)"
proof -
  let ?rest = "List.map_filter component_of (split_on slash s)"
  have root: "RootDir \<in> set (foldl normalize_step acc cs)" if "RootDir \<in> set acc" "RootDir \<notin> set cs" for acc cs
    using that
  proof (induction cs arbitrary: acc)
    case (Cons c cs)
    have "RootDir \<in> set (normalize_step acc c)"
    proof (cases acc rule: rev_cases)
      case (snoc as a)
      with Cons.prems show ?thesis by (cases c; cases a) (auto simp: normalize_step_def)
    qed (use Cons.prems in simp)
    with Cons show ?case by simp
  qed simp
  have "RootDir \<in> set (normalize_components s)"
    using assms map_filter_proper [of RootDir s] root [of "[RootDir]" ?rest]
    by (auto simp: normalize_components_def components_def path_start_def normalize_step_def)
  with normal_form_normalized [of s] obtain ns where ns: "normalize_components s = RootDir # ns" "list_all is_normal ns"
    by (auto elim: normal_form_cases)
  have "ns = map Normal ds \<and> foldl descend e ns = e @ ds" if "ns = map Normal ds" for ds e
    using that by (induction ds arbitrary: e ns) auto
  moreover obtain ds where "ns = map Normal ds"
    using ns(2) by (metis ex_map_conv is_normal.elims(2) list_all_iff)
  ultimately show ?thesis using ns(1) place_components [of "[]" s] by auto
qed

lemma normalized_absolute_text:
  assumes "is_absolute s"
  shows "normalize_lexically s = slash # join_with [slash] (place [] s)"
    and "list_all piece (place [] s)" and "components (normalize_lexically s) = RootDir # map Normal (place [] s)"
proof -
  note n = normalized_absolute [OF assms]
  have "c \<in> set (RootDir # map Normal (place [] s)) \<Longrightarrow> proper c" for c
    using normalized_proper [of c s] n by simp
  then show pieces: "list_all piece (place [] s)" by (fastforce simp: list_all_iff)
  have "normalize_lexically s = foldl path_push [slash] (place [] s)"
    by (simp add: normalize_lexically_def n collect_def path_push_def is_absolute_def comp_def)
  with collect_pieces(2) [OF pieces]
  show "normalize_lexically s = slash # join_with [slash] (place [] s)" by simp
  show "components (normalize_lexically s) = RootDir # map Normal (place [] s)"
    by (simp add: components_normalized n)
qed

lemma trim_pieces_silent: "component_of p = None \<Longrightarrow> trim_pieces (p # ps) = trim_pieces ps"
  by (simp add: trim_pieces_def)

lemma trim_pieces_id: "list_all piece ps \<Longrightarrow> trim_pieces ps = ps"
proof -
  assume pieces: "list_all piece ps"
  have "dropWhile (\<lambda>p. component_of p = None) qs = qs" if "list_all piece qs" for qs
    using that by (cases qs) (auto simp: piece_def)
  with pieces show ?thesis by (simp add: trim_pieces_def)
qed

lemma drop_components_pieces: "list_all piece ps \<Longrightarrow> drop_components k ps = drop k ps"
proof (induction ps arbitrary: k)
  case (Cons p ps)
  then show ?case by (cases k) (auto simp: piece_def)
qed simp

lemma prefix_map_Normal: "prefix (map Normal as) (map Normal bs) \<longleftrightarrow> prefix as bs"
proof (induction "as" arbitrary: bs)
  case (Cons a "as")
  then show ?case by (cases bs) auto
qed simp

lemma list_all_drop: "list_all P xs \<Longrightarrow> list_all P (drop k xs)"
  by (auto simp: list_all_iff dest: in_set_dropD)

lemma strip_pieces:
  assumes "list_all piece ns"
  shows "trim_pieces (drop_components k (split_on slash (slash # join_with [slash] ns))) = drop k ns"
proof -
  have free: "\<forall>p\<in>set ns. slash \<notin> set p" using assms by (auto simp: list_all_iff piece_def)
  have "split_on slash (slash # join_with [slash] ns) = [] # (if ns = [] then [[]] else ns)"
    using split_join [OF _ free] by simp
  moreover have "trim_pieces (drop_components k [[], []]) = []"
    by (cases k) (simp_all add: trim_pieces_def)
  moreover have "trim_pieces (drop_components k ([] # ns)) = drop k ns"
    using assms by (cases k) (simp_all add: trim_pieces_silent trim_pieces_id drop_components_pieces list_all_drop)
  ultimately show ?thesis by simp
qed

lemma strip_prefix_absolute:
  assumes "is_absolute s" and "is_absolute c"
  shows "path_strip_prefix (normalize_lexically s) (normalize_lexically c) =
     (if prefix (place [] c) (place [] s)
      then Some (join_with [slash] (drop (length (place [] c)) (place [] s))) else None)"
proof -
  note s = normalized_absolute_text [OF assms(1)] and c = normalized_absolute_text [OF assms(2)]
  have start: "path_start (normalize_lexically s) = [RootDir]"
    by (simp add: s(1) path_start_def is_absolute_def)
  show ?thesis
    unfolding path_strip_prefix_def start s(3) c(3) using strip_pieces [OF s(2)]
    by (simp add: s(1) prefix_map_Normal)
qed

section \<open>Properties\<close>

lemma tilde_relative: "is_tilde_path p \<Longrightarrow> \<not> is_absolute p"
  by (auto simp: is_tilde_path_def components_def path_start_def)

lemma not_prefix_tilde: "is_tilde_path p \<Longrightarrow> is_absolute c \<Longrightarrow> path_strip_prefix p (normalize_lexically c) = None"
  using normalized_absolute_text(3) [of c]
  by (auto simp: is_tilde_path_def path_strip_prefix_def split: list.splits path_component.splits)

lemma joined_place:
  assumes "is_absolute cwd"
  shows "is_absolute (join_to_cwd p (Some cwd))" and "place [] (join_to_cwd p (Some cwd)) = place (place [] cwd) p"
  using assms place_join [of cwd p] by (auto simp: join_to_cwd_def place_split [of _ p])

lemma drop_joined_empty:
  "list_all piece ns \<Longrightarrow> path_match_string (join_with [slash] ns) = [] \<longleftrightarrow> ns = []"
  by (cases ns) (auto simp: path_match_string_def join_with_Cons piece_def)

lemma drop_joined_dot: "list_all piece ns \<Longrightarrow> path_match_string (join_with [slash] ns) \<noteq> ''.''"
proof
  assume ns: "list_all piece ns" and dot: "path_match_string (join_with [slash] ns) = ''.''"
  have "join_with [slash] ns = ''.''"
    using dot by (auto simp: path_match_string_def map_eq_Cons_conv split: if_splits)
  moreover obtain p ps where "ns = p # ps" using \<open>join_with [slash] ns = ''.''\<close> by (cases ns) auto
  ultimately show False
    using ns by (cases p) (auto simp: join_with_Cons piece_def)
qed

lemma path_forms_by_place:
  assumes "is_absolute cwd"
  shows "path_match_forms p (Some cwd) =
     (let here = place [] cwd; there = place here p;
          rel = path_match_string (join_with [slash] (drop (length here) there))
      in if is_tilde_path p then [path_match_string p]
         else path_match_string (slash # join_with [slash] there) #
           (if \<not> prefix here there then [] else if here = there then [''.'', ''./''] else [''./'' @ rel, rel]))"
proof (cases "is_tilde_path p")
  case True
  with assms show ?thesis
    by (simp add: path_match_forms_def absolute_normalized_path_def not_prefix_tilde)
next
  case False
  note j = joined_place [OF assms, of p]
  note n = normalized_absolute_text [OF j(1), unfolded j(2)]
  let ?rest = "drop (length (place [] cwd)) (place (place [] cwd) p)"
  have rest: "list_all piece ?rest" using n(2) by (rule list_all_drop)
  have "?rest = [] \<longleftrightarrow> place [] cwd = place (place [] cwd) p" if "prefix (place [] cwd) (place (place [] cwd) p)"
    using that by (auto simp: prefix_def)
  with False strip_prefix_absolute [OF j(1) assms] drop_joined_empty [OF rest] drop_joined_dot [OF rest]
  show ?thesis
    by (simp add: path_match_forms_def absolute_normalized_path_def n(1) j(2) Let_def)
qed

text \<open>
  C26: what a path rule is matched against below an absolute working directory is decided by the
  place the tool path leads to, not by its spelling: the absolute path to that place, and, exactly
  when the place lies at or below the working directory, the path relative to it with and without
  \<open>./\<close>. So no number of \<open>..\<close> makes a path outside look like one inside. A tilde path is
  matched as it is written and never looks relative.
\<close>

theorem spellings_follow_the_place:
  assumes "is_absolute cwd"
  shows "path_match_forms p (Some cwd) =
     (let here = place [] cwd; there = place here p;
          rel = path_match_string (join_with [slash] (drop (length here) there))
      in if is_tilde_path p then [path_match_string p]
         else path_match_string (slash # join_with [slash] there) #
           (if \<not> prefix here there then [] else if here = there then [''.'', ''./''] else [''./'' @ rel, rel]))"
  using assms by (rule path_forms_by_place)

lemma spellings_follow_the_place_witness:
  "path_match_forms ''src/../../etc'' (Some ''/w'') = [''/etc'']
   \<and> path_match_forms ''src//./a'' (Some ''/w'') = [''/w/src/a'', ''./src/a'', ''src/a'']"
  unfolding spellings_follow_the_place [of "''/w''" "''src/../../etc''", unfolded is_absolute_def slash_def, simplified]
    spellings_follow_the_place [of "''/w''" "''src//./a''", unfolded is_absolute_def slash_def, simplified]
  by code_simp

end
