(* ===== verification/Inline_Shell.thy ===== *)
theory Inline_Shell
  imports Command_Words
begin

text \<open>
  \<open>shell_dash_c_script\<close> of \<open>permission/policy.rs\<close>: which word of a shell's command line, if any, the
  shell runs as a script because of \<open>-c\<close>. The loop over the options keeps the index of the word it
  reads and two flags.
\<close>

section \<open>Words and verdicts\<close>

datatype shell_word = Literal string | Untrusted_Word

definition shell_words :: "string list \<Rightarrow> shell_word list" where
  "shell_words ws = map Literal ws"

datatype inline_shell_script = NotInline | Literal_Script nat | Untrusted | Unrecognized

fun is_potential_inline :: "inline_shell_script \<Rightarrow> bool" where
  "is_potential_inline (Literal_Script _) = True"
| "is_potential_inline Untrusted = True"
| "is_potential_inline _ = False"

section \<open>The option loop\<close>

text \<open>The closures \<open>ambiguous\<close> and \<open>finish_literal\<close>, and the verdict on words without \<open>-c\<close>.\<close>

definition ambiguous_shell :: "bool \<Rightarrow> inline_shell_script" where
  "ambiguous_shell saw_c = (if saw_c then Untrusted else Unrecognized)"

definition finish_literal :: "bool \<Rightarrow> nat \<Rightarrow> inline_shell_script" where
  "finish_literal dynamic_head i = (if dynamic_head then Untrusted else Literal_Script i)"

definition no_script :: "bool \<Rightarrow> inline_shell_script" where
  "no_script unrecognized = (if unrecognized then Unrecognized else NotInline)"

definition is_option :: "string \<Rightarrow> bool" where
  "is_option w = (prefix ''-'' w \<or> prefix ''+'' w)"

text \<open>What one option word makes of the scan: skip it, skip it with its operand, or stop.\<close>

datatype option_step = Skip bool bool | Skip2 | Stop inline_shell_script

definition option_word :: "string \<Rightarrow> shell_word list \<Rightarrow> bool \<Rightarrow> bool \<Rightarrow> option_step" where
  "option_word w rest saw_c unrecognized =
     (if w = ''--init-file'' \<or> w = ''--rcfile'' then
        (case rest of Literal _ # _ \<Rightarrow> Skip2 | _ \<Rightarrow> Stop (ambiguous_shell saw_c))
      else if prefix ''--'' w then
        (if w \<in> {''--noprofile'', ''--norc'', ''--posix''} then Skip saw_c unrecognized
         else if saw_c then Stop Untrusted
         else Skip saw_c True)
      else if w \<in> {''-o'', ''+o'', ''-O'', ''+O''} then
        (case rest of
           Literal v # _ \<Rightarrow> if \<not> prefix ''-'' v then Skip2 else Stop (ambiguous_shell saw_c)
         | _ \<Rightarrow> Stop (ambiguous_shell saw_c))
      else if prefix ''-O'' w \<and> 2 < length w then Skip saw_c unrecognized
      else if (prefix ''+O'' w \<or> prefix ''+o'' w) \<and> 2 < length w then Skip saw_c unrecognized
      else if prefix ''-o'' w \<and> 2 < length w then Stop (ambiguous_shell saw_c)
      else if prefix ''+'' w then Skip saw_c unrecognized
      else if CHR ''o'' \<in> set (tl w) \<or> CHR ''O'' \<in> set (tl w) then Stop (ambiguous_shell saw_c)
      else Skip (saw_c \<or> CHR ''c'' \<in> set (tl w)) unrecognized)"

fun option_loop :: "bool \<Rightarrow> shell_word list \<Rightarrow> nat \<Rightarrow> bool \<Rightarrow> bool \<Rightarrow> inline_shell_script" where
  "option_loop dynamic_head [] i saw_c unrecognized =
     (if saw_c then Untrusted else no_script unrecognized)"
| "option_loop dynamic_head (Untrusted_Word # rest) i saw_c unrecognized = ambiguous_shell saw_c"
| "option_loop dynamic_head (Literal w # rest) i saw_c unrecognized =
     (if w = ''--'' \<or> w = ''-'' then
        (if \<not> saw_c then no_script unrecognized
         else (case rest of Literal _ # _ \<Rightarrow> finish_literal dynamic_head (i + 1) | _ \<Rightarrow> Untrusted))
      else if \<not> is_option w then
        (if saw_c then finish_literal dynamic_head i else no_script unrecognized)
      else (case option_word w rest saw_c unrecognized of
              Skip c u \<Rightarrow> option_loop dynamic_head rest (i + 1) c u
            | Skip2 \<Rightarrow> option_loop dynamic_head (drop 1 rest) (i + 2) saw_c unrecognized
            | Stop verdict \<Rightarrow> verdict))"

definition shell_dash_c_script :: "shell_word list \<Rightarrow> inline_shell_script" where
  "shell_dash_c_script ws =
     (case ws of
        [] \<Rightarrow> NotInline
      | Literal program # rest \<Rightarrow>
          (if basename program \<notin> {''bash'', ''sh'', ''dash'', ''zsh'', ''ksh''} then NotInline
           else option_loop False rest 1 False False)
      | Untrusted_Word # rest \<Rightarrow> option_loop True rest 1 False False)"

section \<open>Where a script can be\<close>

lemma option_word_Stop: "option_word w rest c u = Stop v \<Longrightarrow> v = Untrusted \<or> v = Unrecognized"
  by (auto simp: option_word_def ambiguous_shell_def split: if_split_asm list.splits shell_word.splits)

lemma option_word_Skip2: "option_word w rest c u = Skip2 \<Longrightarrow> \<exists>v ws. rest = Literal v # ws"
  by (auto simp: option_word_def split: if_split_asm list.splits shell_word.splits)

definition c_cluster :: "string \<Rightarrow> bool" where
  "c_cluster w \<longleftrightarrow> prefix ''-'' w \<and> \<not> prefix ''--'' w \<and> CHR ''c'' \<in> set (tl w)"

lemma option_word_Skip: "option_word w rest c u = Skip c' u' \<Longrightarrow> is_option w \<Longrightarrow> c' \<longleftrightarrow> c \<or> c_cluster w \<and> c'"
  by (auto simp: option_word_def c_cluster_def is_option_def split: if_split_asm list.splits shell_word.splits)

lemma finish_literal_Script [simp]: "finish_literal h i = Literal_Script k \<longleftrightarrow> \<not> h \<and> k = i"
  by (auto simp: finish_literal_def)

lemma not_script [simp]: "ambiguous_shell c \<noteq> Literal_Script k" "no_script u \<noteq> Literal_Script k"
  by (simp_all add: ambiguous_shell_def no_script_def)

definition script_at :: "shell_word list \<Rightarrow> bool \<Rightarrow> nat \<Rightarrow> bool" where
  "script_at rest c n \<longleftrightarrow> n < length rest \<and> (\<exists>v. rest ! n = Literal v) \<and>
     (c \<or> (\<exists>m<n. \<exists>w. rest ! m = Literal w \<and> c_cluster w))"

lemma script_at_Cons: "script_at rest c n \<Longrightarrow> c \<longrightarrow> c' \<or> c_cluster w \<Longrightarrow> script_at (Literal w # rest) c' (Suc n)"
  unfolding script_at_def by (auto 0 4 intro: exI [of _ "Suc _"] exI [of _ 0])

lemma option_loop_script:
  "option_loop h rest i c u = Literal_Script k \<Longrightarrow> \<not> h \<and> (\<exists>n. k = i + n \<and> script_at rest c n)"
proof (induction h rest i c u rule: option_loop.induct)
  case (3 h w rest i c u)
  consider (dash) "w = ''--'' \<or> w = ''-''" | (operand) "\<not> (w = ''--'' \<or> w = ''-'')" "\<not> is_option w"
    | (option) "\<not> (w = ''--'' \<or> w = ''-'')" "is_option w" by blast
  then show ?case
  proof cases
    case dash
    with "3.prems" obtain v ws where "c" "rest = Literal v # ws" "k = i + 1" "\<not> h"
      by (auto split: if_split_asm list.splits shell_word.splits)
    then show ?thesis by (auto simp: script_at_def intro!: exI [of _ 1])
  next
    case operand
    with "3.prems" have "c" "k = i" "\<not> h" by (auto split: if_split_asm)
    then show ?thesis by (auto simp: script_at_def)
  next
    case option
    show ?thesis
    proof (cases "option_word w rest c u")
      case (Skip c' u')
      with option "3.prems" have "option_loop h rest (i + 1) c' u' = Literal_Script k" by simp
      with "3.IH"(1) [OF option(1) _ Skip] option(2)
      obtain n where "\<not> h" "k = i + 1 + n" "script_at rest c' n" by auto
      moreover have "c' \<longrightarrow> c \<or> c_cluster w" using option_word_Skip [OF Skip option(2)] by blast
      ultimately show ?thesis using script_at_Cons by fastforce
    next
      case Skip2
      from option_word_Skip2 [OF this] obtain v ws where rest: "rest = Literal v # ws" by blast
      with option "3.prems" Skip2 have "option_loop h (drop 1 rest) (i + 2) c u = Literal_Script k" by simp
      with "3.IH"(2) [OF option(1) _ Skip2] option(2)
      obtain n where "\<not> h" "k = i + 2 + n" "script_at ws c n" by (auto simp: rest)
      then have "script_at (Literal w # rest) c (Suc (Suc n))"
        unfolding rest by (intro script_at_Cons [of _ c]) auto
      with \<open>\<not> h\<close> \<open>k = i + 2 + n\<close> show ?thesis by (auto intro!: exI [of _ "Suc (Suc n)"])
    next
      case (Stop v)
      with option "3.prems" option_word_Stop [OF Stop] show ?thesis by auto
    qed
  qed
qed (simp_all split: if_split_asm)

section \<open>Plain option lists\<close>

text \<open>Options that neither take an operand nor are unknown.\<close>

definition plain_option :: "string \<Rightarrow> bool" where
  "plain_option w \<longleftrightarrow> w \<in> {''--noprofile'', ''--norc'', ''--posix''} \<or>
     (\<exists>flags. w = CHR ''-'' # flags \<and> flags \<noteq> [] \<and> set flags \<inter> set ''oO-'' = {})"

lemma option_word_plain:
  assumes "plain_option w"
  shows "option_word w rest c u = Skip (c \<or> c_cluster w) u \<and> is_option w \<and> w \<noteq> ''--'' \<and> w \<noteq> ''-''"
  using assms unfolding plain_option_def
proof
  assume "w \<in> {''--noprofile'', ''--norc'', ''--posix''}"
  then show ?thesis by (elim insertE emptyE; hypsubst; simp add: option_word_def c_cluster_def is_option_def)
next
  assume "\<exists>flags. w = CHR ''-'' # flags \<and> flags \<noteq> [] \<and> set flags \<inter> set ''oO-'' = {}"
  then obtain flags where w: "w = CHR ''-'' # flags" "flags \<noteq> []" "set flags \<inter> set ''oO-'' = {}" by blast
  have np: "\<not> prefix ''--'' w" "\<not> prefix ''-o'' w" "\<not> prefix ''-O'' w" "\<not> prefix ''+'' w"
    "\<not> prefix ''+O'' w" "\<not> prefix ''+o'' w"
    using w by (auto simp: prefix_def)
  have no: "CHR ''o'' \<notin> set (tl w)" "CHR ''O'' \<notin> set (tl w)" and dash: "prefix ''-'' w"
    using w by auto
  have "w \<notin> {''-o'', ''+o'', ''-O'', ''+O''}" "w \<noteq> ''--init-file'' \<and> w \<noteq> ''--rcfile''" "w \<noteq> ''--'' \<and> w \<noteq> ''-''"
    using w by auto
  with np no dash show ?thesis by (simp add: option_word_def c_cluster_def is_option_def)
qed

lemma option_loop_plain:
  "list_all plain_option opts \<Longrightarrow> option_loop h (map Literal opts @ rest) i c u =
     option_loop h rest (i + length opts) (c \<or> list_ex c_cluster opts) u"
  by (induction opts arbitrary: i c) (simp_all add: option_word_plain disj_assoc)

section \<open>Properties\<close>

text \<open>
  Whatever words a command has, an index that is reported as the inline script is within the
  command line, so reading the word there cannot fail; the word is a literal after a literal head
  that is one of the shells, and an option cluster with \<open>c\<close> stands between the two.
\<close>

theorem inline_script_is_an_operand:
  assumes "shell_dash_c_script ws = Literal_Script i"
  shows "1 < i \<and> i < length ws \<and> (\<exists>v. ws ! i = Literal v)
     \<and> (\<exists>p. ws ! 0 = Literal p \<and> basename p \<in> {''bash'', ''sh'', ''dash'', ''zsh'', ''ksh''})
     \<and> (\<exists>j w. 0 < j \<and> j < i \<and> ws ! j = Literal w \<and> c_cluster w)"
proof -
  obtain h rest where ws: "ws = h # rest"
    using assms by (cases ws) (simp_all add: shell_dash_c_script_def)
  obtain p where h: "h = Literal p"
    and p: "basename p \<in> {''bash'', ''sh'', ''dash'', ''zsh'', ''ksh''}"
    and loop: "option_loop False rest 1 False False = Literal_Script i"
  proof (cases h)
    case Untrusted_Word
    with assms ws option_loop_script [of True rest 1 False False i] show thesis
      by (simp add: shell_dash_c_script_def)
  next
    case (Literal p)
    with assms ws have "basename p \<in> {''bash'', ''sh'', ''dash'', ''zsh'', ''ksh''}"
      and "option_loop False rest 1 False False = Literal_Script i"
      by (simp_all only: shell_dash_c_script_def list.case shell_word.case split: if_split_asm)
        simp_all
    with Literal show thesis by (rule that)
  qed
  from option_loop_script [OF loop] obtain n where n: "i = 1 + n" "script_at rest False n" by auto
  then obtain m w where "n < length rest" "\<exists>v. rest ! n = Literal v" "m < n" "rest ! m = Literal w" "c_cluster w"
    by (auto simp: script_at_def)
  with n p h ws show ?thesis by (auto intro!: exI [of _ "Suc m"])
qed

lemma inline_script_is_an_operand_witness:
  "shell_dash_c_script (shell_words [''/bin/bash'', ''--norc'', ''-xc'', ''rm -rf /'', ''arg'']) = Literal_Script 3
   \<and> (3::nat) < 5"
proof -
  let ?ws = "shell_words [''/bin/bash'', ''--norc'', ''-xc'', ''rm -rf /'', ''arg'']"
  have e: "shell_dash_c_script ?ws = Literal_Script 3" by code_simp
  from inline_script_is_an_operand [OF this] have "3 < length ?ws" by blast
  with e show ?thesis by (simp add: shell_words_def)
qed

text \<open>
  On a command line of a shell whose options are known flags, the script is found exactly as
  the shell would: it is the first operand when one of the clusters has a \<open>c\<close>, and without a \<open>c\<close>
  the command is not inline.
\<close>

theorem inline_script_is_found:
  assumes "basename p \<in> {''bash'', ''sh'', ''dash'', ''zsh'', ''ksh''}"
    and "list_all plain_option opts" and "\<not> is_option operand"
  shows "shell_dash_c_script (shell_words (p # opts @ operand # args)) =
     (if list_ex c_cluster opts then Literal_Script (length opts + 1) else NotInline)"
proof -
  have "operand \<noteq> ''--'' \<and> operand \<noteq> ''-''" using assms(3) by (auto simp: is_option_def)
  with assms show ?thesis
    by (simp add: shell_dash_c_script_def shell_words_def option_loop_plain no_script_def finish_literal_def)
qed

lemma inline_script_is_found_witness:
  "shell_dash_c_script (shell_words [''sh'', ''-e'', ''-c'', ''ls'', ''x'']) = Literal_Script 3"
  using inline_script_is_found [of "''sh''" "[''-e'', ''-c'']" "''ls''" "[''x'']"]
  by (simp add: plain_option_def is_option_def c_cluster_def basename_def rsplit_last_def backslash_def)

end
