(* ===== verification/Decision_Order.thy ===== *)
theory Decision_Order
  imports Permission_Types
begin

text \<open>
  How \<open>permission/policy.rs\<close> combines verdicts: the gate decisions with the provenance of an \<open>Ask\<close>,
  the plain decisions, and the two functions that keep the stronger of two optional verdicts. Both
  meet one contract, the locale \<open>ranked_choice\<close>.
\<close>

section \<open>Gate decisions\<close>

datatype gate_decision = GD_Reject string | AskRuleMatch | AskFailClosed

fun into_decision :: "gate_decision \<Rightarrow> decision" where
  "into_decision (GD_Reject why) = Reject why"
| "into_decision AskRuleMatch = Ask"
| "into_decision AskFailClosed = Ask"

fun is_ask :: "gate_decision \<Rightarrow> bool" where
  "is_ask (GD_Reject _) = False"
| "is_ask AskRuleMatch = True"
| "is_ask AskFailClosed = True"

fun gate_rank :: "gate_decision \<Rightarrow> nat" where
  "gate_rank (GD_Reject _) = 3"
| "gate_rank AskRuleMatch = 2"
| "gate_rank AskFailClosed = 1"

fun combine_gate_decisions ::
  "gate_decision option \<Rightarrow> gate_decision option \<Rightarrow> gate_decision option" where
  "combine_gate_decisions None other = other"
| "combine_gate_decisions other None = other"
| "combine_gate_decisions (Some a) (Some b) = Some (if gate_rank b \<le> gate_rank a then a else b)"

section \<open>Plain decisions\<close>

fun decision_rank :: "decision \<Rightarrow> nat" where
  "decision_rank (Reject _) = 3"
| "decision_rank (PolicyDeny _) = 3"
| "decision_rank Ask = 2"
| "decision_rank Allow = 1"
| "decision_rank (FollowupMessage _) = 0"
| "decision_rank Cancelled = 0"

fun combine_decisions :: "decision option \<Rightarrow> decision option \<Rightarrow> decision option" where
  "combine_decisions None other = other"
| "combine_decisions other None = other"
| "combine_decisions (Some a) (Some b) = Some (if decision_rank b \<le> decision_rank a then a else b)"

section \<open>Keeping the stronger verdict\<close>

text \<open>The height of an optional verdict: no verdict is below every verdict.\<close>

definition height :: "('a \<Rightarrow> nat) \<Rightarrow> 'a option \<Rightarrow> nat" where
  "height rk v = (case v of None \<Rightarrow> 0 | Some x \<Rightarrow> Suc (rk x))"

lemma height_simps [simp]: "height rk None = 0" "height rk (Some x) = Suc (rk x)"
  by (simp_all add: height_def)

lemma height_0 [simp]: "height rk v = 0 \<longleftrightarrow> v = None"
  by (cases v) simp_all

locale ranked_choice =
  fixes combine :: "'a option \<Rightarrow> 'a option \<Rightarrow> 'a option" and rk :: "'a \<Rightarrow> nat"
  assumes combine_spec: "combine a b = (if height rk b \<le> height rk a then a else b)"
begin

lemma unit: "combine None b = b" "combine a None = a"
  by (auto simp: combine_spec)

lemma assoc: "combine (combine a b) c = combine a (combine b c)"
  by (simp add: combine_spec)

lemma height_combine: "height rk (combine a b) = max (height rk a) (height rk b)"
  by (simp add: combine_spec max_def)

lemma one_of: "combine a b = a \<or> combine a b = b"
  by (simp add: combine_spec)

text \<open>A loop that combines what each element yields into an accumulator.\<close>

lemma fold_height:
  "height rk (foldl (\<lambda>d x. combine d (f x)) acc xs) =
     max (height rk acc) (foldr (\<lambda>x. max (height rk (f x))) xs 0)"
  by (induction xs arbitrary: acc) (simp_all add: height_combine max.assoc)

lemma fold_ge:
  "x \<in> set xs \<Longrightarrow> height rk (f x) \<le> height rk (foldl (\<lambda>d x. combine d (f x)) acc xs)"
proof (induction xs arbitrary: acc)
  case (Cons y ys)
  have "height rk (foldl (\<lambda>d x. combine d (f x)) acc (y # ys)) \<ge> height rk (f y)"
    by (simp add: fold_height height_combine)
  with Cons show ?case by auto
qed simp

lemma fold_ge_acc: "height rk acc \<le> height rk (foldl (\<lambda>d x. combine d (f x)) acc xs)"
  by (simp add: fold_height)

lemma fold_one_of:
  "foldl (\<lambda>d x. combine d (f x)) acc xs = acc \<or> (\<exists>x\<in>set xs. foldl (\<lambda>d x. combine d (f x)) acc xs = f x)"
proof (induction xs arbitrary: acc)
  case (Cons y ys)
  from Cons.IH [of "combine acc (f y)"] one_of [of acc "f y"] show ?case by auto
qed simp

end

interpretation gates: ranked_choice combine_gate_decisions gate_rank
proof
  show "combine_gate_decisions a b = (if height gate_rank b \<le> height gate_rank a then a else b)" for a b
    by (cases a; cases b) simp_all
qed

interpretation decisions: ranked_choice combine_decisions decision_rank
proof
  show "combine_decisions a b = (if height decision_rank b \<le> height decision_rank a then a else b)" for a b
    by (cases a; cases b) simp_all
qed

definition rejects :: "gate_decision option \<Rightarrow> bool" where
  "rejects g \<longleftrightarrow> (\<exists>r. g = Some (GD_Reject r))"

lemma rejects_height: "rejects g \<longleftrightarrow> 4 \<le> height gate_rank g"
proof (cases g)
  case (Some d)
  then show ?thesis by (cases d) (simp_all add: rejects_def)
qed (simp add: rejects_def)

lemma rank_into_decision: "decision_rank (into_decision a) \<le> decision_rank (into_decision b)" if "gate_rank a \<le> gate_rank b"
  using that by (cases a; cases b) simp_all

section \<open>Properties\<close>

text \<open>
  Forgetting where an \<open>Ask\<close> came from may be done before or after the combination. The plain
  decisions implement the gate decisions: the two orders of work give the same verdict, and both
  ways of combining are associative, have the missing verdict as unit and keep the higher rank.
\<close>

theorem combining_commutes_with_forgetting:
  "map_option into_decision (combine_gate_decisions a b) =
     combine_decisions (map_option into_decision a) (map_option into_decision b)
   \<and> combine_gate_decisions (combine_gate_decisions a b) c = combine_gate_decisions a (combine_gate_decisions b c)
   \<and> combine_decisions (combine_decisions x y) z = combine_decisions x (combine_decisions y z)
   \<and> height decision_rank (combine_decisions x y) = max (height decision_rank x) (height decision_rank y)
   \<and> height gate_rank (combine_gate_decisions a b) = max (height gate_rank a) (height gate_rank b)"
proof (intro conjI)
  show "map_option into_decision (combine_gate_decisions a b) =
      combine_decisions (map_option into_decision a) (map_option into_decision b)"
  proof (cases a)
    case (Some p)
    show ?thesis
    proof (cases b)
      case (Some q)
      with \<open>a = Some p\<close> show ?thesis by (cases p; cases q) simp_all
    qed (simp add: \<open>a = Some p\<close> gates.unit decisions.unit)
  qed simp
qed (simp_all only: gates.assoc decisions.assoc gates.height_combine decisions.height_combine)

end
