(* ===== verification/Permission_Policy.thy ===== *)
theory Permission_Policy
  imports Rule_Matching Decision_Order Inline_Shell Shell_Tree
begin

text \<open>
  The compiled permission policy of \<open>permission/policy.rs\<close>: the rules with their matchers, the
  evaluation of an access by the precedence deny, ask, allow, the conjunctive allow of a bash chain,
  the re-check of a followed symbolic link, and the gate that checks every command of a script.
\<close>

section \<open>Compiling a policy\<close>

record compiled_policy =
  policy_config :: permission_config
  matchers :: "glob_pattern option list"
  has_file_restrictions :: bool
  has_bash_command_restrictions :: bool
  has_bash_allow_rules :: bool
  catchall :: "bool list"

definition restricts :: "permission_rule \<Rightarrow> bool" where
  "restricts r = (action r = RA_Deny \<or> action r = RA_Ask)"

definition policy_new :: "environment \<Rightarrow> permission_config \<Rightarrow> compiled_policy" where
  "policy_new env cfg =
     \<lparr>policy_config = cfg,
      matchers = map (compile_matcher env) (rules cfg),
      has_file_restrictions = list_ex (\<lambda>r. restricts r \<and> tool r \<in> {TF_Read, TF_Edit, TF_Any}) (rules cfg),
      has_bash_command_restrictions = list_ex (\<lambda>r. restricts r \<and> tool r \<in> {TF_Bash, TF_Any}) (rules cfg),
      has_bash_allow_rules = list_ex (\<lambda>r. action r = RA_Allow \<and> tool r \<in> {TF_Bash, TF_Any}) (rules cfg),
      catchall = map (rule_is_catchall env) (rules cfg)\<rparr>"

section \<open>The conjunctive allow of a bash chain\<close>

datatype allow_rule_scope = Any_Rule | NarrowOnly

definition bash_words_allowed ::
  "environment \<Rightarrow> compiled_policy \<Rightarrow> string list \<Rightarrow> allow_rule_scope \<Rightarrow> bool" where
  "bash_words_allowed env p ws scope =
     (if ws = [] then False
      else (let narrow_only = (scope = NarrowOnly)
            in if narrow_only \<and> head_is_exec_vehicle ws then False
               else (let cmd = join_with '' '' ws
                     in list_ex (\<lambda>((r, matcher), wide).
                          \<not> (narrow_only \<and> wide) \<and> action r = RA_Allow \<and> tool r \<in> {TF_Bash, TF_Any}
                          \<and> bash_allow_pattern_matches env cmd r matcher)
                        (zip (zip (rules (policy_config p)) (matchers p)) (catchall p)))))"

text \<open>One command of the chain; \<open>inner\<close> is the recursive call while there is depth left for one.\<close>

definition segment_allowed ::
  "environment \<Rightarrow> compiled_policy \<Rightarrow> allow_rule_scope \<Rightarrow> (string \<Rightarrow> bool) option \<Rightarrow> plain_command \<Rightarrow> bool" where
  "segment_allowed env p scope inner c =
     (let norm = normalize_command_words (pc_words c)
      in if exhausted norm \<or> ambiguous norm \<or> env_options_uncertain norm \<or> has_split_string norm then False
         else if \<not> bash_words_allowed env p (words norm) scope then False
         else (case shell_dash_c_script (shell_words (words norm)) of
                 Literal_Script i \<Rightarrow> (case inner of Some f \<Rightarrow> f (words norm ! i) | None \<Rightarrow> False)
               | NotInline \<Rightarrow> True
               | _ \<Rightarrow> False))"

definition chain_allowed ::
  "environment \<Rightarrow> shell_parser \<Rightarrow> compiled_policy \<Rightarrow> allow_rule_scope \<Rightarrow> (string \<Rightarrow> bool) option \<Rightarrow> string \<Rightarrow> bool" where
  "chain_allowed env parse p scope inner cmd =
     (case all_commands_from_script parse cmd of
        None \<Rightarrow> False
      | Some segments \<Rightarrow> if segments = [] then False else list_all (segment_allowed env p scope inner) segments)"

fun bash_chain_fully_allowed ::
  "environment \<Rightarrow> shell_parser \<Rightarrow> compiled_policy \<Rightarrow> allow_rule_scope \<Rightarrow> nat \<Rightarrow> string \<Rightarrow> bool" where
  "bash_chain_fully_allowed env parse p scope 0 cmd = chain_allowed env parse p scope None cmd"
| "bash_chain_fully_allowed env parse p scope (Suc n) cmd =
     chain_allowed env parse p scope (Some (bash_chain_fully_allowed env parse p scope n)) cmd"

definition narrow_allow_authorizes ::
  "environment \<Rightarrow> shell_parser \<Rightarrow> compiled_policy \<Rightarrow> access_kind \<Rightarrow> bool" where
  "narrow_allow_authorizes env parse p access =
     (case access of
        Bash cmd \<Rightarrow> has_bash_allow_rules p
          \<and> bash_chain_fully_allowed env parse p NarrowOnly MAX_INLINE_SHELL_DEPTH cmd
      | _ \<Rightarrow> False)"

section \<open>Deny, ask, allow\<close>

fun tool_label :: "tool_filter \<Rightarrow> string" where
  "tool_label TF_Any = ''any tool''"
| "tool_label TF_Bash = ''bash''"
| "tool_label TF_Edit = ''edit''"
| "tool_label TF_Read = ''read''"
| "tool_label TF_Grep = ''grep''"
| "tool_label TF_Mcp = ''mcp''"
| "tool_label TF_WebFetch = ''web_fetch''"
| "tool_label TF_WebSearch = ''web_search''"
| "tool_label TF_AgentMessage = ''agent_message''"

definition deny_reason :: "permission_rule \<Rightarrow> string" where
  "deny_reason r =
     (case pattern r of
        Some pat \<Rightarrow> ''Denied by permission policy: deny rule on '' @ tool_label (tool r) @ '' matching ''
          @ [dquote] @ pat @ [dquote]
      | None \<Rightarrow> ''Denied by permission policy: deny rule on '' @ tool_label (tool r))"

text \<open>The loop over the rules: a matching deny rule returns its reason, the others raise a flag.\<close>

fun rule_scan ::
  "environment \<Rightarrow> access_kind \<Rightarrow> string option \<Rightarrow> (permission_rule \<times> glob_pattern option) list
    \<Rightarrow> bool \<Rightarrow> bool \<Rightarrow> (string, bool \<times> bool) res" where
  "rule_scan env access cwd [] matched_ask matched_allow = Inr (matched_ask, matched_allow)"
| "rule_scan env access cwd ((r, matcher) # rest) matched_ask matched_allow =
     (if \<not> tool_filter_matches access (tool r) then rule_scan env access cwd rest matched_ask matched_allow
      else if \<not> pattern_matches env access r matcher cwd then rule_scan env access cwd rest matched_ask matched_allow
      else (case action r of
              RA_Deny \<Rightarrow> Inl (deny_reason r)
            | RA_Ask \<Rightarrow> rule_scan env access cwd rest True matched_allow
            | RA_Allow \<Rightarrow> rule_scan env access cwd rest matched_ask True))"

definition evaluate_lexical_with_cwd ::
  "environment \<Rightarrow> shell_parser \<Rightarrow> compiled_policy \<Rightarrow> access_kind \<Rightarrow> string option \<Rightarrow> decision option" where
  "evaluate_lexical_with_cwd env parse p access cwd =
     (case rule_scan env access cwd (zip (rules (policy_config p)) (matchers p)) False False of
        Inl why \<Rightarrow> Some (Reject why)
      | Inr (matched_ask, matched_allow) \<Rightarrow>
          if matched_ask then Some Ask
          else (case access of
                  Bash cmd \<Rightarrow>
                    if has_bash_allow_rules p
                       \<and> bash_chain_fully_allowed env parse p Any_Rule MAX_INLINE_SHELL_DEPTH cmd
                    then Some Allow else None
                | _ \<Rightarrow> if matched_allow then Some Allow else None))"

section \<open>Symbolic links\<close>

fun native_file_path :: "access_kind \<Rightarrow> string option" where
  "native_file_path (Edit p) = Some p"
| "native_file_path (Read (Some p)) = Some p"
| "native_file_path (Grep (Some p) _) = Some p"
| "native_file_path _ = None"

text \<open>Only called on an access that has a native path.\<close>

fun access_with_path :: "access_kind \<Rightarrow> string \<Rightarrow> access_kind" where
  "access_with_path (Edit _) p = Edit p"
| "access_with_path (Read _) p = Read (Some p)"
| "access_with_path (Grep _ g) p = Grep (Some p) g"
| "access_with_path access p = access"

definition native_path_restrictions_apply :: "compiled_policy \<Rightarrow> access_kind \<Rightarrow> bool" where
  "native_path_restrictions_apply p access =
     list_ex (\<lambda>r. restricts r \<and> tool_filter_matches access (tool r)) (rules (policy_config p))"

definition evaluate_with_cwd_details ::
  "environment \<Rightarrow> shell_parser \<Rightarrow> compiled_policy \<Rightarrow> access_kind \<Rightarrow> string option \<Rightarrow> decision option \<times> bool" where
  "evaluate_with_cwd_details env parse p access cwd =
     (let lexical = evaluate_lexical_with_cwd env parse p access cwd
      in case native_file_path access of
           None \<Rightarrow> (lexical, False)
         | Some path \<Rightarrow>
             (case raw_absolute_tool_path path cwd of
                None \<Rightarrow> (lexical, False)
              | Some raw_absolute \<Rightarrow>
                  (let lexical_abs = path_match_string (absolute_normalized_path path cwd)
                   in case follow_absolute_symlink (files env) raw_absolute lexical_abs of
                        Target resolved \<Rightarrow>
                          (let resolved_decision =
                             (case evaluate_lexical_with_cwd env parse p (access_with_path access resolved) cwd of
                                Some (Reject why) \<Rightarrow> Some (Reject why)
                              | Some Ask \<Rightarrow> Some Ask
                              | _ \<Rightarrow> None)
                           in (combine_decisions lexical resolved_decision, False))
                      | Unresolvable \<Rightarrow>
                          if native_path_restrictions_apply p access
                          then (combine_decisions lexical (Some Ask), True)
                          else (lexical, False)
                      | No_Follow \<Rightarrow> (lexical, False))))"

definition evaluate_with_cwd ::
  "environment \<Rightarrow> shell_parser \<Rightarrow> compiled_policy \<Rightarrow> access_kind \<Rightarrow> string option \<Rightarrow> decision option" where
  "evaluate_with_cwd env parse p access cwd = fst (evaluate_with_cwd_details env parse p access cwd)"

definition evaluate :: "environment \<Rightarrow> shell_parser \<Rightarrow> compiled_policy \<Rightarrow> access_kind \<Rightarrow> decision option" where
  "evaluate env parse p access = evaluate_with_cwd env parse p access None"

section \<open>The gate on every command of a script\<close>

definition escalate :: "environment \<Rightarrow> shell_parser \<Rightarrow> compiled_policy \<Rightarrow> string \<Rightarrow> gate_decision option" where
  "escalate env parse p segment =
     (case evaluate env parse p (Bash segment) of
        Some (Reject why) \<Rightarrow> Some (GD_Reject why)
      | Some Ask \<Rightarrow> Some AskRuleMatch
      | _ \<Rightarrow> None)"

definition ask_if :: "bool \<Rightarrow> gate_decision option" where
  "ask_if b = (if b then Some AskFailClosed else None)"

text \<open>What the recursion yields for an inner script, \<open>Ask\<close> when its depth is used up.\<close>

definition recurse :: "(string \<Rightarrow> gate_decision option) option \<Rightarrow> string \<Rightarrow> gate_decision option" where
  "recurse inner script = (case inner of Some f \<Rightarrow> f script | None \<Rightarrow> Some AskFailClosed)"

definition evaluate_command_words ::
  "environment \<Rightarrow> shell_parser \<Rightarrow> compiled_policy \<Rightarrow> (string \<Rightarrow> gate_decision option) option
    \<Rightarrow> string list \<Rightarrow> gate_decision option" where
  "evaluate_command_words env parse p inner raw_words =
     (let norm = normalize_command_words raw_words;
          d0 = ask_if (exhausted norm \<or> ambiguous norm \<or> env_options_uncertain norm);
          d1 = combine_gate_decisions d0 (ask_if (has_split_string norm));
          inner_words = words norm;
          forms = raw_words # (if length inner_words \<noteq> length raw_words then [inner_words] else []);
          d2 = foldl (\<lambda>d ws. combine_gate_decisions d (escalate env parse p (join_with '' '' ws))) d1 forms;
          d3 = (case shell_dash_c_script (shell_words inner_words) of
                  Literal_Script i \<Rightarrow> combine_gate_decisions d2 (recurse inner (inner_words ! i))
                | NotInline \<Rightarrow> d2
                | _ \<Rightarrow> combine_gate_decisions d2 (Some AskFailClosed))
      in case env_split_string_script inner_words of
           Some script \<Rightarrow> combine_gate_decisions d3 (recurse inner script)
         | None \<Rightarrow> d3)"

definition evaluate_segments ::
  "environment \<Rightarrow> shell_parser \<Rightarrow> compiled_policy \<Rightarrow> (string \<Rightarrow> gate_decision option) option
    \<Rightarrow> string \<Rightarrow> gate_decision option" where
  "evaluate_segments env parse p inner cmd =
     (case all_commands_from_script parse cmd of
        None \<Rightarrow> Some AskFailClosed
      | Some segments \<Rightarrow>
          foldl (\<lambda>d c. combine_gate_decisions d (evaluate_command_words env parse p inner (pc_words c)))
            None segments)"

fun evaluate_bash_command_segments ::
  "environment \<Rightarrow> shell_parser \<Rightarrow> compiled_policy \<Rightarrow> nat \<Rightarrow> string \<Rightarrow> gate_decision option" where
  "evaluate_bash_command_segments env parse p 0 cmd = evaluate_segments env parse p None cmd"
| "evaluate_bash_command_segments env parse p (Suc n) cmd =
     evaluate_segments env parse p (Some (evaluate_bash_command_segments env parse p n)) cmd"

definition evaluate_bash_command_gate ::
  "environment \<Rightarrow> shell_parser \<Rightarrow> compiled_policy \<Rightarrow> string \<Rightarrow> gate_decision option" where
  "evaluate_bash_command_gate env parse p cmd =
     (if \<not> has_bash_command_restrictions p then None
      else evaluate_bash_command_segments env parse p MAX_INLINE_SHELL_DEPTH cmd)"

definition evaluate_bash_command_policy ::
  "environment \<Rightarrow> shell_parser \<Rightarrow> compiled_policy \<Rightarrow> string \<Rightarrow> decision option" where
  "evaluate_bash_command_policy env parse p cmd =
     map_option into_decision (evaluate_bash_command_gate env parse p cmd)"

end
