(* ===== verification/Policy_Props.thy ===== *)
theory Policy_Props
  imports Permission_Policy
begin

text \<open>
  What the compiled policy guarantees: the precedence of deny over ask over allow whatever the order
  of the rules, that a restricting rule is found on every command a script contains or nests, that
  a script the analysis cannot take apart is never waved through, that an allowed chain is allowed
  command by command, and that a symbolic link only ever makes the verdict stricter.
\<close>

section \<open>The rule loop\<close>

definition rule_applies :: "environment \<Rightarrow> access_kind \<Rightarrow> string option \<Rightarrow> permission_rule \<Rightarrow> bool" where
  "rule_applies env access cwd r \<longleftrightarrow>
     tool_filter_matches access (tool r) \<and> pattern_matches env access r (compile_matcher env r) cwd"

definition acts :: "environment \<Rightarrow> access_kind \<Rightarrow> string option \<Rightarrow> rule_action \<Rightarrow> permission_rule \<Rightarrow> bool" where
  "acts env access cwd a r \<longleftrightarrow> action r = a \<and> rule_applies env access cwd r"

lemma policy_new_simps [simp]:
  "policy_config (policy_new env cfg) = cfg"
  "matchers (policy_new env cfg) = map (compile_matcher env) (rules cfg)"
  "catchall (policy_new env cfg) = map (rule_is_catchall env) (rules cfg)"
  by (simp_all add: policy_new_def)

lemma rule_scan_spec:
  "rule_scan env access cwd (zip rs (map (compile_matcher env) rs)) ask allow =
     (case find (acts env access cwd RA_Deny) rs of
        Some r \<Rightarrow> Inl (deny_reason r)
      | None \<Rightarrow> Inr (ask \<or> list_ex (acts env access cwd RA_Ask) rs,
                      allow \<or> list_ex (acts env access cwd RA_Allow) rs))"
proof (induction rs arbitrary: ask allow)
  case (Cons r rs)
  have acts: "acts env access cwd a r \<longleftrightarrow> action r = a \<and> tool_filter_matches access (tool r)
      \<and> pattern_matches env access r (compile_matcher env r) cwd" for a
    by (auto simp: acts_def rule_applies_def)
  show ?case
    by (cases "action r"; cases "tool_filter_matches access (tool r)";
        cases "pattern_matches env access r (compile_matcher env r) cwd")
      (simp_all add: Cons.IH acts split: option.split)
qed simp

section \<open>Allow rules\<close>

definition words_allowed :: "environment \<Rightarrow> permission_config \<Rightarrow> allow_rule_scope \<Rightarrow> string list \<Rightarrow> bool" where
  "words_allowed env cfg scope ws \<longleftrightarrow>
     ws \<noteq> [] \<and> \<not> (scope = NarrowOnly \<and> head_is_exec_vehicle ws) \<and>
     list_ex (\<lambda>r. \<not> (scope = NarrowOnly \<and> rule_is_catchall env r) \<and> action r = RA_Allow
       \<and> tool r \<in> {TF_Bash, TF_Any}
       \<and> bash_allow_pattern_matches env (join_with '' '' ws) r (compile_matcher env r)) (rules cfg)"

lemma list_ex_zip_map:
  "list_ex (\<lambda>((x, y), z). P x y z) (zip (zip xs (map f xs)) (map g xs)) = list_ex (\<lambda>x. P x (f x) (g x)) xs"
  by (induction xs) simp_all

lemma bash_words_allowed_iff:
  "bash_words_allowed env (policy_new env cfg) ws scope \<longleftrightarrow> words_allowed env cfg scope ws"
  unfolding bash_words_allowed_def words_allowed_def Let_def policy_new_simps
  by (subst list_ex_zip_map) (simp only: if_bool_eq_conj simp_thms, blast)

lemma chain_allowed_Some:
  "chain_allowed env parse p scope inner cmd \<longleftrightarrow>
     (\<exists>segs. all_commands_from_script parse cmd = Some segs \<and> segs \<noteq> [] \<and>
        (\<forall>c\<in>set segs. segment_allowed env p scope inner c))"
  by (auto simp: chain_allowed_def list_all_iff split: option.split)

lemma segment_allowed_words:
  "segment_allowed env (policy_new env cfg) scope inner c \<Longrightarrow>
     \<not> peel_failed (normalize_command_words (pc_words c))
     \<and> words_allowed env cfg scope (words (normalize_command_words (pc_words c)))"
  by (auto simp: segment_allowed_def peel_failed_def bash_words_allowed_iff Let_def split: if_split_asm)

lemma bash_chain_unfold:
  "bash_chain_fully_allowed env parse p scope n cmd =
     chain_allowed env parse p scope
       (case n of 0 \<Rightarrow> None | Suc m \<Rightarrow> Some (bash_chain_fully_allowed env parse p scope m)) cmd"
  by (cases n) simp_all

lemma chain_has_allow_rule:
  assumes "bash_chain_fully_allowed env parse (policy_new env cfg) scope n cmd"
  shows "has_bash_allow_rules (policy_new env cfg)"
proof -
  from assms obtain c where "segment_allowed env (policy_new env cfg) scope
      (case n of 0 \<Rightarrow> None | Suc m \<Rightarrow> Some (bash_chain_fully_allowed env parse (policy_new env cfg) scope m)) c"
    unfolding bash_chain_unfold [of _ _ _ _ n] chain_allowed_Some by (metis list.set_sel(1))
  from segment_allowed_words [OF this] show ?thesis
    by (auto simp: words_allowed_def policy_new_def list_ex_iff)
qed

section \<open>Scripts inside scripts\<close>

text \<open>
  What the words of a command run as a script of their own: the operand of \<open>-c\<close>, and the packed
  string of \<open>env -S\<close>.
\<close>

definition dash_c_scripts :: "string list \<Rightarrow> string list" where
  "dash_c_scripts ws =
     (let inner = words (normalize_command_words ws)
      in case shell_dash_c_script (shell_words inner) of Literal_Script i \<Rightarrow> [inner ! i] | _ \<Rightarrow> [])"

definition inner_scripts :: "string list \<Rightarrow> string list" where
  "inner_scripts ws = dash_c_scripts ws @
     (case env_split_string_script (words (normalize_command_words ws)) of Some s \<Rightarrow> [s] | None \<Rightarrow> [])"

text \<open>\<open>nested parse kids n cmd t\<close>: the script \<open>t\<close> is \<open>cmd\<close> or stands \<open>n\<close> levels inside it.\<close>

inductive nested :: "shell_parser \<Rightarrow> (string list \<Rightarrow> string list) \<Rightarrow> nat \<Rightarrow> string \<Rightarrow> string \<Rightarrow> bool"
  for parse kids where
  nested_here: "nested parse kids 0 cmd cmd"
| nested_step: "all_commands_from_script parse cmd = Some segs \<Longrightarrow> c \<in> set segs \<Longrightarrow>
    s \<in> set (kids (pc_words c)) \<Longrightarrow> nested parse kids n s t \<Longrightarrow> nested parse kids (Suc n) cmd t"

lemma nested_allowed:
  "nested parse dash_c_scripts n cmd t \<Longrightarrow> n \<le> m \<Longrightarrow>
     bash_chain_fully_allowed env parse p scope m cmd \<Longrightarrow>
     bash_chain_fully_allowed env parse p scope (m - n) t"
proof (induction arbitrary: m rule: nested.induct)
  case (nested_step cmd segs c s n t)
  then obtain k where m: "m = Suc k" "n \<le> k" by (cases m) auto
  from nested_step.prems(2) nested_step.hyps(1,2)
  have "segment_allowed env p scope (Some (bash_chain_fully_allowed env parse p scope k)) c"
    by (auto simp: m chain_allowed_Some)
  then have "bash_chain_fully_allowed env parse p scope k s"
    using nested_step.hyps(3)
    by (auto simp: segment_allowed_def dash_c_scripts_def Let_def split: if_split_asm inline_shell_script.splits)
  with nested_step.IH [OF m(2)] show ?case by (simp add: m)
qed simp

section \<open>The height of the gate\<close>

text \<open>What the flags and the rules make of the words themselves, before any inner script.\<close>

definition flat_verdict :: "environment \<Rightarrow> shell_parser \<Rightarrow> compiled_policy \<Rightarrow> string list \<Rightarrow> gate_decision option" where
  "flat_verdict env parse p ws =
     (let norm = normalize_command_words ws
      in foldl (\<lambda>d form. combine_gate_decisions d (escalate env parse p (join_with '' '' form)))
           (combine_gate_decisions (ask_if (exhausted norm \<or> ambiguous norm \<or> env_options_uncertain norm))
             (ask_if (has_split_string norm)))
           (ws # (if length (words norm) \<noteq> length ws then [words norm] else [])))"

definition inline_height :: "(string \<Rightarrow> gate_decision option) option \<Rightarrow> string list \<Rightarrow> nat" where
  "inline_height inner iw =
     (case shell_dash_c_script (shell_words iw) of
        Literal_Script i \<Rightarrow> height gate_rank (recurse inner (iw ! i))
      | NotInline \<Rightarrow> 0
      | _ \<Rightarrow> 2)"

definition packed_height :: "(string \<Rightarrow> gate_decision option) option \<Rightarrow> string list \<Rightarrow> nat" where
  "packed_height inner iw =
     (case env_split_string_script iw of Some s \<Rightarrow> height gate_rank (recurse inner s) | None \<Rightarrow> 0)"

lemma command_words_height:
  "height gate_rank (evaluate_command_words env parse p inner ws) =
     max (max (height gate_rank (flat_verdict env parse p ws))
              (inline_height inner (words (normalize_command_words ws))))
         (packed_height inner (words (normalize_command_words ws)))"
proof -
  let ?iw = "words (normalize_command_words ws)"
  let ?d = "flat_verdict env parse p ws"
  let ?d3 = "case shell_dash_c_script (shell_words ?iw) of
      Literal_Script i \<Rightarrow> combine_gate_decisions ?d (recurse inner (?iw ! i))
    | NotInline \<Rightarrow> ?d
    | _ \<Rightarrow> combine_gate_decisions ?d (Some AskFailClosed)"
  have "evaluate_command_words env parse p inner ws =
      (case env_split_string_script ?iw of
         Some s \<Rightarrow> combine_gate_decisions ?d3 (recurse inner s) | None \<Rightarrow> ?d3)"
    by (simp only: evaluate_command_words_def flat_verdict_def Let_def)
  moreover have "height gate_rank ?d3 = max (height gate_rank ?d) (inline_height inner ?iw)"
    by (cases "shell_dash_c_script (shell_words ?iw)") (simp_all add: inline_height_def gates.height_combine)
  ultimately show ?thesis
    by (cases "env_split_string_script ?iw") (simp_all add: packed_height_def gates.height_combine)
qed

lemma command_words_ge_escalate:
  assumes "form = ws \<or> form = words (normalize_command_words ws)"
  shows "height gate_rank (escalate env parse p (join_with '' '' form))
    \<le> height gate_rank (evaluate_command_words env parse p inner ws)"
proof -
  let ?iw = "words (normalize_command_words ws)"
  obtain zs where zs: "ws = zs @ ?iw" using normalize_words(1) [of ws] by (auto simp: suffix_def)
  have same: "?iw = ws" if "length ?iw = length ws"
  proof -
    from zs have "length ws = length zs + length ?iw" by (metis length_append)
    with that have "length zs = 0" by linarith
    then have "zs = []" by simp
    with zs show ?thesis by (metis append_Nil)
  qed
  from assms same have "form \<in> set (ws # (if length ?iw \<noteq> length ws then [?iw] else []))" by auto
  from gates.fold_ge [OF this, of "\<lambda>form. escalate env parse p (join_with '' '' form)"]
  have "height gate_rank (escalate env parse p (join_with '' '' form)) \<le> height gate_rank (flat_verdict env parse p ws)"
    by (simp only: flat_verdict_def Let_def)
  then show ?thesis by (simp add: command_words_height)
qed

lemma command_words_ge_inner:
  assumes "s \<in> set (inner_scripts ws)"
  shows "height gate_rank (recurse inner s) \<le> height gate_rank (evaluate_command_words env parse p inner ws)"
  using assms unfolding command_words_height
  by (cases "shell_dash_c_script (shell_words (words (normalize_command_words ws)))";
      cases "env_split_string_script (words (normalize_command_words ws))")
    (auto simp: inner_scripts_def dash_c_scripts_def Let_def inline_height_def packed_height_def le_max_iff_disj)

lemma command_words_ge_failed:
  assumes "peel_failed (normalize_command_words ws)"
  shows "2 \<le> height gate_rank (evaluate_command_words env parse p inner ws)"
proof -
  let ?norm = "normalize_command_words ws"
  have "2 \<le> height gate_rank (combine_gate_decisions
     (ask_if (exhausted ?norm \<or> ambiguous ?norm \<or> env_options_uncertain ?norm)) (ask_if (has_split_string ?norm)))"
    using assms by (auto simp: peel_failed_def ask_if_def gates.height_combine)
  also have "\<dots> \<le> height gate_rank (flat_verdict env parse p ws)"
    unfolding flat_verdict_def Let_def by (rule gates.fold_ge_acc)
  finally show ?thesis by (simp add: command_words_height)
qed

lemma command_words_ge_opaque:
  assumes "shell_dash_c_script (shell_words (words (normalize_command_words ws))) = Untrusted
    \<or> shell_dash_c_script (shell_words (words (normalize_command_words ws))) = Unrecognized"
  shows "2 \<le> height gate_rank (evaluate_command_words env parse p inner ws)"
  using assms unfolding command_words_height by (auto simp: inline_height_def)

lemma bash_segments_unfold:
  "evaluate_bash_command_segments env parse p n cmd =
     evaluate_segments env parse p
       (case n of 0 \<Rightarrow> None | Suc m \<Rightarrow> Some (evaluate_bash_command_segments env parse p m)) cmd"
  by (cases n) simp_all

lemma segments_ge_command:
  assumes "all_commands_from_script parse cmd = Some segs" and "c \<in> set segs"
  shows "height gate_rank (evaluate_command_words env parse p inner (pc_words c))
    \<le> height gate_rank (evaluate_segments env parse p inner cmd)"
  using gates.fold_ge [OF assms(2), of "\<lambda>c. evaluate_command_words env parse p inner (pc_words c)"]
  by (simp add: evaluate_segments_def assms(1))

lemma segments_ge_nested:
  "nested parse inner_scripts n cmd t \<Longrightarrow> n \<le> m \<Longrightarrow>
     height gate_rank (evaluate_bash_command_segments env parse p (m - n) t)
       \<le> height gate_rank (evaluate_bash_command_segments env parse p m cmd)"
proof (induction arbitrary: m rule: nested.induct)
  case (nested_step cmd segs c s n t)
  then obtain k where m: "m = Suc k" "n \<le> k" by (cases m) auto
  let ?inner = "Some (evaluate_bash_command_segments env parse p k)"
  have "height gate_rank (evaluate_bash_command_segments env parse p k s)
      \<le> height gate_rank (evaluate_command_words env parse p ?inner (pc_words c))"
    using command_words_ge_inner [OF nested_step.hyps(3), of ?inner] by (simp add: recurse_def)
  also have "\<dots> \<le> height gate_rank (evaluate_bash_command_segments env parse p m cmd)"
    using segments_ge_command [OF nested_step.hyps(1,2)] by (simp add: m)
  finally show ?case using nested_step.IH [OF m(2)] by (simp add: m)
qed simp

section \<open>What a matching rule makes of a segment\<close>

lemma lexical_spec:
  "evaluate_lexical_with_cwd env parse (policy_new env cfg) access cwd =
     (case find (acts env access cwd RA_Deny) (rules cfg) of
        Some r \<Rightarrow> Some (Reject (deny_reason r))
      | None \<Rightarrow>
          if list_ex (acts env access cwd RA_Ask) (rules cfg) then Some Ask
          else (case access of
                  Bash cmd \<Rightarrow>
                    if bash_chain_fully_allowed env parse (policy_new env cfg) Any_Rule MAX_INLINE_SHELL_DEPTH cmd
                    then Some Allow else None
                | _ \<Rightarrow> if list_ex (acts env access cwd RA_Allow) (rules cfg) then Some Allow else None))"
  using chain_has_allow_rule [of env parse cfg Any_Rule MAX_INLINE_SHELL_DEPTH]
  by (simp add: evaluate_lexical_with_cwd_def rule_scan_spec split: option.split access_kind.split)

lemma evaluate_bash: "evaluate env parse p (Bash cmd) = evaluate_lexical_with_cwd env parse p (Bash cmd) None"
  by (simp add: evaluate_def evaluate_with_cwd_def evaluate_with_cwd_details_def)

lemma escalate_height:
  assumes "r \<in> set (rules cfg)" and "rule_applies env (Bash seg) None r"
  shows "action r = RA_Deny \<Longrightarrow> 4 \<le> height gate_rank (escalate env parse (policy_new env cfg) seg)"
    and "action r = RA_Ask \<Longrightarrow> 3 \<le> height gate_rank (escalate env parse (policy_new env cfg) seg)"
proof -
  let ?deny = "find (acts env (Bash seg) None RA_Deny) (rules cfg)"
  show "4 \<le> height gate_rank (escalate env parse (policy_new env cfg) seg)" if "action r = RA_Deny"
  proof -
    have "?deny \<noteq> None" using assms that by (auto simp: find_None_iff acts_def)
    then show ?thesis by (auto simp: escalate_def evaluate_bash lexical_spec)
  qed
  show "3 \<le> height gate_rank (escalate env parse (policy_new env cfg) seg)" if "action r = RA_Ask"
  proof -
    have "list_ex (acts env (Bash seg) None RA_Ask) (rules cfg)"
      using assms that by (auto simp: list_ex_iff acts_def)
    then show ?thesis by (cases ?deny) (simp_all add: escalate_def evaluate_bash lexical_spec)
  qed
qed

lemma bash_rule_restricts:
  "r \<in> set (rules cfg) \<Longrightarrow> rule_applies env (Bash seg) None r \<Longrightarrow> action r \<noteq> RA_Allow \<Longrightarrow>
     has_bash_command_restrictions (policy_new env cfg)"
proof -
  assume r: "r \<in> set (rules cfg)" "rule_applies env (Bash seg) None r" "action r \<noteq> RA_Allow"
  then have "tool r = TF_Any \<or> tool r = TF_Bash"
    by (cases "tool r") (simp_all add: rule_applies_def)
  moreover have "restricts r" using r(3) by (cases "action r") (simp_all add: restricts_def)
  ultimately show ?thesis using r(1) by (auto simp: policy_new_def list_ex_iff)
qed

lemma gate_ge_nested:
  assumes "has_bash_command_restrictions p" and "nested parse inner_scripts n cmd t"
    and "n \<le> MAX_INLINE_SHELL_DEPTH"
  shows "height gate_rank (evaluate_bash_command_segments env parse p (MAX_INLINE_SHELL_DEPTH - n) t)
    \<le> height gate_rank (evaluate_bash_command_gate env parse p cmd)"
  using segments_ge_nested [OF assms(2,3)] assms(1) by (simp add: evaluate_bash_command_gate_def)

lemma gate_ge_command:
  assumes "has_bash_command_restrictions p" and "nested parse inner_scripts n cmd t"
    and "n \<le> MAX_INLINE_SHELL_DEPTH" and "all_commands_from_script parse t = Some segs" and "c \<in> set segs"
  shows "height gate_rank (evaluate_command_words env parse p
      (case MAX_INLINE_SHELL_DEPTH - n of 0 \<Rightarrow> None | Suc m \<Rightarrow> Some (evaluate_bash_command_segments env parse p m))
      (pc_words c))
    \<le> height gate_rank (evaluate_bash_command_gate env parse p cmd)"
  using segments_ge_command [OF assms(4,5)] gate_ge_nested [OF assms(1-3), of env]
  unfolding bash_segments_unfold [of env parse p "MAX_INLINE_SHELL_DEPTH - n"] by (rule le_trans)

section \<open>Properties\<close>

text \<open>
  C25: the verdict on an access is what the rules say under the precedence deny, ask, allow: the
  first matching deny rule rejects, else a matching ask rule asks, else a non-bash access is allowed
  by a matching allow rule and a bash script only by the conjunctive walk over its commands; with
  none of these there is no verdict.
\<close>

theorem deny_before_ask_before_allow:
  "evaluate_lexical_with_cwd env parse (policy_new env cfg) access cwd =
     (case find (acts env access cwd RA_Deny) (rules cfg) of
        Some r \<Rightarrow> Some (Reject (deny_reason r))
      | None \<Rightarrow>
          if list_ex (acts env access cwd RA_Ask) (rules cfg) then Some Ask
          else (case access of
                  Bash cmd \<Rightarrow>
                    if bash_chain_fully_allowed env parse (policy_new env cfg) Any_Rule MAX_INLINE_SHELL_DEPTH cmd
                    then Some Allow else None
                | _ \<Rightarrow> if list_ex (acts env access cwd RA_Allow) (rules cfg) then Some Allow else None))"
  by (rule lexical_spec)

lemma words_allowed_set:
  "set (rules a) = set (rules b) \<Longrightarrow> words_allowed env a scope ws = words_allowed env b scope ws"
  by (simp only: words_allowed_def list_ex_iff)

lemma chain_allowed_set:
  assumes "set (rules a) = set (rules b)"
  shows "bash_chain_fully_allowed env parse (policy_new env a) scope n =
    bash_chain_fully_allowed env parse (policy_new env b) scope n"
proof -
  have "segment_allowed env (policy_new env a) scope inner = segment_allowed env (policy_new env b) scope inner" for inner
    by (rule ext) (simp add: segment_allowed_def bash_words_allowed_iff words_allowed_set [OF assms])
  then have one: "chain_allowed env parse (policy_new env a) scope inner =
      chain_allowed env parse (policy_new env b) scope inner" for inner
    by (intro ext) (simp add: chain_allowed_def split: option.split)
  show ?thesis
  proof (induction n)
    case 0
    show ?case by (rule ext) (simp add: one)
  next
    case (Suc n)
    show ?case by (rule ext) (simp add: one Suc)
  qed
qed

text \<open>
  The order in which rules are listed, and their repetition, do not matter: two configurations
  with the same set of rules give verdicts of the same rank on every access.
\<close>

theorem rule_order_does_not_matter:
  assumes "set (rules a) = set (rules b)"
  shows "height decision_rank (evaluate_lexical_with_cwd env parse (policy_new env a) access cwd) =
    height decision_rank (evaluate_lexical_with_cwd env parse (policy_new env b) access cwd)"
proof -
  have deny: "find (acts env access cwd RA_Deny) (rules a) = None \<longleftrightarrow> find (acts env access cwd RA_Deny) (rules b) = None"
    by (simp add: find_None_iff assms)
  have ex: "list_ex P (rules a) = list_ex P (rules b)" for P by (simp add: list_ex_iff assms)
  show ?thesis
  proof (cases "find (acts env access cwd RA_Deny) (rules a)")
    case None
    then show ?thesis
      using deny by (simp add: lexical_spec ex chain_allowed_set [OF assms] split: access_kind.split)
  next
    case (Some r)
    then obtain r' where "find (acts env access cwd RA_Deny) (rules b) = Some r'" using deny by auto
    with Some show ?thesis by (simp add: lexical_spec)
  qed
qed

text \<open>An environment and a policy with one deny rule on \<open>rm\<close> and one allow rule on \<open>ls\<close>.\<close>

definition sample_env :: environment where
  "sample_env = \<lparr>glob_new = (\<lambda>_. None), url_parse = (\<lambda>_. None), to_lowercase = to_ascii_lowercase,
     files = \<lparr>canonicalize = Some, symlink_metadata = (\<lambda>_. Other_File), read_link = (\<lambda>_. None)\<rparr>\<rparr>"

definition deny_rm :: permission_rule where
  "deny_rm = \<lparr>action = RA_Deny, tool = TF_Bash, pattern = Some ''rm'', mode = Glob\<rparr>"

definition allow_ls :: permission_rule where
  "allow_ls = \<lparr>action = RA_Allow, tool = TF_Bash, pattern = Some ''ls'', mode = Glob\<rparr>"

lemma rule_order_does_not_matter_witness:
  "height decision_rank (evaluate_lexical_with_cwd sample_env sample_parser
     (policy_new sample_env (config_new [allow_ls, deny_rm])) (Bash ''rm x'') None) =
   height decision_rank (evaluate_lexical_with_cwd sample_env sample_parser
     (policy_new sample_env (config_new [deny_rm, allow_ls, deny_rm])) (Bash ''rm x'') None)"
  by (rule rule_order_does_not_matter) (auto simp: config_new_def)

text \<open>A script inside a script: \<open>sh -c\<close> with the sample script as its raw string.\<close>

definition nested_script :: string where
  "nested_script = ''sh -c '' @ [squote] @ sample_script @ [squote]"

definition nested_parser :: shell_parser where
  "nested_parser s = (if s = nested_script then Some \<lparr>root_node =
     Node ''program'' True 0 16
       [Node ''command'' True 0 16
          [Node ''command_name'' True 0 2 [Node ''word'' True 0 2 []], Node ''word'' True 3 5 [],
           Node ''raw_string'' True 6 16 []]],
     has_error = False\<rparr> else sample_parser s)"

lemma nested_commands:
  "all_commands_from_script nested_parser nested_script =
     Some [\<lparr>pc_words = [''sh'', ''-c'', sample_script], span_start = 0, span_end = 16\<rparr>]"
  "all_commands_from_script nested_parser sample_script =
     Some [\<lparr>pc_words = [''rm'', ''x''], span_start = 0, span_end = 4\<rparr>,
           \<lparr>pc_words = [''ls''], span_start = 6, span_end = 8\<rparr>]"
  by code_simp+

lemma nested_sample: "nested nested_parser inner_scripts 1 nested_script sample_script"
proof -
  have "sample_script \<in> set (inner_scripts [''sh'', ''-c'', sample_script])" by code_simp
  then show ?thesis
    using nested_step [OF nested_commands(1) _ _ nested_here] by simp
qed

text \<open>
  C22: no command of a script is out of reach of a deny or ask rule. Take any script that stands up
  to eight levels inside a command line, through \<open>-c\<close> or \<open>env -S\<close>, and any of its commands, as it is
  written or with its wrappers peeled: when a deny rule matches it the gate rejects the whole
  command line, and when an ask rule matches it the gate answers at least with that ask.
\<close>

theorem gate_reaches_every_command:
  assumes "nested parse inner_scripts n cmd t" and "n \<le> MAX_INLINE_SHELL_DEPTH"
    and "all_commands_from_script parse t = Some segs" and "c \<in> set segs"
    and "form = pc_words c \<or> form = words (normalize_command_words (pc_words c))"
    and "r \<in> set (rules cfg)" and "rule_applies env (Bash (join_with '' '' form)) None r"
  shows "(action r = RA_Deny \<longrightarrow> rejects (evaluate_bash_command_gate env parse (policy_new env cfg) cmd))
    \<and> (action r = RA_Ask \<longrightarrow>
        height gate_rank (Some AskRuleMatch) \<le> height gate_rank (evaluate_bash_command_gate env parse (policy_new env cfg) cmd))"
proof -
  have ge: "height gate_rank (escalate env parse (policy_new env cfg) (join_with '' '' form))
      \<le> height gate_rank (evaluate_bash_command_gate env parse (policy_new env cfg) cmd)" if "action r \<noteq> RA_Allow"
    using gate_ge_command [OF bash_rule_restricts [OF assms(6,7) that] assms(1-4)]
      command_words_ge_escalate [OF assms(5)] by (rule le_trans [rotated])
  show ?thesis
  proof (intro conjI impI)
    assume "action r = RA_Deny"
    with escalate_height(1) [OF assms(6,7)] ge
    show "rejects (evaluate_bash_command_gate env parse (policy_new env cfg) cmd)"
      unfolding rejects_height by (metis le_trans rule_action.distinct(1))
  next
    assume "action r = RA_Ask"
    with escalate_height(2) [OF assms(6,7), of parse] ge
    show "height gate_rank (Some AskRuleMatch) \<le> height gate_rank (evaluate_bash_command_gate env parse (policy_new env cfg) cmd)"
      by simp
  qed
qed

lemma gate_reaches_every_command_witness:
  "rejects (evaluate_bash_command_gate sample_env nested_parser (policy_new sample_env (config_new [allow_ls, deny_rm])) nested_script)"
proof -
  let ?c = "\<lparr>pc_words = [''rm'', ''x''], span_start = 0, span_end = 4\<rparr>"
  have applies: "rule_applies sample_env (Bash (join_with '' '' [''rm'', ''x''])) None deny_rm" by code_simp
  have depth: "(1 :: nat) \<le> MAX_INLINE_SHELL_DEPTH" by (simp add: MAX_INLINE_SHELL_DEPTH_def)
  have rule: "deny_rm \<in> set (rules (config_new [allow_ls, deny_rm]))" by (simp add: config_new_def)
  have "?c \<in> set [?c, \<lparr>pc_words = [''ls''], span_start = 6, span_end = 8\<rparr>]"
    and form: "[''rm'', ''x''] = pc_words ?c \<or> [''rm'', ''x''] = words (normalize_command_words (pc_words ?c))"
    by simp_all
  from gate_reaches_every_command [OF nested_sample depth nested_commands(2) this rule applies]
  show ?thesis by (simp add: deny_rm_def)
qed

text \<open>
  C24: the gate is silent only about scripts it could take apart completely: when a policy restricts
  bash and the gate returns no verdict, every script up to eight levels deep decomposes into plain
  commands, each of them is normalized without an open question, none hands an unknown string to a
  shell, and none at the last level has a further script inside.
\<close>

theorem silence_means_understood:
  assumes "has_bash_command_restrictions p" and "evaluate_bash_command_gate env parse p cmd = None"
    and "nested parse inner_scripts n cmd t" and "n \<le> MAX_INLINE_SHELL_DEPTH"
  shows "\<exists>segs. all_commands_from_script parse t = Some segs \<and>
     list_all (\<lambda>c. \<not> peel_failed (normalize_command_words (pc_words c))
       \<and> shell_dash_c_script (shell_words (words (normalize_command_words (pc_words c)))) \<noteq> Untrusted
       \<and> shell_dash_c_script (shell_words (words (normalize_command_words (pc_words c)))) \<noteq> Unrecognized
       \<and> \<not> (n = MAX_INLINE_SHELL_DEPTH \<and> inner_scripts (pc_words c) \<noteq> [])) segs"
proof -
  have "evaluate_bash_command_segments env parse p (MAX_INLINE_SHELL_DEPTH - n) t = None"
    using gate_ge_nested [OF assms(1,3,4), of env] assms(2) by simp
  then obtain segs where segs: "all_commands_from_script parse t = Some segs"
    by (cases "all_commands_from_script parse t") (simp_all add: bash_segments_unfold evaluate_segments_def)
  let ?inner = "case MAX_INLINE_SHELL_DEPTH - n of 0 \<Rightarrow> None
    | Suc m \<Rightarrow> Some (evaluate_bash_command_segments env parse p m)"
  have zero: "height gate_rank (evaluate_command_words env parse p ?inner (pc_words c)) = 0" if "c \<in> set segs" for c
    using gate_ge_command [OF assms(1,3,4) segs that, of env] assms(2) by simp
  have "inner_scripts (pc_words c) = []" if "c \<in> set segs" and "n = MAX_INLINE_SHELL_DEPTH" for c
  proof (cases "inner_scripts (pc_words c)")
    case (Cons s ss)
    then have "s \<in> set (inner_scripts (pc_words c))" by simp
    from command_words_ge_inner [OF this, of ?inner env parse p] zero [OF that(1)] that(2)
    show ?thesis by (simp add: recurse_def)
  qed
  moreover have "\<not> peel_failed (normalize_command_words (pc_words c))
      \<and> shell_dash_c_script (shell_words (words (normalize_command_words (pc_words c)))) \<noteq> Untrusted
      \<and> shell_dash_c_script (shell_words (words (normalize_command_words (pc_words c)))) \<noteq> Unrecognized"
    if "c \<in> set segs" for c
    using zero [OF that] command_words_ge_failed [of "pc_words c" env parse p ?inner]
      command_words_ge_opaque [of "pc_words c" env parse p ?inner] by linarith
  ultimately show ?thesis
    using segs unfolding list_all_iff by blast
qed

definition ls_parser :: shell_parser where
  "ls_parser s = (if s = ''ls'' then Some \<lparr>root_node =
     Node ''program'' True 0 2
       [Node ''command'' True 0 2 [Node ''command_name'' True 0 2 [Node ''word'' True 0 2 []]]],
     has_error = False\<rparr> else None)"

lemma silence_means_understood_witness:
  "\<exists>segs. all_commands_from_script ls_parser ''ls'' = Some segs
     \<and> list_all (\<lambda>c. \<not> peel_failed (normalize_command_words (pc_words c))) segs"
proof -
  let ?p = "policy_new sample_env (config_new [deny_rm])"
  have restricted: "has_bash_command_restrictions ?p" by code_simp
  have "all_commands_from_script ls_parser ''ls'' = Some [\<lparr>pc_words = [''ls''], span_start = 0, span_end = 2\<rparr>]"
    by code_simp
  moreover have "evaluate_command_words sample_env ls_parser ?p inner [''ls''] = None" for inner by code_simp
  ultimately have "evaluate_segments sample_env ls_parser ?p inner ''ls'' = None" for inner
    by (simp add: evaluate_segments_def)
  with restricted have "evaluate_bash_command_gate sample_env ls_parser ?p ''ls'' = None"
    by (simp add: evaluate_bash_command_gate_def bash_segments_unfold)
  from silence_means_understood [OF restricted this nested_here] show ?thesis
    by (auto simp: list_all_iff)
qed

text \<open>
  C23: a bash script is allowed only as a whole: when the verdict is \<open>Allow\<close>, every script that \<open>-c\<close>
  nests up to eight levels deep consists of at least one command, and every command of it is
  normalized without an open question, matches an allow rule by the words that will run, and does
  not hand an unknown string to a shell. The narrow authorization of auto mode implies the same
  with rules that are not catch-alls and heads that are not exec vehicles.
\<close>

theorem allowed_means_every_command_allowed:
  assumes "if narrow then narrow_allow_authorizes env parse (policy_new env cfg) (Bash cmd)
     else evaluate_lexical_with_cwd env parse (policy_new env cfg) (Bash cmd) cwd = Some Allow"
    and "nested parse dash_c_scripts n cmd t" and "n \<le> MAX_INLINE_SHELL_DEPTH"
  shows "\<exists>segs. all_commands_from_script parse t = Some segs \<and> segs \<noteq> [] \<and>
     list_all (\<lambda>c. \<not> peel_failed (normalize_command_words (pc_words c))
       \<and> words_allowed env cfg (if narrow then NarrowOnly else Any_Rule) (words (normalize_command_words (pc_words c)))
       \<and> shell_dash_c_script (shell_words (words (normalize_command_words (pc_words c)))) \<notin> {Untrusted, Unrecognized}) segs"
proof -
  let ?scope = "if narrow then NarrowOnly else Any_Rule"
  have "bash_chain_fully_allowed env parse (policy_new env cfg) ?scope MAX_INLINE_SHELL_DEPTH cmd"
    using assms(1) by (simp add: lexical_spec narrow_allow_authorizes_def split: option.split_asm if_split_asm)
  from nested_allowed [OF assms(2,3) this] obtain segs inner where
    segs: "all_commands_from_script parse t = Some segs" "segs \<noteq> []"
    and each: "\<And>c. c \<in> set segs \<Longrightarrow> segment_allowed env (policy_new env cfg) ?scope inner c"
    unfolding bash_chain_unfold [of _ _ _ _ "MAX_INLINE_SHELL_DEPTH - n"] chain_allowed_Some by blast
  have "shell_dash_c_script (shell_words (words (normalize_command_words (pc_words c)))) \<notin> {Untrusted, Unrecognized}"
    if "c \<in> set segs" for c
    using each [OF that] by (auto simp: segment_allowed_def Let_def split: if_split_asm)
  with segs segment_allowed_words [OF each] show ?thesis
    unfolding list_all_iff by blast
qed

definition allow_sh :: permission_rule where
  "allow_sh = \<lparr>action = RA_Allow, tool = TF_Bash, pattern = Some ''sh'', mode = Glob\<rparr>"

definition allow_rm :: permission_rule where
  "allow_rm = \<lparr>action = RA_Allow, tool = TF_Bash, pattern = Some ''rm x'', mode = Glob\<rparr>"

lemma allowed_means_every_command_allowed_witness:
  "words_allowed sample_env (config_new [allow_sh, allow_ls, allow_rm]) Any_Rule [''rm'', ''x'']"
proof -
  let ?cfg = "config_new [allow_sh, allow_ls, allow_rm]"
  have allow: "if False then narrow_allow_authorizes sample_env nested_parser (policy_new sample_env ?cfg) (Bash nested_script)
      else evaluate_lexical_with_cwd sample_env nested_parser (policy_new sample_env ?cfg) (Bash nested_script) None = Some Allow"
    by code_simp
  have kid: "sample_script \<in> set (dash_c_scripts [''sh'', ''-c'', sample_script])" by code_simp
  then have "nested nested_parser dash_c_scripts 1 nested_script sample_script"
    using nested_step [OF nested_commands(1) _ _ nested_here] by simp
  moreover have "(1 :: nat) \<le> MAX_INLINE_SHELL_DEPTH" by (simp add: MAX_INLINE_SHELL_DEPTH_def)
  moreover have "words (normalize_command_words [''rm'', ''x'']) = [''rm'', ''x'']" by code_simp
  ultimately show ?thesis
    using allowed_means_every_command_allowed [OF allow] by (fastforce simp: nested_commands(2))
qed

text \<open>
  C28: following a symbolic link only tightens a verdict: the result is never below the verdict on
  the path as written, never below an ask or deny on the path the link leads to, and at least an
  ask when the link cannot be followed and a restricting rule covers the tool.
\<close>

theorem links_only_tighten:
  assumes "native_file_path access = Some path" and "raw_absolute_tool_path path cwd = Some raw"
    and "follow = follow_absolute_symlink (files env) raw (path_match_string (absolute_normalized_path path cwd))"
  shows "height decision_rank (evaluate_lexical_with_cwd env parse p access cwd)
      \<le> height decision_rank (evaluate_with_cwd env parse p access cwd)
   \<and> (case follow of
        Target resolved \<Rightarrow>
          (let d = evaluate_lexical_with_cwd env parse p (access_with_path access resolved) cwd
           in d = Some Ask \<or> (\<exists>why. d = Some (Reject why)) \<longrightarrow>
              height decision_rank d \<le> height decision_rank (evaluate_with_cwd env parse p access cwd))
      | Unresolvable \<Rightarrow> native_path_restrictions_apply p access \<longrightarrow>
          height decision_rank (Some Ask) \<le> height decision_rank (evaluate_with_cwd env parse p access cwd)
      | No_Follow \<Rightarrow> evaluate_with_cwd env parse p access cwd = evaluate_lexical_with_cwd env parse p access cwd)"
proof -
  let ?lexical = "evaluate_lexical_with_cwd env parse p access cwd"
  have e: "evaluate_with_cwd env parse p access cwd =
      (case follow of
         Target resolved \<Rightarrow> combine_decisions ?lexical
           (case evaluate_lexical_with_cwd env parse p (access_with_path access resolved) cwd of
              Some (Reject why) \<Rightarrow> Some (Reject why) | Some Ask \<Rightarrow> Some Ask | _ \<Rightarrow> None)
       | Unresolvable \<Rightarrow>
           if native_path_restrictions_apply p access then combine_decisions ?lexical (Some Ask) else ?lexical
       | No_Follow \<Rightarrow> ?lexical)"
    unfolding evaluate_with_cwd_def evaluate_with_cwd_details_def assms(3)
    by (simp add: assms(1,2) split: symlink_follow.split)
  show ?thesis unfolding e by (cases follow) (auto simp: decisions.height_combine Let_def)
qed

text \<open>A link \<open>/w/link\<close> to \<open>/etc/passwd\<close>, and a rule that denies reading below \<open>/etc\<close>.\<close>

definition link_env :: environment where
  "link_env = \<lparr>glob_new = (\<lambda>pat. Some (\<lambda>ctx txt. prefix pat txt)), url_parse = (\<lambda>_. None),
     to_lowercase = to_ascii_lowercase,
     files = \<lparr>canonicalize = (\<lambda>p. if p = ''/w/link'' then Some ''/etc/passwd'' else Some p),
              symlink_metadata = (\<lambda>_. Other_File), read_link = (\<lambda>_. None)\<rparr>\<rparr>"

definition deny_etc :: permission_rule where
  "deny_etc = \<lparr>action = RA_Deny, tool = TF_Read, pattern = Some ''/etc/'', mode = Glob\<rparr>"

lemma links_only_tighten_witness:
  "evaluate_lexical_with_cwd link_env nested_parser (policy_new link_env (config_new [deny_etc])) (Read (Some ''link'')) (Some ''/w'') = None
   \<and> 4 \<le> height decision_rank (evaluate_with_cwd link_env nested_parser (policy_new link_env (config_new [deny_etc]))
       (Read (Some ''link'')) (Some ''/w''))"
proof -
  let ?p = "policy_new link_env (config_new [deny_etc])"
  have e: "native_file_path (Read (Some ''link'')) = Some ''link''"
    "raw_absolute_tool_path ''link'' (Some ''/w'') = Some ''/w/link''"
    "Target ''/etc/passwd'' = follow_absolute_symlink (files link_env) ''/w/link'' (path_match_string (absolute_normalized_path ''link'' (Some ''/w'')))"
    by code_simp+
  have d: "evaluate_lexical_with_cwd link_env nested_parser ?p (Read (Some ''/etc/passwd'')) (Some ''/w'')
      = Some (Reject (deny_reason deny_etc))"
    by code_simp
  have "evaluate_lexical_with_cwd link_env nested_parser ?p (Read (Some ''link'')) (Some ''/w'') = None" by code_simp
  with links_only_tighten [OF e, of nested_parser ?p] show ?thesis by (simp add: d Let_def)
qed

text \<open>Sixteen rounds of one prefix each, which is all that normalization does.\<close>

definition spent_budget :: "string list" where
  "spent_budget = ''command'' # concat (replicate 15 [''nice'', ''command''])"

text \<open>
  The promise that every split-string shape keeps an ask has a gap. When wrappers and prefixes
  alternate for all sixteen rounds and \<open>env -S\<close> comes next, normalization stops in front of it with
  no flag raised, although the scan of what is left does see the split string; with a payload that
  needs expansion the gate then has no verdict on the command.
\<close>

theorem spent_budget_hides_split_string:
  "words (normalize_command_words (spent_budget @ [''env'', ''-S'', ''rm $X''])) = [''env'', ''-S'', ''rm $X'']
   \<and> \<not> peel_failed (normalize_command_words (spent_budget @ [''env'', ''-S'', ''rm $X'']))
   \<and> es_split_string (env_scan_of [''env'', ''-S'', ''rm $X''])
   \<and> evaluate_command_words sample_env parse (policy_new sample_env (config_new [deny_rm])) inner
       (spent_budget @ [''env'', ''-S'', ''rm $X'']) = None"
  by (intro conjI; code_simp)

end
