(* ===== verification/Shell_Invocations.thy ===== *)
theory Shell_Invocations
  imports Inline_Shell Shell_Tree
begin

text \<open>
  \<open>permission/shell_access.rs\<close>, the part that reads the syntax tree of any script, also of one that
  does not decompose into plain commands: the words of every command, the redirections, the scope
  in which each is executed and the places where the working directory changes. The parent and the
  next sibling of a node are what the walk down to it has passed; \<open>child_by_field_name\<close> belongs to
  the grammar and is the argument \<open>field\<close>.
\<close>

type_synonym field_lookup = "node \<Rightarrow> string \<Rightarrow> node option"

section \<open>Arguments\<close>

datatype arg_text = Arg_Literal string | Arg_Ambiguous

definition expansion_kinds :: "string set" where
  "expansion_kinds = {''expansion'', ''simple_expansion'', ''command_substitution'',
     ''arithmetic_expansion'', ''process_substitution''}"

definition node_has_expansion :: "node \<Rightarrow> bool" where
  "node_has_expansion n = list_ex (\<lambda>c. list_ex (\<lambda>m. kind m \<in> expansion_kinds) (nodes c)) (children n)"

definition is_windows_path_like :: "string \<Rightarrow> bool" where
  "is_windows_path_like raw \<longleftrightarrow> prefix [backslash, backslash] raw
     \<or> (case raw of c # d # _ \<Rightarrow> is_ascii_alphabetic c \<and> d = CHR '':'' | _ \<Rightarrow> False)"

fun fold_escapes :: "string \<Rightarrow> string option" where
  "fold_escapes [] = Some []"
| "fold_escapes (c # rest) =
     (if c = backslash then (case rest of [] \<Rightarrow> None | d # rest' \<Rightarrow> map_option ((#) d) (fold_escapes rest'))
      else map_option ((#) c) (fold_escapes rest))"

definition decode_unquoted_word :: "string \<Rightarrow> string option" where
  "decode_unquoted_word raw =
     (if backslash \<notin> set raw then Some raw
      else if is_windows_path_like raw then Some raw
      else fold_escapes raw)"

definition dq_escapable :: "char set" where
  "dq_escapable = {CHR ''$'', CHR 0x60, dquote, backslash, CHR 0x0A}"

fun fold_dq_escapes :: "string \<Rightarrow> string option" where
  "fold_dq_escapes [] = Some []"
| "fold_dq_escapes (c # rest) =
     (if c \<noteq> backslash then map_option ((#) c) (fold_dq_escapes rest)
      else (case rest of
              [] \<Rightarrow> None
            | d # rest' \<Rightarrow> map_option (\<lambda>s. if d \<in> dq_escapable then d # s else c # d # s) (fold_dq_escapes rest')))"

definition decode_double_quoted_content :: "string \<Rightarrow> string option" where
  "decode_double_quoted_content content =
     (if backslash \<notin> set content then Some content else fold_dq_escapes content)"

definition strip_both :: "char \<Rightarrow> string \<Rightarrow> string" where
  "strip_both q s = (case Option.bind (strip_prefix [q] s) (strip_suffix [q]) of Some t \<Rightarrow> t | None \<Rightarrow> s)"

definition literal_or_ambiguous :: "string option \<Rightarrow> arg_text" where
  "literal_or_ambiguous s = (case s of Some t \<Rightarrow> Arg_Literal t | None \<Rightarrow> Arg_Ambiguous)"

definition shell_node_arg :: "node \<Rightarrow> string \<Rightarrow> arg_text option" where
  "shell_node_arg n src =
     (if kind n = ''variable_assignment'' then None
      else if kind n = ''word'' \<or> kind n = ''number'' then
        Some (literal_or_ambiguous (decode_unquoted_word (node_text src n)))
      else if kind n = ''raw_string'' then Some (Arg_Literal (strip_both squote (node_text src n)))
      else if kind n = ''string'' then
        (if node_has_expansion n then Some Arg_Ambiguous
         else Some (literal_or_ambiguous (decode_double_quoted_content (strip_both dquote (node_text src n)))))
      else if kind n = ''concatenation'' then
        (if node_has_expansion n then Some Arg_Ambiguous
         else Some (literal_or_ambiguous (decode_shell_literal_spelling (node_text src n))))
      else Some Arg_Ambiguous)"

section \<open>The walk and the scope of execution\<close>

text \<open>
  The stack of the source visits a node before its children and the last child first. Every node
  comes with its way up: each ancestor, and the next sibling of the node below it.
\<close>

type_synonym way_up = "(node \<times> node option) list"

fun visits :: "way_up \<Rightarrow> node \<Rightarrow> (node \<times> way_up) list"
  and visit_children :: "node \<Rightarrow> way_up \<Rightarrow> node list \<Rightarrow> (node \<times> way_up) list" where
  "visits up (Node k nm a b cs) = (Node k nm a b cs, up) # visit_children (Node k nm a b cs) up cs"
| "visit_children p up [] = []"
| "visit_children p up (c # cs) =
     visit_children p up cs @ visits ((p, case cs of [] \<Rightarrow> None | d # _ \<Rightarrow> Some d) # up) c"

record execution_scope =
  sc_start :: nat
  sc_end :: nat

definition scope_contains :: "execution_scope \<Rightarrow> execution_scope \<Rightarrow> bool" where
  "scope_contains a b \<longleftrightarrow> sc_start a \<le> sc_start b \<and> sc_end b \<le> sc_end a"

definition scope_of_node :: "node \<Rightarrow> execution_scope" where
  "scope_of_node n = \<lparr>sc_start = start_byte n, sc_end = end_byte n\<rparr>"

text \<open>\<open>usize::MAX\<close> ends the scope of the whole script.\<close>

definition whole_scope :: execution_scope where
  "whole_scope = \<lparr>sc_start = 0, sc_end = 2 ^ 64 - 1\<rparr>"

fun scope_of :: "node \<Rightarrow> way_up \<Rightarrow> execution_scope" where
  "scope_of current [] = whole_scope"
| "scope_of current ((parent, sibling) # up) =
     (if (case sibling of Some s \<Rightarrow> kind s = ''&'' | None \<Rightarrow> False)
        then scope_of_node (if kind current = ''list'' then current else parent)
      else if kind parent \<in> {''subshell'', ''command_substitution'', ''process_substitution''}
        then scope_of_node parent
      else if kind parent = ''pipeline'' then scope_of_node current
      else scope_of parent up)"

section \<open>Changes of directory\<close>

record cwd_poison =
  poison_at :: nat
  poison_scope :: execution_scope

definition poison_of :: "field_lookup \<Rightarrow> string \<Rightarrow> node \<times> way_up \<Rightarrow> cwd_poison option" where
  "poison_of field src v =
     (case v of (n, up) \<Rightarrow>
        if kind n = ''command''
           \<and> (case field n ''name'' of
                Some name \<Rightarrow> basename (node_text src name) \<in> {''cd'', ''pushd'', ''popd''}
              | None \<Rightarrow> False)
        then Some \<lparr>poison_at = start_byte n, poison_scope = scope_of n up\<rparr> else None)"

definition cwd_poison_positions :: "field_lookup \<Rightarrow> node \<Rightarrow> string \<Rightarrow> cwd_poison list" where
  "cwd_poison_positions field tr src = List.map_filter (poison_of field src) (visits [] tr)"

definition script_has_cwd_change :: "field_lookup \<Rightarrow> node \<Rightarrow> string \<Rightarrow> bool" where
  "script_has_cwd_change field tr src = (cwd_poison_positions field tr src \<noteq> [])"

definition cwd_unpinned_before :: "cwd_poison list \<Rightarrow> nat \<Rightarrow> execution_scope \<Rightarrow> bool" where
  "cwd_unpinned_before positions pos scope =
     list_ex (\<lambda>p. poison_at p < pos \<and> (poison_scope p = scope \<or> scope_contains (poison_scope p) scope)) positions"

section \<open>Invocations\<close>

record shell_invocation =
  si_start :: nat
  si_scope :: execution_scope
  si_words :: "shell_word list"
  wrapper_words :: "string list"

definition invocation_word :: "string \<Rightarrow> node \<Rightarrow> shell_word option" where
  "invocation_word src child =
     (let operand =
        (if kind child = ''command_name'' then
           (case named_children child of [] \<Rightarrow> None | inner # _ \<Rightarrow> shell_node_arg inner src)
         else shell_node_arg child src)
      in case operand of
           Some (Arg_Literal w) \<Rightarrow> Some (Literal w)
         | Some Arg_Ambiguous \<Rightarrow> Some Untrusted_Word
         | None \<Rightarrow> None)"

text \<open>The placeholder keeps the indexes aligned and is no wrapper.\<close>

fun wrapper_word :: "shell_word \<Rightarrow> string" where
  "wrapper_word (Literal w) = w"
| "wrapper_word Untrusted_Word = [CHR 0x00]"

definition invocation_at :: "string \<Rightarrow> node \<times> way_up \<Rightarrow> shell_invocation option" where
  "invocation_at src v =
     (case v of (n, up) \<Rightarrow>
        if kind n = ''command'' then
          (let ws = List.map_filter (invocation_word src) (named_children n)
           in Some \<lparr>si_start = start_byte n, si_scope = scope_of n up, si_words = ws,
                    wrapper_words = map wrapper_word ws\<rparr>)
        else None)"

definition shell_command_invocations :: "node \<Rightarrow> string \<Rightarrow> shell_invocation list" where
  "shell_command_invocations tr src =
     sort_key si_start (List.map_filter (invocation_at src) (visits [] tr))"

fun literal_word :: "shell_word \<Rightarrow> string option" where
  "literal_word (Literal w) = Some w"
| "literal_word Untrusted_Word = None"

definition literal_words :: "shell_word list \<Rightarrow> string list" where
  "literal_words ws = List.map_filter literal_word ws"

record invocation_peel =
  ip_words :: "shell_word list"
  ip_norm :: command_peel

definition unwrap_invocation_checked :: "shell_invocation \<Rightarrow> invocation_peel" where
  "unwrap_invocation_checked call =
     (let norm = normalize_command_words (wrapper_words call);
          peeled_count = length (wrapper_words call) - length (words norm)
      in \<lparr>ip_words = drop peeled_count (si_words call), ip_norm = norm\<rparr>)"

definition words_are_opaque_shell :: "shell_word list \<Rightarrow> bool" where
  "words_are_opaque_shell ws \<longleftrightarrow> is_potential_inline (shell_dash_c_script ws)
     \<or> (case ws of Literal p # _ \<Rightarrow> basename p = ''eval'' | _ \<Rightarrow> False)"

definition tree_has_opaque_shell :: "node \<Rightarrow> string \<Rightarrow> bool" where
  "tree_has_opaque_shell tr src =
     list_ex (\<lambda>call. words_are_opaque_shell (ip_words (unwrap_invocation_checked call)))
       (shell_command_invocations tr src)"

section \<open>Redirections\<close>

datatype shell_file_mode = SF_Read | SF_Write | SF_Create

record shell_redirect_target =
  rt_start :: nat
  rt_scope :: execution_scope
  rt_path :: "string option"
  rt_mode :: shell_file_mode
  rt_ambiguous :: bool

text \<open>The operator is the first child with an angle bracket; a here-document is no file.\<close>

fun redirect_operator :: "node list \<Rightarrow> string option" where
  "redirect_operator [] = None"
| "redirect_operator (c # cs) =
     (if sublist ''<<'' (kind c) then None
      else if CHR ''>'' \<in> set (kind c) \<or> CHR ''<'' \<in> set (kind c) then Some (kind c)
      else redirect_operator cs)"

definition shell_arg_is_ambiguous :: "string \<Rightarrow> bool" where
  "shell_arg_is_ambiguous token \<longleftrightarrow> CHR ''*'' \<in> set token \<or> CHR ''?'' \<in> set token \<or> CHR ''['' \<in> set token"

definition shell_redirect_one :: "field_lookup \<Rightarrow> string \<Rightarrow> node \<Rightarrow> (string option \<times> shell_file_mode \<times> bool) option" where
  "shell_redirect_one field src n =
     (case redirect_operator (children n) of
        None \<Rightarrow> None
      | Some redirect \<Rightarrow>
          (let md = (if CHR ''>'' \<in> set redirect then SF_Write else SF_Read);
               duplicates_fd = (redirect = ''>&'' \<or> redirect = ''<&'')
           in case field n ''destination'' of
                None \<Rightarrow> None
              | Some dest \<Rightarrow>
                  (case shell_node_arg dest src of
                     None \<Rightarrow> None
                   | Some Arg_Ambiguous \<Rightarrow> Some (None, md, True)
                   | Some (Arg_Literal s) \<Rightarrow>
                       if s = [] \<or> prefix ''&'' s \<or> (duplicates_fd \<and> (s = ''-'' \<or> list_all is_ascii_digit s))
                         then None
                       else Some (Some s, md, shell_arg_is_ambiguous s))))"

definition redirect_at :: "field_lookup \<Rightarrow> string \<Rightarrow> node \<times> way_up \<Rightarrow> shell_redirect_target option" where
  "redirect_at field src v =
     (case v of (n, up) \<Rightarrow>
        if kind n = ''file_redirect'' then
          map_option (\<lambda>(path, md, amb). \<lparr>rt_start = start_byte n, rt_scope = scope_of n up,
              rt_path = path, rt_mode = md, rt_ambiguous = amb\<rparr>) (shell_redirect_one field src n)
        else None)"

definition shell_redirect_targets :: "field_lookup \<Rightarrow> node \<Rightarrow> string \<Rightarrow> shell_redirect_target list" where
  "shell_redirect_targets field tr src = List.map_filter (redirect_at field src) (visits [] tr)"

section \<open>Concrete trees\<close>

text \<open>The tree of a script of simple commands, for examples: the kind and the bytes of every word.\<close>

definition command_node :: "nat \<Rightarrow> nat \<Rightarrow> (string \<times> nat \<times> nat) list \<Rightarrow> node" where
  "command_node a b args = Node ''command'' True a b
     (map (\<lambda>(i, k, c, d). if i = 0 then Node ''command_name'' True c d [Node k True c d []] else Node k True c d [])
       (enumerate 0 args))"

definition script_tree :: "nat \<Rightarrow> node list \<Rightarrow> tree" where
  "script_tree n ns = \<lparr>root_node = Node ''program'' True 0 n ns, has_error = False\<rparr>"

text \<open>The grammar calls the first child of a command its name.\<close>

definition name_field :: field_lookup where
  "name_field n f = (if f = ''name'' \<and> kind n = ''command'' then nth_child (children n) 0 else None)"

abbreviation written :: "shell_invocation \<Rightarrow> shell_word list \<times> string list" where
  "written call \<equiv> (si_words call, wrapper_words call)"

lemmas tree_eval = shell_command_invocations_def invocation_at_def named_children_def invocation_word_def
  shell_node_arg_def node_text_def slice_def decode_unquoted_word_def backslash_def squote_def strip_both_def
  literal_or_ambiguous_def command_node_def script_tree_def map_filter_simps strip_prefix_def strip_suffix_def
  suffix_to_prefix

end
