(* ===== verification/Exec_Risk.thy ===== *)
theory Exec_Risk
  imports Command_Words Rule_Matching
begin

text \<open>
  The part of \<open>permission/exec_risk.rs\<close> that reads argument lists: options of \<open>git\<close> and \<open>sort\<close> that
  run a program, and the git queries that only read. The scan of a repository's git configuration is
  I/O and not modelled.
\<close>

section \<open>Normalization for this analysis\<close>

text \<open>Slices of one array are equal when they have the same end and the same length.\<close>

fun exec_normalize :: "nat \<Rightarrow> string list \<Rightarrow> string list option" where
  "exec_normalize 0 current = None"
| "exec_normalize (Suc n) current =
     (let checked = unwrap_wrappers_checked current
      in if wp_exhausted checked \<or> wp_split_string checked \<or> wp_chdir checked then None
         else (case peel_transparent_prefixes (wp_words checked) of
                 None \<Rightarrow> None
               | Some after_trans \<Rightarrow>
                   if length after_trans = length current \<or> length after_trans = length (wp_words checked)
                   then Some after_trans else exec_normalize n after_trans))"

definition normalize_for_exec_risk :: "string list \<Rightarrow> string list option" where
  "normalize_for_exec_risk ws = exec_normalize MAX_NORMALIZE_ROUNDS ws"

definition nth_word :: "string list \<Rightarrow> nat \<Rightarrow> string option" where
  "nth_word ws i = (if i < length ws then Some (ws ! i) else None)"

section \<open>Option spellings\<close>

definition is_accepted_long_option_prefix :: "string \<Rightarrow> string \<Rightarrow> nat \<Rightarrow> bool" where
  "is_accepted_long_option_prefix flag full min_len \<longleftrightarrow>
     prefix ''--'' flag \<and> min_len \<le> length flag \<and> prefix flag full
     \<and> list_all (\<lambda>c. is_ascii_alphanumeric c \<or> c = CHR ''-'') flag"

text \<open>\<open>split_once('=')\<close>, first half, or the whole word.\<close>

definition flag_name :: "string \<Rightarrow> string" where
  "flag_name w = takeWhile (\<lambda>c. c \<noteq> CHR ''='') w"

definition strip_exe :: "string \<Rightarrow> string" where
  "strip_exe name = (case strip_suffix ''.exe'' name of Some stem \<Rightarrow> stem | None \<Rightarrow> name)"

definition normalized_program_name :: "string list \<Rightarrow> string option" where
  "normalized_program_name ws =
     (case ws of
        [] \<Rightarrow> None
      | raw # _ \<Rightarrow> if basename raw = [] then None else Some (strip_exe (to_ascii_lowercase (basename raw))))"

definition is_git_program :: "string list \<Rightarrow> bool" where
  "is_git_program ws = (normalized_program_name ws = Some ''git'')"

definition is_sort_program :: "string list \<Rightarrow> bool" where
  "is_sort_program ws = (normalized_program_name ws = Some ''sort'')"

definition normalized_token_basename :: "string \<Rightarrow> string" where
  "normalized_token_basename token = strip_exe (to_ascii_lowercase (basename token))"

definition sort_has_compress_program_flag :: "string list \<Rightarrow> bool" where
  "sort_has_compress_program_flag ws =
     list_ex (\<lambda>w. w = ''--compress-program'' \<or> prefix ''--compress-program='' w
         \<or> is_accepted_long_option_prefix (flag_name w) ''--compress-program'' 4)
       (takeWhile (\<lambda>w. w \<noteq> ''--'') (drop 1 ws))"

definition is_git_config_env_flag :: "string \<Rightarrow> bool" where
  "is_git_config_env_flag tok =
     (if tok = ''--config-env'' \<or> prefix ''--config-env='' tok then True
      else is_accepted_long_option_prefix (flag_name tok) ''--config-env'' 4)"

definition is_git_repo_retarget_flag :: "string \<Rightarrow> bool" where
  "is_git_repo_retarget_flag tok =
     (if tok = ''--git-dir'' \<or> prefix ''--git-dir='' tok \<or> tok = ''--work-tree'' \<or> prefix ''--work-tree='' tok
      then True
      else is_accepted_long_option_prefix (flag_name tok) ''--git-dir'' 4
        \<or> is_accepted_long_option_prefix (flag_name tok) ''--work-tree'' 4)"

definition is_attached_git_config_c :: "string \<Rightarrow> bool" where
  "is_attached_git_config_c tok = (prefix ''-c'' tok \<and> 2 < length tok \<and> \<not> prefix ''--'' tok)"

definition attached_git_c_path :: "string \<Rightarrow> string option" where
  "attached_git_c_path tok =
     (case strip_prefix ''-C'' tok of
        Some rest \<Rightarrow> if rest \<noteq> [] \<and> \<not> prefix ''--'' tok then Some rest else None
      | None \<Rightarrow> None)"

definition git_global_option_takes_value :: "string \<Rightarrow> bool" where
  "git_global_option_takes_value tok \<longleftrightarrow>
     tok \<in> {''-C'', ''-c'', ''--git-dir'', ''--work-tree'', ''--namespace'', ''--super-prefix'',
       ''--exec-path'', ''--list-cmds'', ''--attr-source'', ''--config-env''}
     \<or> is_accepted_long_option_prefix tok ''--config-env'' 4
     \<or> is_accepted_long_option_prefix tok ''--git-dir'' 4
     \<or> is_accepted_long_option_prefix tok ''--work-tree'' 4
     \<or> is_accepted_long_option_prefix tok ''--namespace'' 7
     \<or> is_accepted_long_option_prefix tok ''--super-prefix'' 8
     \<or> is_accepted_long_option_prefix tok ''--exec-path'' 7
     \<or> is_accepted_long_option_prefix tok ''--list-cmds'' 7
     \<or> is_accepted_long_option_prefix tok ''--attr-source'' 8"

section \<open>Options before the subcommand\<close>

definition is_exec_risk_global :: "string \<Rightarrow> bool" where
  "is_exec_risk_global tok \<longleftrightarrow> tok = ''-c'' \<or> is_attached_git_config_c tok \<or> is_git_config_env_flag tok
     \<or> is_git_repo_retarget_flag tok"

definition is_value_word :: "string list \<Rightarrow> bool" where
  "is_value_word rest = (case rest of n # _ \<Rightarrow> \<not> prefix ''-'' n \<or> n = ''-'' | [] \<Rightarrow> False)"

text \<open>The loop from index 1, on the words that are left.\<close>

fun git_risk_loop :: "string list \<Rightarrow> bool" where
  "git_risk_loop [] = False"
| "git_risk_loop (tok # rest) =
     (if tok = ''--'' then False
      else if \<not> prefix ''-'' tok \<or> tok = ''-'' then False
      else if is_exec_risk_global tok then True
      else if attached_git_c_path tok \<noteq> None then git_risk_loop rest
      else if CHR ''='' \<notin> set tok \<and> git_global_option_takes_value tok \<and> is_value_word rest
        then git_risk_loop (drop 1 rest)
      else git_risk_loop rest)"

definition git_has_exec_risk_global :: "string list \<Rightarrow> bool" where
  "git_has_exec_risk_global ws = git_risk_loop (drop 1 ws)"

definition segment_has_exec_risk_flag :: "string list \<Rightarrow> bool" where
  "segment_has_exec_risk_flag ws =
     (if is_sort_program ws then sort_has_compress_program_flag ws
      else if is_git_program ws then git_has_exec_risk_global ws
      else False)"

record segment_facts =
  exec_risk :: bool
  has_git :: bool

definition segment_exec_facts :: "string list \<Rightarrow> segment_facts" where
  "segment_exec_facts ws =
     (case normalize_for_exec_risk ws of
        None \<Rightarrow> \<lparr>exec_risk = True, has_git = False\<rparr>
      | Some inner \<Rightarrow> \<lparr>exec_risk = segment_has_exec_risk_flag inner, has_git = is_git_program inner\<rparr>)"

section \<open>Read-only queries\<close>

definition SAFE_GIT_SUBCOMMANDS :: "string list" where
  "SAFE_GIT_SUBCOMMANDS = [''status'', ''branch'', ''log'', ''diff'', ''ls-files'', ''show'', ''rev-parse'',
     ''blame'', ''grep'', ''describe'', ''merge-base'', ''check-ignore'', ''check-attr'', ''cat-file'',
     ''ls-tree'', ''show-ref'', ''for-each-ref'', ''rev-list'', ''name-rev'', ''count-objects'', ''shortlog'']"

definition GIT_QUERY_UNSAFE_OPTIONS :: "string list" where
  "GIT_QUERY_UNSAFE_OPTIONS =
     [''--filters'', ''--textconv'', ''--output'', ''--ext-diff'', ''--open-files-in-pager'']"

definition git_query_option_is_unsafe :: "string \<Rightarrow> bool" where
  "git_query_option_is_unsafe w =
     (2 < length (flag_name w) \<and> list_ex (\<lambda>full. prefix (flag_name w) full) GIT_QUERY_UNSAFE_OPTIONS)"

fun verb_index_loop :: "string list \<Rightarrow> nat \<Rightarrow> nat option" where
  "verb_index_loop [] i = None"
| "verb_index_loop (tok # rest) i =
     (if tok = ''-'' \<or> tok = ''--'' then None
      else if \<not> prefix ''-'' tok then Some i
      else if tok = ''-C'' then (case rest of [] \<Rightarrow> None | _ # rest' \<Rightarrow> verb_index_loop rest' (i + 2))
      else if attached_git_c_path tok \<noteq> None \<or> tok = ''--no-pager'' \<or> tok = ''-P'' then verb_index_loop rest (i + 1)
      else None)"

definition git_safe_query_verb_index :: "string list \<Rightarrow> nat option" where
  "git_safe_query_verb_index ws = verb_index_loop (drop 1 ws) 1"

definition git_words_have_unsafe_query_option :: "string list \<Rightarrow> bool" where
  "git_words_have_unsafe_query_option ws =
     (if nth_word ws 0 \<noteq> Some ''git'' then False
      else if list_ex git_query_option_is_unsafe (drop 1 ws) then True
      else (case git_safe_query_verb_index ws of
              Some i \<Rightarrow> ws ! i = ''grep'' \<and> list_ex (\<lambda>w. prefix ''-O'' w) (drop 1 ws)
            | None \<Rightarrow> False))"

definition git_words_are_read_only_query :: "string list \<Rightarrow> bool" where
  "git_words_are_read_only_query ws =
     (if nth_word ws 0 \<noteq> Some ''git'' then False
      else if git_has_exec_risk_global ws then False
      else (case git_safe_query_verb_index ws of
              None \<Rightarrow> False
            | Some i \<Rightarrow>
                if ws ! i \<notin> set SAFE_GIT_SUBCOMMANDS then False
                else \<not> git_words_have_unsafe_query_option ws))"

section \<open>What a read-only query looks like\<close>

text \<open>Options that may stand before the verb: \<open>-C\<close> with its value or attached, the pager switches.\<close>

fun query_globals :: "string list \<Rightarrow> bool" where
  "query_globals [] = True"
| "query_globals (tok # rest) =
     (if tok = ''-C'' then (case rest of [] \<Rightarrow> False | _ # rest' \<Rightarrow> query_globals rest')
      else (attached_git_c_path tok \<noteq> None \<or> tok = ''--no-pager'' \<or> tok = ''-P'') \<and> query_globals rest)"

lemma verb_index_loop_Some:
  "verb_index_loop ws i = Some k \<Longrightarrow>
     \<exists>gs verb args. ws = gs @ verb # args \<and> k = i + length gs \<and> query_globals gs \<and> \<not> prefix ''-'' verb"
proof (induction ws i rule: verb_index_loop.induct)
  case (2 tok rest i)
  consider (verb) "\<not> prefix ''-'' tok" "k = i" | (dir) "tok = ''-C''" | (attached)
    "tok \<noteq> ''-C''" "attached_git_c_path tok \<noteq> None \<or> tok = ''--no-pager'' \<or> tok = ''-P''" "verb_index_loop rest (i + 1) = Some k"
    "tok \<noteq> ''-''" "tok \<noteq> ''--''" "prefix ''-'' tok"
    using "2.prems" by (simp only: verb_index_loop.simps split: if_split_asm) blast+
  then show ?case
  proof cases
    case verb
    then show ?thesis by (intro exI [of _ "[]"] exI [of _ tok] exI [of _ rest]) simp
  next
    case dir
    with "2.prems" obtain v rest' where rest: "rest = v # rest'" and "verb_index_loop rest' (i + 2) = Some k"
      by (cases rest) simp_all
    with "2.IH"(1) [OF _ _ _ rest] dir obtain gs verb args
      where "rest' = gs @ verb # args" "k = i + 2 + length gs" "query_globals gs" "\<not> prefix ''-'' verb"
      by auto
    with rest dir show ?thesis
      by (intro exI [of _ "tok # v # gs"] exI [of _ verb] exI [of _ args]) simp
  next
    case attached
    then obtain gs verb args
      where "rest = gs @ verb # args" "k = i + 1 + length gs" "query_globals gs" "\<not> prefix ''-'' verb"
      using "2.IH"(2) by auto
    with attached(1,2) show ?thesis
      by (intro exI [of _ "tok # gs"] exI [of _ verb] exI [of _ args]) simp
  qed
qed simp

section \<open>Properties\<close>

text \<open>
  A \<open>git\<close> command that is allowed as a read-only query is the literal word \<open>git\<close>, then only
  changes of directory and pager switches, then one of the listed verbs; no later word is or
  abbreviates an option that runs a driver or writes a file, and \<open>grep\<close> has no \<open>-O\<close>.
\<close>

theorem read_only_query_shape:
  assumes "git_words_are_read_only_query ws"
  shows "\<exists>gs verb args. ws = ''git'' # gs @ verb # args \<and> query_globals gs \<and> verb \<in> set SAFE_GIT_SUBCOMMANDS
     \<and> list_all (\<lambda>w. \<not> git_query_option_is_unsafe w) (gs @ verb # args)
     \<and> \<not> (verb = ''grep'' \<and> list_ex (\<lambda>w. prefix ''-O'' w) (gs @ verb # args))"
proof -
  from assms obtain i where head: "nth_word ws 0 = Some ''git''" and i: "git_safe_query_verb_index ws = Some i"
    and safe: "ws ! i \<in> set SAFE_GIT_SUBCOMMANDS" and opts: "\<not> git_words_have_unsafe_query_option ws"
    by (simp only: git_words_are_read_only_query_def split: if_split_asm option.split_asm) blast+
  from head obtain rest where ws: "ws = ''git'' # rest"
    by (cases ws) (simp_all add: nth_word_def)
  from i obtain gs verb args where rest: "rest = gs @ verb # args" "i = 1 + length gs" "query_globals gs"
    using verb_index_loop_Some [of rest 1 i] by (auto simp: git_safe_query_verb_index_def ws)
  then have verb: "ws ! i = verb" by (simp add: ws)
  have "list_all (\<lambda>w. \<not> git_query_option_is_unsafe w) rest"
    using opts head by (simp add: git_words_have_unsafe_query_option_def ws list_all_iff list_ex_iff split: if_split_asm)
  moreover have "\<not> (verb = ''grep'' \<and> list_ex (\<lambda>w. prefix ''-O'' w) rest)"
    using opts head i verb by (simp add: git_words_have_unsafe_query_option_def ws split: if_split_asm)
  moreover have "ws = ''git'' # gs @ verb # args" "verb \<in> set SAFE_GIT_SUBCOMMANDS"
    using ws rest(1) safe verb by simp_all
  ultimately show ?thesis
    unfolding rest(1) using rest(3) by (intro exI conjI) assumption+
qed

lemma read_only_query_shape_witness:
  "\<exists>gs args. [''git'', ''-C'', ''sub'', ''--no-pager'', ''log'', ''-p''] = ''git'' # gs @ ''log'' # args \<and> query_globals gs"
proof -
  have "git_words_are_read_only_query [''git'', ''-C'', ''sub'', ''--no-pager'', ''log'', ''-p'']" by code_simp
  from read_only_query_shape [OF this] obtain gs verb args
    where e: "[''-C'', ''sub'', ''--no-pager'', ''log'', ''-p''] = gs @ verb # args" and g: "query_globals gs"
      and v: "verb \<in> set SAFE_GIT_SUBCOMMANDS" by auto
  have "\<not> ''-p'' \<in> set SAFE_GIT_SUBCOMMANDS" "\<not> ''--no-pager'' \<in> set SAFE_GIT_SUBCOMMANDS"
    "\<not> ''-C'' \<in> set SAFE_GIT_SUBCOMMANDS" "\<not> ''sub'' \<in> set SAFE_GIT_SUBCOMMANDS" by code_simp+
  with e v have "verb = ''log''" by (auto simp: Cons_eq_append_conv)
  with e g show ?thesis by auto
qed

end
