(* ===== verification/Grant_Scope.thy ===== *)
theory Grant_Scope
  imports Exec_Risk Shell_Tree
begin

text \<open>
  What a session remembers (\<open>permission/state.rs\<close>), which commands count as safe or dangerous and how
  many of its words a remembered grant keeps (\<open>permission/manager/mod.rs\<close>), and what an "Always
  allow" answer stores (\<open>permission/manager/bash_grants.rs\<close>). A hash set is the duplicate-free list
  of its elements in the order it iterates; no theorem depends on that order.
\<close>

section \<open>The state of a session\<close>

datatype edit_policy = EP_Ask | EP_Allow | EP_Reject

record permission_state =
  ps_edit_policy :: edit_policy
  allow_bash_execute :: bool
  allowed_bash_commands :: "string list"
  disallowed_bash_commands :: "string list"
  allowed_bash_globs :: "string list"
  allowed_web_fetch_domains :: "string list"
  allowed_mcp_tools :: "string list"
  allowed_mcp_servers :: "string list"
  disallowed_mcp_tools :: "string list"
  disallowed_web_fetch_domains :: "string list"
  validated_mcp_server_grants_version :: int

definition state_default :: permission_state where
  "state_default = \<lparr>ps_edit_policy = EP_Ask, allow_bash_execute = False,
     allowed_bash_commands = [], disallowed_bash_commands = [], allowed_bash_globs = [],
     allowed_web_fetch_domains = [], allowed_mcp_tools = [], allowed_mcp_servers = [],
     disallowed_mcp_tools = [], disallowed_web_fetch_domains = [], validated_mcp_server_grants_version = 1\<rparr>"

definition extend :: "'a list \<Rightarrow> 'a list \<Rightarrow> 'a list" where
  "extend xs ys = fold List.insert ys xs"

definition merge_grants_from :: "permission_state \<Rightarrow> permission_state \<Rightarrow> permission_state" where
  "merge_grants_from s other = s\<lparr>
     allow_bash_execute := (allow_bash_execute s \<or> allow_bash_execute other),
     allowed_bash_commands := extend (allowed_bash_commands s) (allowed_bash_commands other),
     disallowed_bash_commands := extend (disallowed_bash_commands s) (disallowed_bash_commands other),
     allowed_bash_globs := extend (allowed_bash_globs s) (allowed_bash_globs other),
     allowed_web_fetch_domains := extend (allowed_web_fetch_domains s) (allowed_web_fetch_domains other),
     allowed_mcp_tools := extend (allowed_mcp_tools s) (allowed_mcp_tools other),
     allowed_mcp_servers := extend (allowed_mcp_servers s) (allowed_mcp_servers other),
     disallowed_mcp_tools := extend (disallowed_mcp_tools s) (disallowed_mcp_tools other),
     disallowed_web_fetch_domains := extend (disallowed_web_fetch_domains s) (disallowed_web_fetch_domains other)\<rparr>"

section \<open>Safe and dangerous commands\<close>

definition rg_has_pre_flag :: "string list \<Rightarrow> bool" where
  "rg_has_pre_flag ws =
     (if normalized_command_head ws \<noteq> Some ''rg'' then False
      else list_ex (\<lambda>w. w = ''--pre'' \<or> prefix ''--pre='' w) ws)"

definition KUBECTL_UNSAFE_FLAGS :: "string list" where
  "KUBECTL_UNSAFE_FLAGS = [''--kubeconfig'', ''--context'', ''--cluster'', ''--server'', ''-s'', ''--token'',
     ''--user'', ''--as'', ''--as-group'', ''--as-uid'', ''--as-user-extra'', ''--username'', ''--password'',
     ''--client-certificate'', ''--client-key'', ''--certificate-authority'']"

definition kubectl_has_unsafe_flag :: "string list \<Rightarrow> bool" where
  "kubectl_has_unsafe_flag ws =
     (if normalized_command_head ws \<noteq> Some ''kubectl'' then False
      else list_ex (\<lambda>w. flag_name w \<in> set KUBECTL_UNSAFE_FLAGS) (drop 1 ws))"

definition ps_value_flags :: "string list" where
  "ps_value_flags = [''-o'', ''-O'', ''--format'', ''--sort'', ''-p'', ''-q'', ''-t'', ''-u'', ''-U'', ''-g'',
     ''-G'', ''-C'', ''-s'', ''--pid'', ''--ppid'', ''--sid'', ''--tty'', ''--user'', ''--group'', ''--cols'',
     ''--columns'', ''--width'', ''o'', ''O'']"

fun ps_loop :: "string list \<Rightarrow> bool \<Rightarrow> bool" where
  "ps_loop [] skip_next = False"
| "ps_loop (s # rest) skip_next =
     (if skip_next then ps_loop rest False
      else if prefix ''--format='' s \<or> prefix ''--sort='' s then ps_loop rest False
      else if s \<in> set ps_value_flags then ps_loop rest True
      else if prefix ''-o'' s \<or> prefix ''-O'' s then ps_loop rest False
      else
        (let has_upper_e = CHR ''E'' \<in> set s;
             has_lower_e = CHR ''e'' \<in> set s;
             dashless = (\<not> prefix ''-'' s);
             bsd_selector_cluster = (prefix ''-'' s \<and> \<not> prefix ''--'' s \<and> (CHR ''a'' \<in> set s \<or> CHR ''x'' \<in> set s))
         in if has_upper_e \<or> (has_lower_e \<and> (dashless \<or> bsd_selector_cluster)) then True
            else if prefix ''-'' s \<and> \<not> prefix ''--'' s \<and> (suffix ''o'' s \<or> suffix ''O'' s)
              then ps_loop rest True
            else ps_loop rest False))"

definition ps_dumps_environment :: "string list \<Rightarrow> bool" where
  "ps_dumps_environment ws =
     (if normalized_command_head ws \<noteq> Some ''ps'' then False else ps_loop (drop 1 ws) False)"

definition is_safe_git_query_prefix :: "string \<Rightarrow> bool" where
  "is_safe_git_query_prefix cmd =
     (case strip_prefix ''git '' cmd of
        Some rest \<Rightarrow> list_ex (matches_command_prefix rest) SAFE_GIT_SUBCOMMANDS
      | None \<Rightarrow> False)"

definition is_safe_command_words_str :: "string \<Rightarrow> bool" where
  "is_safe_command_words_str cmd \<longleftrightarrow>
     list_ex (matches_command_prefix cmd) [''ls'', ''cat'', ''pwd'', ''date'']
     \<or> is_safe_git_query_prefix cmd
     \<or> list_ex (matches_command_prefix cmd)
         [''whoami'', ''hostname'', ''uptime'', ''grep'', ''rg'', ''kubectl get'', ''kubectl logs'',
          ''kubectl describe'', ''ps'', ''bin/explorer ls'', ''head'', ''tail'', ''wc'', ''sort'', ''uniq'',
          ''tr'', ''cut'', ''echo'', ''printf'']"

definition special_surface :: "string list \<Rightarrow> bool" where
  "special_surface ws \<longleftrightarrow> rg_has_pre_flag ws \<or> kubectl_has_unsafe_flag ws \<or> ps_dumps_environment ws"

definition is_safe_command_words :: "string list \<Rightarrow> bool" where
  "is_safe_command_words ws =
     (if ws = [] then False
      else if special_surface ws then False
      else if nth_word ws 0 = Some ''git'' then git_words_are_read_only_query ws
      else is_safe_command_words_str (join_with '' '' ws))"

definition ALWAYS_SAFE_COMMANDS :: "string list" where
  "ALWAYS_SAFE_COMMANDS = [''ls'', ''cat'', ''pwd'', ''date'', ''whoami'', ''hostname'', ''uptime'', ''ps'',
     ''grep'', ''rg'', ''kubectl get'', ''kubectl logs'', ''kubectl describe'', ''bin/explorer ls'']"

definition is_always_safe_command_words :: "string list \<Rightarrow> bool" where
  "is_always_safe_command_words ws =
     (if ws = [] then False
      else if special_surface ws then False
      else if nth_word ws 0 = Some ''git'' then git_words_are_read_only_query ws
      else list_ex (matches_command_prefix (join_with '' '' ws)) ALWAYS_SAFE_COMMANDS)"

definition is_creation_program :: "string \<Rightarrow> bool" where
  "is_creation_program p = (p \<in> {''mkdir'', ''touch''})"

definition is_safe_creation_command :: "string list \<Rightarrow> bool" where
  "is_safe_creation_command ws = (case ws of w # _ \<Rightarrow> is_creation_program w | [] \<Rightarrow> False)"

definition is_dangerous_command_words :: "string list \<Rightarrow> bool" where
  "is_dangerous_command_words ws =
     (case normalized_command_head ws of
        None \<Rightarrow> False
      | Some head \<Rightarrow>
          (let joined = (if length ws = 1 then head else head @ '' '' @ join_with '' '' (drop 1 ws))
           in list_ex (matches_command_prefix joined)
                [''rm'', ''chmod'', ''chown'', ''chgrp'', ''chattr'', ''pkill'', ''kill'', ''killall'', ''git push'']))"

section \<open>How many words a grant keeps\<close>

definition always_allow_scope_pinned :: "string list \<Rightarrow> bool" where
  "always_allow_scope_pinned ws \<longleftrightarrow>
     is_dangerous_command_words ws \<or> head_is_exec_vehicle ws \<or> normalized_command_head ws = Some ''sed''"

definition gh_always_allow_scope :: "string list \<Rightarrow> nat option" where
  "gh_always_allow_scope ws =
     (if normalized_command_head ws \<noteq> Some ''gh'' then None
      else Some (case (nth_word ws 1, nth_word ws 2) of
                   (Some grp, Some verb) \<Rightarrow>
                     if \<not> prefix ''-'' grp \<and> \<not> prefix ''-'' verb then 3 else length ws
                 | _ \<Rightarrow> length ws))"

definition verb_and_flags :: "string list \<Rightarrow> nat" where
  "verb_and_flags ws =
     (let n = min (length ws) 2 in n + length (takeWhile (\<lambda>w. prefix ''-'' w) (drop n ws)))"

definition base_scope :: "string list \<Rightarrow> nat" where
  "base_scope ws =
     (if is_safe_command_words ws \<and> is_safe_command_words_str (ws ! 0) then 1
      else if is_safe_command_words ws \<and> 2 \<le> length ws \<and> is_safe_command_words_str (join_with '' '' (take 2 ws)) then 2
      else verb_and_flags ws)"

definition default_always_allow_scope :: "string list \<Rightarrow> nat" where
  "default_always_allow_scope ws =
     (if ws = [] then 0
      else if always_allow_scope_pinned ws then length ws
      else (case gh_always_allow_scope ws of Some n \<Rightarrow> n | None \<Rightarrow> base_scope ws))"

definition default_always_deny_scope :: "string list \<Rightarrow> nat" where
  "default_always_deny_scope ws = (if ws = [] then 0 else base_scope ws)"

definition minimum_always_allow_scope :: "string list \<Rightarrow> nat" where
  "minimum_always_allow_scope ws =
     (if always_allow_scope_pinned ws then length ws
      else (case gh_always_allow_scope ws of Some n \<Rightarrow> n | None \<Rightarrow> 1))"

section \<open>What an answer stores\<close>

definition words_join_unambiguously :: "shell_parser \<Rightarrow> string list \<Rightarrow> bool" where
  "words_join_unambiguously parse ws =
     (let joined = join_with '' '' ws
      in case all_commands_from_script parse joined of
           Some [only] \<Rightarrow> spans_whole_script only joined \<and> pc_words only = ws
         | _ \<Rightarrow> False)"

definition always_allow_scope_persists :: "shell_parser \<Rightarrow> command_highlights \<Rightarrow> nat \<Rightarrow> bool" where
  "always_allow_scope_persists parse h n =
     (let ws = highlighted_words h
      in if n = 0 \<or> length ws < n \<or> n < minimum_always_allow_scope ws then False
         else words_join_unambiguously parse (take n ws)
           \<or> (n = length ws \<and> ch_prefix h = [] \<and> ch_suffix h = []))"

definition whole_script_grant :: "shell_parser \<Rightarrow> string \<Rightarrow> plain_command list \<Rightarrow> permission_state \<Rightarrow> bool" where
  "whole_script_grant parse cmd segments s =
     (if cmd \<in> set (allowed_bash_commands s) then True
      else (case segments of
              [only] \<Rightarrow> spans_whole_script only cmd \<and> words_join_unambiguously parse (pc_words only)
                \<and> join_with '' '' (pc_words only) \<in> set (allowed_bash_commands s)
            | _ \<Rightarrow> False))"

definition MAX_SEGMENT_GRANTS :: nat where "MAX_SEGMENT_GRANTS = 5"

definition segment_grant :: "shell_parser \<Rightarrow> plain_command \<Rightarrow> string option" where
  "segment_grant parse c =
     (let ws = unwrap_wrappers (pc_words c)
      in if ws \<noteq> [] \<and> \<not> is_setup_command ws \<and> \<not> is_dangerous_command_words ws
            \<and> \<not> head_is_exec_vehicle ws \<and> words_join_unambiguously parse ws
         then Some (join_with '' '' ws) else None)"

definition bash_grant_segments :: "shell_parser \<Rightarrow> string \<Rightarrow> string list" where
  "bash_grant_segments parse cmd =
     (case all_commands_from_script parse cmd of
        None \<Rightarrow> []
      | Some segments \<Rightarrow>
          (let grants = List.map_filter (segment_grant parse) segments
           in if MAX_SEGMENT_GRANTS < length grants then [] else grants))"

definition persist_bash_always_allow ::
  "shell_parser \<Rightarrow> permission_state \<Rightarrow> string \<Rightarrow> string \<Rightarrow> permission_state" where
  "persist_bash_always_allow parse s cmd label =
     (case primary_command_from_script parse cmd of
        None \<Rightarrow> s
      | Some h \<Rightarrow>
          (let ws = highlighted_words h;
               min_scope = minimum_always_allow_scope ws;
               labeled_words_verified = list_ex (\<lambda>n. words_join_unambiguously parse (take n ws)
                 \<and> join_with '' '' (take n ws) = label) [min_scope..<length ws + 1]
           in if labeled_words_verified
                then s\<lparr>allowed_bash_commands := List.insert label (allowed_bash_commands s)\<rparr>
              else if ch_prefix h = [] \<and> ch_suffix h = [] \<and> join_with '' '' ws = label
                then s\<lparr>allowed_bash_commands := List.insert cmd (allowed_bash_commands s)\<rparr>
              else s))"

definition bash_glob_covers_script :: "environment \<Rightarrow> shell_parser \<Rightarrow> string \<Rightarrow> string \<Rightarrow> bool" where
  "bash_glob_covers_script env parse cmd pat =
     (if bash_glob_is_catchall env pat then False
      else (case all_commands_from_script parse cmd of
              None \<Rightarrow> bash_pattern_matches_command env pat cmd
            | Some segments \<Rightarrow>
                list_ex (\<lambda>c. let ws = unwrap_wrappers (pc_words c)
                   in ws \<noteq> [] \<and> \<not> is_setup_command ws \<and> bash_pattern_matches_command env pat (join_with '' '' ws))
                  segments))"

section \<open>Scopes and labels\<close>

lemma join_take_Suc:
  "1 \<le> n \<Longrightarrow> n < length ws \<Longrightarrow>
     join_with '' '' (take (Suc n) ws) = join_with '' '' (take n ws) @ '' '' @ ws ! n"
proof -
  assume n: "1 \<le> n" "n < length ws"
  then have "take n ws \<noteq> []" by auto
  from join_with_snoc [OF this, of "'' ''" "ws ! n"] show ?thesis
    unfolding take_Suc_conv_app_nth [OF n(2)] .
qed

lemma join_take_longer:
  "1 \<le> m \<Longrightarrow> m < n \<Longrightarrow> n \<le> length ws \<Longrightarrow>
     length (join_with '' '' (take m ws)) < length (join_with '' '' (take n ws))"
proof (induction n)
  case (Suc n)
  then have "length (join_with '' '' (take n ws)) < length (join_with '' '' (take (Suc n) ws))"
    by (subst join_take_Suc) simp_all
  moreover have "m = n \<or> length (join_with '' '' (take m ws)) < length (join_with '' '' (take n ws))"
    using Suc by (cases "m = n") simp_all
  ultimately show ?case by auto
qed simp

lemma join_take_inj:
  assumes "join_with '' '' (take m ws) = join_with '' '' (take n ws)"
    and "1 \<le> m" "m \<le> length ws" "1 \<le> n" "n \<le> length ws"
  shows "m = n"
  using join_take_longer [of m n ws] join_take_longer [of n m ws] assms
  by (metis less_irrefl linorder_neqE_nat)

lemma gh_scope_bounds:
  "gh_always_allow_scope ws = Some n \<Longrightarrow> ws \<noteq> [] \<Longrightarrow> 1 \<le> n \<and> n \<le> length ws"
  by (cases ws) (auto simp: gh_always_allow_scope_def nth_word_def split: if_split_asm option.split_asm)

lemma minimum_scope_bounds:
  "ws \<noteq> [] \<Longrightarrow> 1 \<le> minimum_always_allow_scope ws \<and> minimum_always_allow_scope ws \<le> length ws"
  using gh_scope_bounds [of ws] by (cases ws) (auto simp: minimum_always_allow_scope_def split: option.split)

lemma base_scope_bounds: "ws \<noteq> [] \<Longrightarrow> 1 \<le> base_scope ws \<and> base_scope ws \<le> length ws"
proof -
  assume "ws \<noteq> []"
  moreover have "length (takeWhile (prefix ''-'') (drop (min (length ws) 2) ws)) \<le> length ws - min (length ws) 2"
    using length_takeWhile_le [of "prefix ''-''" "drop (min (length ws) 2) ws"] by simp
  ultimately show ?thesis
    unfolding base_scope_def verb_and_flags_def Let_def by (cases ws) (auto simp: min_def)
qed

lemma find_primary_words: "find_primary cs = Some (c, off, ws) \<Longrightarrow> ws \<noteq> []"
proof (induction cs)
  case (Cons d cs)
  show ?case
  proof (cases "peel_primary d")
    case None
    with Cons show ?thesis by simp
  next
    case (Some r)
    let ?p = "unwrap_wrappers (pc_words d)"
    have "suffix ?p (pc_words d)" by (simp add: unwrap_wrappers_def unwrap_suffix)
    then have "drop (length (pc_words d) - length ?p) (pc_words d) = ?p"
      by (metis suffix_def append_eq_conv_conj length_append add_diff_cancel_right')
    with Some Cons.prems show ?thesis by (auto simp: peel_primary_def Let_def split: if_split_asm)
  qed
qed simp

lemma primary_words: "primary_command_from_script parse cmd = Some h \<Longrightarrow> highlighted_words h \<noteq> []"
  by (auto simp: primary_command_from_script_def dest: find_primary_words split: option.split_asm)

lemma persist_cases:
  assumes "primary_command_from_script parse cmd = Some h"
  obtains (label) n where "minimum_always_allow_scope (highlighted_words h) \<le> n" "n \<le> length (highlighted_words h)"
      "words_join_unambiguously parse (take n (highlighted_words h))"
      "label = join_with '' '' (take n (highlighted_words h))"
      "persist_bash_always_allow parse s cmd label = s\<lparr>allowed_bash_commands := List.insert label (allowed_bash_commands s)\<rparr>"
  | (raw) "ch_prefix h = []" "ch_suffix h = []" "label = join_with '' '' (highlighted_words h)"
      "persist_bash_always_allow parse s cmd label = s\<lparr>allowed_bash_commands := List.insert cmd (allowed_bash_commands s)\<rparr>"
  | (refused) "persist_bash_always_allow parse s cmd label = s"
      "\<And>n. minimum_always_allow_scope (highlighted_words h) \<le> n \<Longrightarrow> n \<le> length (highlighted_words h) \<Longrightarrow>
        words_join_unambiguously parse (take n (highlighted_words h)) \<Longrightarrow>
        label \<noteq> join_with '' '' (take n (highlighted_words h))"
      "\<not> (ch_prefix h = [] \<and> ch_suffix h = [] \<and> label = join_with '' '' (highlighted_words h))"
proof -
  let ?ws = "highlighted_words h"
  let ?ok = "list_ex (\<lambda>n. words_join_unambiguously parse (take n ?ws) \<and> join_with '' '' (take n ?ws) = label)
    [minimum_always_allow_scope ?ws..<length ?ws + 1]"
  have p: "persist_bash_always_allow parse s cmd label =
      (if ?ok then s\<lparr>allowed_bash_commands := List.insert label (allowed_bash_commands s)\<rparr>
       else if ch_prefix h = [] \<and> ch_suffix h = [] \<and> join_with '' '' ?ws = label
         then s\<lparr>allowed_bash_commands := List.insert cmd (allowed_bash_commands s)\<rparr> else s)"
    by (simp add: persist_bash_always_allow_def assms Let_def)
  show thesis
  proof (cases ?ok)
    case True
    then obtain n where "minimum_always_allow_scope ?ws \<le> n" "n \<le> length ?ws"
      "words_join_unambiguously parse (take n ?ws)" "label = join_with '' '' (take n ?ws)"
      by (auto simp: list_ex_iff)
    with p True show thesis by (intro label) simp_all
  next
    case False
    then have no: "\<And>n. minimum_always_allow_scope ?ws \<le> n \<Longrightarrow> n \<le> length ?ws \<Longrightarrow>
        words_join_unambiguously parse (take n ?ws) \<Longrightarrow> label \<noteq> join_with '' '' (take n ?ws)"
      by (auto simp: list_ex_iff)
    show thesis
    proof (cases "ch_prefix h = [] \<and> ch_suffix h = [] \<and> join_with '' '' ?ws = label")
      case True
      with p False show thesis by (intro raw) simp_all
    next
      case neither: False
      then have "\<not> (ch_prefix h = [] \<and> ch_suffix h = [] \<and> label = join_with '' '' ?ws)" by auto
      moreover have "persist_bash_always_allow parse s cmd label = s"
        by (simp only: p False if_False)
          (use neither in \<open>simp only: if_False\<close>)
      ultimately show thesis using no by (rule refused [rotated 2])
    qed
  qed
qed

section \<open>Properties\<close>

text \<open>
  The rows a prompt offers are exactly the answers that are remembered: for every number of
  words of the primary command, the scope is offered if and only if accepting its label stores a
  key in a fresh state.
\<close>

theorem offered_scopes_are_stored:
  assumes "primary_command_from_script parse cmd = Some h" and "1 \<le> n" and "n \<le> length (highlighted_words h)"
  shows "always_allow_scope_persists parse h n \<longleftrightarrow>
    allowed_bash_commands (persist_bash_always_allow parse state_default cmd
      (join_with '' '' (take n (highlighted_words h)))) \<noteq> []"
proof -
  let ?ws = "highlighted_words h"
  note bounds = minimum_scope_bounds [OF primary_words [OF assms(1)]]
  have offered: "always_allow_scope_persists parse h n \<longleftrightarrow> minimum_always_allow_scope ?ws \<le> n \<and>
      (words_join_unambiguously parse (take n ?ws) \<or> n = length ?ws \<and> ch_prefix h = [] \<and> ch_suffix h = [])"
    using assms(2,3) by (auto simp: always_allow_scope_persists_def Let_def)
  have inj: "m = n" if "join_with '' '' (take n ?ws) = join_with '' '' (take m ?ws)" "1 \<le> m" "m \<le> length ?ws" for m
    using join_take_inj [of n ?ws m] that assms(2,3) by simp
  have empty: "allowed_bash_commands state_default = []" by (simp add: state_default_def)
  from assms(1) show ?thesis
  proof (cases rule: persist_cases [where label = "join_with '' '' (take n ?ws)" and s = state_default])
    case (label m)
    with inj [of m] bounds have "m = n" by simp
    with label offered show ?thesis by (simp add: List.insert_def empty)
  next
    case raw
    with inj [of "length ?ws"] bounds have "n = length ?ws" by simp
    with raw offered bounds show ?thesis by (simp add: List.insert_def empty)
  next
    case refused
    from refused(3) have "\<not> (n = length ?ws \<and> ch_prefix h = [] \<and> ch_suffix h = [])" by auto
    with refused(1) refused(2) [of n] offered assms(3) empty show ?thesis by auto
  qed
qed

lemma sample_primary:
  "primary_command_from_script sample_parser sample_script =
     Some \<lparr>ch_prefix = [], highlighted_words = [''rm'', ''x''], ch_suffix = ['';'', ''ls'']\<rparr>"
  by code_simp

lemma offered_scopes_are_stored_witness:
  "allowed_bash_commands (persist_bash_always_allow sample_parser state_default sample_script ''rm'') = []"
proof -
  have "\<not> always_allow_scope_persists sample_parser
      \<lparr>ch_prefix = [], highlighted_words = [''rm'', ''x''], ch_suffix = ['';'', ''ls'']\<rparr> 1" by code_simp
  with offered_scopes_are_stored [OF sample_primary, of 1] show ?thesis by simp
qed

text \<open>
  An answer never stores more than was shown: whatever the label, at most one key is added and
  every other field is kept; the key is the whole script as typed, and then the label is the
  whole command and nothing else stands in the script, or it is a prefix of the primary
  command that is not below the floor and that parses back to exactly its words. For a command that
  is dangerous or runs other code the floor is the whole command.
\<close>

theorem answers_store_what_was_shown:
  assumes "primary_command_from_script parse cmd = Some h"
  shows "persist_bash_always_allow parse s cmd label = s
   \<or> (ch_prefix h = [] \<and> ch_suffix h = [] \<and> label = join_with '' '' (highlighted_words h)
       \<and> persist_bash_always_allow parse s cmd label =
           s\<lparr>allowed_bash_commands := List.insert cmd (allowed_bash_commands s)\<rparr>)
   \<or> (\<exists>n. (if always_allow_scope_pinned (highlighted_words h) then n = length (highlighted_words h)
            else minimum_always_allow_scope (highlighted_words h) \<le> n \<and> n \<le> length (highlighted_words h))
       \<and> words_join_unambiguously parse (take n (highlighted_words h))
       \<and> label = join_with '' '' (take n (highlighted_words h))
       \<and> persist_bash_always_allow parse s cmd label =
           s\<lparr>allowed_bash_commands := List.insert label (allowed_bash_commands s)\<rparr>)"
  using assms
proof (cases rule: persist_cases [where label = label and s = s])
  case (label n)
  have "if always_allow_scope_pinned (highlighted_words h) then n = length (highlighted_words h)
      else minimum_always_allow_scope (highlighted_words h) \<le> n \<and> n \<le> length (highlighted_words h)"
    using label(1,2) by (cases "always_allow_scope_pinned (highlighted_words h)")
      (simp_all add: minimum_always_allow_scope_def)
  with label(3-5) show ?thesis by blast
next
  case raw
  then show ?thesis by blast
next
  case refused
  then show ?thesis by blast
qed

lemma answers_store_what_was_shown_witness:
  "persist_bash_always_allow sample_parser state_default sample_script ''ls'' = state_default"
proof -
  have "join_with '' '' (take n [''rm'', ''x'']) \<noteq> ''ls''" for n
  proof (cases n)
    case (Suc m)
    then show ?thesis by (cases m) simp_all
  qed simp
  then show ?thesis
    using answers_store_what_was_shown [OF sample_primary, of state_default "''ls''"] by fastforce
qed

text \<open>
  The scope a prompt opens on is within the command and never below the narrowest scope that
  may be offered, so the floor of dangerous commands, of commands that run other code and of \<open>gh\<close>
  holds for the default as well.
\<close>

theorem default_scope_respects_floor:
  assumes "ws \<noteq> []"
  shows "1 \<le> minimum_always_allow_scope ws \<and> minimum_always_allow_scope ws \<le> default_always_allow_scope ws
     \<and> default_always_allow_scope ws \<le> length ws \<and> 1 \<le> default_always_deny_scope ws
     \<and> default_always_deny_scope ws \<le> length ws"
  using assms minimum_scope_bounds [OF assms] base_scope_bounds [OF assms] gh_scope_bounds [of ws]
  by (auto simp: default_always_allow_scope_def minimum_always_allow_scope_def default_always_deny_scope_def
      split: option.split)

lemma default_scope_respects_floor_witness:
  "minimum_always_allow_scope [''git'', ''push''] \<le> default_always_allow_scope [''git'', ''push'']"
  using default_scope_respects_floor [of "[''git'', ''push'']"] by simp

end
