(* ===== verification/File_Operands.thy ===== *)
theory File_Operands
  imports Shell_Invocations Permission_Types Grant_Scope
begin

text \<open>
  \<open>permission/shell_access.rs\<close>, the tables: which programs read, write or create the files named by
  their operands, which operands and flags name files, and how the text of an operand becomes a path
  that rules can be matched against.
\<close>

section \<open>Programs\<close>

definition reader_programs :: "string list" where
  "reader_programs = [''cat'', ''tac'', ''nl'', ''head'', ''tail'', ''grep'', ''egrep'', ''fgrep'', ''rg'', ''sed'',
     ''awk'', ''less'', ''more'', ''bat'', ''strings'', ''xxd'', ''od'', ''hexdump'', ''base64'',
     ''base32'', ''cut'', ''sort'', ''uniq'', ''wc'', ''type'', ''get-content'', ''gc'', ''diff'',
     ''comm'', ''rev'', ''jq'', ''yq'', ''select-string'', ''sls'', ''ag'', ''ack'', ''zcat'',
     ''zless'', ''zmore'', ''zgrep'', ''zegrep'', ''zfgrep'', ''bzcat'', ''bzgrep'', ''xzcat'',
     ''xzgrep'', ''zstdcat'', ''lz4cat'']"

definition writer_programs :: "string list" where
  "writer_programs = [''tee'', ''set-content'', ''out-file'', ''add-content'', ''tee-object'', ''truncate'']"

definition shell_file_mode_of :: "string \<Rightarrow> shell_file_mode option" where
  "shell_file_mode_of program =
     (if program \<in> set reader_programs then Some SF_Read
      else if program \<in> set writer_programs then Some SF_Write
      else None)"

definition shell_sed_in_place :: "string list \<Rightarrow> bool" where
  "shell_sed_in_place ws = list_ex (\<lambda>w. w = ''--in-place'' \<or> prefix ''--in-place='' w
     \<or> (prefix ''-'' w \<and> \<not> prefix ''--'' w \<and> CHR ''i'' \<in> set w)) (drop 1 ws)"

section \<open>Operands\<close>

text \<open>The value of an output flag: attached, glued, or the next word.\<close>

definition nonempty :: "string \<Rightarrow> string option" where
  "nonempty s = (if s = [] then None else Some s)"

fun shell_output_flag_values :: "string list \<Rightarrow> string list" where
  "shell_output_flag_values [] = []"
| "shell_output_flag_values (token # rest) =
     (let next = (case rest of [] \<Rightarrow> None | w # _ \<Rightarrow> Some w);
          value =
            (case strip_prefix ''--output='' token of
               Some v \<Rightarrow> Some v
             | None \<Rightarrow>
                 (case Option.bind (strip_prefix ''-o'' token) nonempty of
                    Some v \<Rightarrow> Some v
                  | None \<Rightarrow> if token = ''--output'' \<or> token = ''-o'' then next else None))
      in (case value of Some v \<Rightarrow> [v] | None \<Rightarrow> []) @ shell_output_flag_values rest)"

fun value_flag_values :: "string \<Rightarrow> string list \<Rightarrow> string list" where
  "value_flag_values flag [] = []"
| "value_flag_values flag (token # rest) =
     (let next = (case rest of [] \<Rightarrow> None | w # _ \<Rightarrow> Some w);
          value =
            (case strip_prefix (flag @ ''='') token of
               Some v \<Rightarrow> Some v
             | None \<Rightarrow>
                 if token = flag then next
                 else if \<not> prefix ''--'' flag then Option.bind (strip_prefix flag token) nonempty
                 else None)
      in (case value of Some v \<Rightarrow> [v] | None \<Rightarrow> []) @ value_flag_values flag rest)"

fun file_candidates :: "bool \<Rightarrow> string list \<Rightarrow> string list" where
  "file_candidates end_of_options [] = []"
| "file_candidates end_of_options (token # rest) =
     (if \<not> end_of_options \<and> token = ''--'' then file_candidates True rest
      else if end_of_options \<or> (token \<noteq> ''-'' \<and> \<not> prefix ''-'' token)
        then token # file_candidates end_of_options rest
      else file_candidates end_of_options rest)"

definition shell_file_candidates :: "string list \<Rightarrow> string list" where
  "shell_file_candidates ws = file_candidates False (drop 1 ws)"

definition dd_operand :: "string \<Rightarrow> (string \<times> shell_file_mode) option" where
  "dd_operand token =
     (case strip_prefix ''if='' token of
        Some p \<Rightarrow> Some (p, SF_Read)
      | None \<Rightarrow> map_option (\<lambda>p. (p, SF_Write)) (strip_prefix ''of='' token))"

definition special_file_operands :: "string \<Rightarrow> string list \<Rightarrow> (string \<times> shell_file_mode) list" where
  "special_file_operands program ws =
     (if program = ''dd'' then List.map_filter dd_operand (drop 1 ws)
      else if program \<in> {''sort'', ''go'', ''git''} then map (\<lambda>p. (p, SF_Write)) (shell_output_flag_values ws)
      else if program = ''rustc'' then
        map (\<lambda>p. (p, SF_Write)) (shell_output_flag_values ws @ value_flag_values ''--out-dir'' ws)
      else if program = ''rustfmt'' then map (\<lambda>p. (p, SF_Write)) (shell_file_candidates ws)
      else [])"

definition shell_path_command_operands :: "string \<Rightarrow> string list \<Rightarrow> (string \<times> shell_file_mode) list option" where
  "shell_path_command_operands program ws =
     (if program \<in> {''cp'', ''mv'', ''ln'', ''install''} then
        (let operands = shell_file_candidates ws
         in if operands = [] then None
            else Some (map (\<lambda>s. (s, SF_Read)) (butlast operands) @ [(last operands, SF_Write)]))
      else if program \<in> {''rm'', ''rmdir''} then Some (map (\<lambda>c. (c, SF_Write)) (shell_file_candidates ws))
      else if is_creation_program program then Some (map (\<lambda>c. (c, SF_Create)) (shell_file_candidates ws))
      else if program = ''uniq'' then
        (case shell_file_candidates ws of
           inp # out # _ \<Rightarrow> Some [(inp, SF_Read), (out, SF_Write)]
         | _ \<Rightarrow> None)
      else None)"

definition is_directory_operand :: "string \<Rightarrow> bool" where
  "is_directory_operand token \<longleftrightarrow> token = ''.'' \<or> token = ''..'' \<or> suffix ''/'' token"

definition shell_reader_can_recurse :: "string \<Rightarrow> string list \<Rightarrow> string list \<Rightarrow> bool" where
  "shell_reader_can_recurse program ws candidates \<longleftrightarrow>
     (program \<in> {''grep'', ''egrep'', ''fgrep''}
        \<and> list_ex (\<lambda>w. w = ''--recursive'' \<or> w = ''--dereference-recursive''
             \<or> (prefix ''-'' w \<and> \<not> prefix ''--'' w \<and> (CHR ''r'' \<in> set w \<or> CHR ''R'' \<in> set w))) ws)
     \<or> (program \<in> {''rg'', ''ag'', ''ack''}
        \<and> (length candidates \<le> 1 \<or> list_ex is_directory_operand (drop 1 candidates)))"

section \<open>What a command writes\<close>

definition writes_of :: "(string \<times> shell_file_mode) list \<Rightarrow> string list" where
  "writes_of ops = map fst (filter (\<lambda>(_, m). m = SF_Write) ops)"

definition command_words_write_paths :: "string list \<Rightarrow> string list" where
  "command_words_write_paths ws =
     (let inner = unwrap_wrappers ws
      in case inner of
           [] \<Rightarrow> []
         | w # _ \<Rightarrow>
             (let program = to_ascii_lowercase (basename w);
                  special = writes_of (special_file_operands program inner)
              in case shell_path_command_operands program inner of
                   Some operands \<Rightarrow> special @ writes_of operands
                 | None \<Rightarrow>
                     special @ (if shell_file_mode_of program = Some SF_Write
                                   \<or> (program = ''sed'' \<and> shell_sed_in_place inner)
                                 then shell_file_candidates inner else [])))"

definition command_words_creation_paths :: "string list \<Rightarrow> string list" where
  "command_words_creation_paths ws =
     (let inner = unwrap_wrappers ws
      in case inner of
           [] \<Rightarrow> []
         | w # _ \<Rightarrow>
             (case shell_path_command_operands (to_ascii_lowercase (basename w)) inner of
                Some operands \<Rightarrow> map fst (filter (\<lambda>(_, m). m = SF_Create) operands)
              | None \<Rightarrow> []))"

record write_paths_split =
  redirect_paths :: "string list"
  unextracted_write_redirect :: bool
  word_paths :: "string list"
  wp_creation_paths :: "string list"

definition command_write_paths_split :: "field_lookup \<Rightarrow> node \<Rightarrow> string \<Rightarrow> write_paths_split" where
  "command_write_paths_split field tr src =
     (let writes = filter (\<lambda>r. rt_mode r = SF_Write) (shell_redirect_targets field tr src);
          calls = map (\<lambda>call. literal_words (si_words call)) (shell_command_invocations tr src)
      in \<lparr>redirect_paths = List.map_filter rt_path writes,
          unextracted_write_redirect = list_ex (\<lambda>r. rt_path r = None) writes,
          word_paths = concat (map command_words_write_paths calls),
          wp_creation_paths = concat (map command_words_creation_paths calls)\<rparr>)"

definition command_write_paths_in_tree :: "field_lookup \<Rightarrow> node \<Rightarrow> string \<Rightarrow> string list" where
  "command_write_paths_in_tree field tr src =
     (let split = command_write_paths_split field tr src in redirect_paths split @ word_paths split)"

definition is_safe_write_sink :: "string \<Rightarrow> bool" where
  "is_safe_write_sink p = (p \<in> {''/dev/null'', ''/dev/stdout'', ''/dev/stderr''})"

section \<open>Paths\<close>

definition drive_prefixed :: "string \<Rightarrow> bool" where
  "drive_prefixed p = (case p of _ # d # _ \<Rightarrow> d = CHR '':'' | _ \<Rightarrow> False)"

definition is_absolute_shell_path :: "string \<Rightarrow> bool" where
  "is_absolute_shell_path p \<longleftrightarrow> prefix ''/'' p \<or> prefix ''~/'' p \<or> drive_prefixed p"

definition normalize_shell_path_raw :: "string \<Rightarrow> string" where
  "normalize_shell_path_raw path =
     (let q = (\<lambda>c. c = dquote \<or> c = squote);
          p = map (\<lambda>c. if c = backslash then CHR ''/'' else c) (rev (dropWhile q (rev (dropWhile q path))))
      in case strip_prefix ''/c/'' p of Some rest \<Rightarrow> ''C:/'' @ rest | None \<Rightarrow> p)"

definition lex_step :: "bool \<Rightarrow> string list \<Rightarrow> string \<Rightarrow> string list" where
  "lex_step absolute out segment =
     (if segment = [] \<or> segment = ''.'' then out
      else if segment = ''..'' then
        (if out \<noteq> [] \<and> last out \<noteq> ''..'' then butlast out
         else if \<not> absolute then out @ [''..'']
         else out)
      else out @ [segment])"

definition lexical_normalize :: "string \<Rightarrow> string" where
  "lexical_normalize path =
     (let prefix_len = (if drive_prefixed path then 2 else 0);
          pre = take prefix_len path;
          rest = drop prefix_len path;
          absolute = prefix ''/'' rest;
          body = join_with ''/'' (foldl (lex_step absolute) [] (split_on (CHR ''/'') rest))
      in pre @ (if absolute then ''/'' else []) @ body)"

definition normalize_shell_path :: "string \<Rightarrow> string" where
  "normalize_shell_path path = lexical_normalize (normalize_shell_path_raw path)"

definition shell_access :: "shell_file_mode \<Rightarrow> string \<Rightarrow> access_kind" where
  "shell_access md path = (if md = SF_Read then Read (Some path) else Edit path)"

end
