(* ===== verification/Shell_Files.thy ===== *)
theory Shell_Files
  imports File_Operands Permission_Policy
begin

text \<open>
  The gate of \<open>permission/shell_access.rs\<close> on the files that a shell command touches: every path that
  a redirection or an operand names is checked against the read and edit rules as the file tools
  would be, at every level of inline scripts, and what cannot be pinned to a path asks.
\<close>

section \<open>One path\<close>

definition escalate_access ::
  "environment \<Rightarrow> shell_parser \<Rightarrow> compiled_policy \<Rightarrow> string option \<Rightarrow> access_kind \<Rightarrow> gate_decision option" where
  "escalate_access env parse p rule_cwd access =
     (case evaluate_lexical_with_cwd env parse p access rule_cwd of
        Some (Reject why) \<Rightarrow> Some (GD_Reject why)
      | Some Ask \<Rightarrow> Some AskRuleMatch
      | _ \<Rightarrow> None)"

definition evaluate_shell_path ::
  "environment \<Rightarrow> shell_parser \<Rightarrow> compiled_policy \<Rightarrow> string \<Rightarrow> string \<Rightarrow> shell_file_mode \<Rightarrow> bool
    \<Rightarrow> gate_decision option" where
  "evaluate_shell_path env parse p token cwd md cwd_unpinned =
     (let path = normalize_shell_path token;
          is_abs = is_absolute_shell_path path;
          rule_cwd = (if is_abs \<or> \<not> cwd_unpinned then Some cwd else None);
          esc = escalate_access env parse p rule_cwd;
          absolute = (if is_abs then path else normalize_shell_path (path_join cwd path));
          raw = normalize_shell_path_raw token;
          raw_absolute =
            (if is_absolute_shell_path raw then Some raw
             else if cwd_unpinned then None
             else Some (normalize_shell_path_raw (path_join cwd raw)));
          resolved_decision =
            (case raw_absolute of
               None \<Rightarrow> None
             | Some r \<Rightarrow>
                 (case follow_absolute_symlink (files env) r absolute of
                    Target resolved \<Rightarrow> esc (shell_access md resolved)
                  | Unresolvable \<Rightarrow> Some AskFailClosed
                  | No_Follow \<Rightarrow> None));
          path_decision = esc (shell_access md path);
          anchored_decision =
            (if cwd_unpinned \<and> \<not> is_abs then None
             else combine_gate_decisions (esc (shell_access md absolute)) resolved_decision)
      in combine_gate_decisions
           (combine_gate_decisions path_decision anchored_decision)
           (ask_if (cwd_unpinned \<and> \<not> is_abs)))"

section \<open>The loops of one script\<close>

record file_scan =
  fs_decision :: "gate_decision option"
  forced_ask :: bool

definition force_if :: "bool \<Rightarrow> file_scan \<Rightarrow> file_scan" where
  "force_if b s = s\<lparr>forced_ask := (forced_ask s \<or> b)\<rparr>"

definition weigh :: "gate_decision option \<Rightarrow> file_scan \<Rightarrow> file_scan" where
  "weigh d s = s\<lparr>fs_decision := combine_gate_decisions (fs_decision s) d\<rparr>"

text \<open>A redirection: \<open>check\<close> is \<open>evaluate_shell_path\<close> with the policy and the directory filled in.\<close>

type_synonym path_check = "string \<Rightarrow> shell_file_mode \<Rightarrow> bool \<Rightarrow> gate_decision option"

definition redirect_step :: "path_check \<Rightarrow> cwd_poison list \<Rightarrow> bool \<Rightarrow> file_scan \<Rightarrow> shell_redirect_target \<Rightarrow> file_scan" where
  "redirect_step check_path cwd_changes cwd_unpinned s r =
     (let s = force_if (rt_ambiguous r) s
      in case rt_path r of
           None \<Rightarrow> s
         | Some path \<Rightarrow>
             weigh (check_path path (rt_mode r)
               (cwd_unpinned \<or> cwd_unpinned_before cwd_changes (rt_start r) (rt_scope r))) s)"

definition operand_step :: "path_check \<Rightarrow> bool \<Rightarrow> file_scan \<Rightarrow> string \<times> shell_file_mode \<Rightarrow> file_scan" where
  "operand_step check_path unpinned s op =
     weigh (check_path (fst op) (snd op) unpinned) (force_if (shell_arg_is_ambiguous (fst op)) s)"

definition operand_modes :: "string \<Rightarrow> string list \<Rightarrow> shell_file_mode list" where
  "operand_modes program ws =
     (case shell_file_mode_of program of
        None \<Rightarrow> []
      | Some md \<Rightarrow> if program = ''sed'' \<and> shell_sed_in_place ws then [SF_Read, SF_Write] else [md])"

text \<open>The operands of a command whose head is the program \<open>program\<close>, in the order they are checked.\<close>

definition file_operands :: "string \<Rightarrow> string list \<Rightarrow> (string \<times> shell_file_mode) list" where
  "file_operands program ws =
     special_file_operands program ws @
     (if program = ''dd'' then []
      else (case shell_path_command_operands program ws of
              Some operands \<Rightarrow> operands
            | None \<Rightarrow> concat (map (\<lambda>token. map (Pair token) (operand_modes program ws)) (shell_file_candidates ws))))"

definition program_step :: "path_check \<Rightarrow> bool \<Rightarrow> bool \<Rightarrow> string \<Rightarrow> string list \<Rightarrow> file_scan \<Rightarrow> file_scan" where
  "program_step check_path unpinned doubtful program ws s =
     (if program \<in> {''cd'', ''pushd'', ''popd''} then s
      else
        (let path_operands = shell_path_command_operands program ws;
             is_known = (program = ''dd'' \<or> shell_file_mode_of program \<noteq> None \<or> path_operands \<noteq> None);
             s = force_if (is_known \<and> (unpinned \<or> doubtful)) s;
             s = foldl (operand_step check_path unpinned) s (file_operands program ws)
         in if program = ''dd'' \<or> path_operands \<noteq> None \<or> shell_file_mode_of program = None then s
            else force_if (shell_reader_can_recurse program ws (shell_file_candidates ws)) s))"

definition norm_doubtful :: "command_peel \<Rightarrow> bool" where
  "norm_doubtful pl \<longleftrightarrow> exhausted pl \<or> has_split_string pl \<or> env_options_uncertain pl \<or> ambiguous pl"

definition invocation_unpinned :: "cwd_poison list \<Rightarrow> bool \<Rightarrow> shell_invocation \<Rightarrow> bool" where
  "invocation_unpinned cwd_changes cwd_unpinned call \<longleftrightarrow>
     cwd_unpinned \<or> cwd_unpinned_before cwd_changes (si_start call) (si_scope call)
     \<or> has_chdir (ip_norm (unwrap_invocation_checked call))"

text \<open>
  One invocation. \<open>inner\<close> is the gate on the script of a \<open>-c\<close>, missing when its depth is used up; its
  argument is whether the directory is unknown there.
\<close>

definition invocation_step ::
  "path_check \<Rightarrow> (string \<Rightarrow> bool \<Rightarrow> gate_decision option) option \<Rightarrow> cwd_poison list \<Rightarrow> bool \<Rightarrow> bool
    \<Rightarrow> file_scan \<Rightarrow> shell_invocation \<Rightarrow> file_scan" where
  "invocation_step check_path inner cwd_changes cwd_unpinned parse_failed s call =
     (let peeled = unwrap_invocation_checked call;
          ws = ip_words peeled;
          unpinned = invocation_unpinned cwd_changes cwd_unpinned call;
          s = force_if (norm_doubtful (ip_norm peeled)) s;
          inline = shell_dash_c_script ws;
          s = force_if (parse_failed \<and> inline \<noteq> NotInline) s;
          s = (case inline of
                 Literal_Script i \<Rightarrow>
                   (case inner of
                      None \<Rightarrow> force_if True s
                    | Some gate \<Rightarrow>
                        (case ws ! i of Literal script \<Rightarrow> weigh (gate script unpinned) s | Untrusted_Word \<Rightarrow> s))
               | NotInline \<Rightarrow> s
               | _ \<Rightarrow> force_if True s)
      in case ws of
           Literal program # _ \<Rightarrow>
             program_step check_path unpinned (Untrusted_Word \<in> set ws \<or> parse_failed)
               (to_ascii_lowercase (basename program)) (literal_words ws) s
         | _ \<Rightarrow> s)"

definition file_gate_script ::
  "path_check \<Rightarrow> field_lookup \<Rightarrow> shell_parser \<Rightarrow> (string \<Rightarrow> bool \<Rightarrow> gate_decision option) option
    \<Rightarrow> bool \<Rightarrow> string \<Rightarrow> bool \<Rightarrow> gate_decision option" where
  "file_gate_script check_path field parse inner entered_inline cmd cwd_unpinned =
     (case parse cmd of
        None \<Rightarrow> ask_if entered_inline
      | Some t \<Rightarrow>
          (let tr = root_node t;
               parse_failed = has_error t;
               s = \<lparr>fs_decision = None, forced_ask = (entered_inline \<and> parse_failed)\<rparr>;
               cwd_changes = cwd_poison_positions field tr cmd;
               s = foldl (redirect_step check_path cwd_changes cwd_unpinned) s (shell_redirect_targets field tr cmd);
               s = foldl (invocation_step check_path inner cwd_changes cwd_unpinned parse_failed) s
                     (shell_command_invocations tr cmd)
           in combine_gate_decisions (fs_decision s) (ask_if (forced_ask s))))"

fun evaluate_shell_file_access_inner ::
  "path_check \<Rightarrow> field_lookup \<Rightarrow> shell_parser \<Rightarrow> nat \<Rightarrow> bool \<Rightarrow> string \<Rightarrow> bool \<Rightarrow> gate_decision option" where
  "evaluate_shell_file_access_inner check_path field parse 0 entered cmd unpinned =
     file_gate_script check_path field parse None entered cmd unpinned"
| "evaluate_shell_file_access_inner check_path field parse (Suc n) entered cmd unpinned =
     file_gate_script check_path field parse
       (Some (evaluate_shell_file_access_inner check_path field parse n True)) entered cmd unpinned"

definition evaluate_shell_file_access_gate ::
  "environment \<Rightarrow> field_lookup \<Rightarrow> shell_parser \<Rightarrow> compiled_policy \<Rightarrow> string \<Rightarrow> string \<Rightarrow> gate_decision option" where
  "evaluate_shell_file_access_gate env field parse p cmd cwd =
     (if \<not> has_file_restrictions p then None
      else evaluate_shell_file_access_inner (\<lambda>token. evaluate_shell_path env parse p token cwd)
             field parse MAX_INLINE_SHELL_DEPTH False cmd False)"

definition evaluate_shell_file_access ::
  "environment \<Rightarrow> field_lookup \<Rightarrow> shell_parser \<Rightarrow> compiled_policy \<Rightarrow> string \<Rightarrow> string \<Rightarrow> decision option" where
  "evaluate_shell_file_access env field parse p cmd cwd =
     map_option into_decision (evaluate_shell_file_access_gate env field parse p cmd cwd)"

end
