(* ===== verification/Gate_Preflight.thy ===== *)
theory Gate_Preflight
  imports Policy_Props Shell_Files
begin

text \<open>
  \<open>permission/gate_preflight.rs\<close>: the policy's verdicts on one request, computed once, and what the
  manager reads off them: the direct rules, the gate on the commands of a script and the gate on the
  files that a script touches.
\<close>

section \<open>The preflight of a request\<close>

record gate_preflight =
  direct :: "decision option"
  bash_command :: "gate_decision option"
  shell_file :: "gate_decision option"
  native_symlink_fail_closed :: bool
  gp_defers :: bool

definition preflight_evaluate ::
  "environment \<Rightarrow> shell_parser \<Rightarrow> field_lookup
    \<Rightarrow> compiled_policy option \<Rightarrow> access_kind \<Rightarrow> string \<Rightarrow> bool \<Rightarrow> gate_preflight" where
  "preflight_evaluate env parse field policy access cwd auto_mode =
     (let (dir, fail_closed) =
            (case policy of
               Some p \<Rightarrow> evaluate_with_cwd_details env parse p access (Some cwd)
             | None \<Rightarrow> (None, False));
          (bash, shell) =
            (case (policy, access) of
               (Some p, Bash cmd) \<Rightarrow> (evaluate_bash_command_gate env parse p cmd, evaluate_shell_file_access_gate env field parse p cmd cwd)
             | _ \<Rightarrow> (None, None));
          rule_match_ask = (dir = Some Ask \<or> bash = Some AskRuleMatch \<or> shell = Some AskRuleMatch);
          fail_closed_ask = (bash = Some AskFailClosed \<or> shell = Some AskFailClosed)
      in \<lparr>direct = dir, bash_command = bash, shell_file = shell,
          native_symlink_fail_closed = fail_closed,
          gp_defers = (auto_mode \<and> fail_closed_ask \<and> \<not> rule_match_ask)\<rparr>)"

definition policy_decision :: "gate_preflight \<Rightarrow> decision option" where
  "policy_decision g =
     combine_decisions
       (combine_decisions (direct g) (map_option into_decision (bash_command g)))
       (map_option into_decision (shell_file g))"

definition policy_forced_prompt :: "gate_preflight \<Rightarrow> bool" where
  "policy_forced_prompt g = (policy_decision g = Some Ask)"

definition shell_file_forced_prompt :: "gate_preflight \<Rightarrow> bool" where
  "shell_file_forced_prompt g = (case shell_file g of Some d \<Rightarrow> is_ask d | None \<Rightarrow> False)"

definition bash_is_ask :: "gate_preflight \<Rightarrow> bool" where
  "bash_is_ask g = (case bash_command g of Some d \<Rightarrow> is_ask d | None \<Rightarrow> False)"

definition shell_forced_prompt :: "gate_preflight \<Rightarrow> bool" where
  "shell_forced_prompt g = (bash_is_ask g \<or> shell_file_forced_prompt g \<or> native_symlink_fail_closed g)"

definition defers_gate_ask :: "gate_preflight \<Rightarrow> bool" where
  "defers_gate_ask g = gp_defers g"

definition admits_auto_classifier :: "gate_preflight \<Rightarrow> bool" where
  "admits_auto_classifier g = (\<not> policy_forced_prompt g \<or> defers_gate_ask g)"

definition POLICY_ASK :: string where "POLICY_ASK = ''policy_ask''"
definition BASH_COMMAND_GATE_ASK :: string where "BASH_COMMAND_GATE_ASK = ''bash_command_gate_ask''"
definition SHELL_FILE_GATE_ASK :: string where "SHELL_FILE_GATE_ASK = ''shell_file_gate_ask''"

definition prompt_trigger :: "gate_preflight \<Rightarrow> string option \<Rightarrow> string option" where
  "prompt_trigger g auto_prompt_reason =
     (if direct g = Some Ask then Some POLICY_ASK
      else if defers_gate_ask g then auto_prompt_reason
      else if bash_is_ask g then Some BASH_COMMAND_GATE_ASK
      else if shell_file_forced_prompt g then Some SHELL_FILE_GATE_ASK
      else auto_prompt_reason)"

section \<open>What is combined\<close>

definition gate_asks :: "gate_preflight \<Rightarrow> bool" where
  "gate_asks g \<longleftrightarrow> direct g = Some Ask \<or> bash_is_ask g \<or> shell_file_forced_prompt g"

lemma policy_decision_height:
  "height decision_rank (policy_decision g) =
     max (max (height decision_rank (direct g)) (height decision_rank (map_option into_decision (bash_command g))))
         (height decision_rank (map_option into_decision (shell_file g)))"
  by (simp add: policy_decision_def decisions.height_combine)

lemma policy_decision_one_of:
  "policy_decision g = direct g \<or> policy_decision g = map_option into_decision (bash_command g)
   \<or> policy_decision g = map_option into_decision (shell_file g)"
  using decisions.one_of unfolding policy_decision_def by metis

lemma into_decision_Ask: "map_option into_decision v = Some Ask \<longleftrightarrow> (case v of Some d \<Rightarrow> is_ask d | None \<Rightarrow> False)"
proof (cases v)
  case (Some d)
  then show ?thesis by (cases d) simp_all
qed simp

lemma forced_prompt_asks: "policy_forced_prompt g \<Longrightarrow> gate_asks g"
  using policy_decision_one_of [of g] into_decision_Ask [of "bash_command g"] into_decision_Ask [of "shell_file g"]
  unfolding policy_forced_prompt_def gate_asks_def bash_is_ask_def shell_file_forced_prompt_def by metis

lemma defers_iff:
  "defers_gate_ask (preflight_evaluate env parse field policy access cwd auto_mode) \<longleftrightarrow>
     (let g = preflight_evaluate env parse field policy access cwd auto_mode
      in auto_mode \<and> (bash_command g = Some AskFailClosed \<or> shell_file g = Some AskFailClosed)
         \<and> direct g \<noteq> Some Ask \<and> bash_command g \<noteq> Some AskRuleMatch \<and> shell_file g \<noteq> Some AskRuleMatch)"
  by (auto simp: preflight_evaluate_def defers_gate_ask_def Let_def split: prod.split)

section \<open>Properties\<close>

text \<open>
  C29: an ask that a rule demanded is never handed to the auto classifier. If the policy's verdict
  on a request is an ask and the classifier may nevertheless run, then the mode is auto, some gate
  asked only because its analysis failed closed, and neither the direct rules nor a gate matched an
  ask rule; when the prompt is not deferred its trigger is the label of the part that asked.
\<close>

theorem rule_match_ask_is_binding:
  assumes "g = preflight_evaluate env parse field policy access cwd auto_mode"
    and "policy_forced_prompt g"
  shows "(admits_auto_classifier g \<longrightarrow> auto_mode
       \<and> (bash_command g = Some AskFailClosed \<or> shell_file g = Some AskFailClosed)
       \<and> direct g \<noteq> Some Ask \<and> bash_command g \<noteq> Some AskRuleMatch \<and> shell_file g \<noteq> Some AskRuleMatch)
   \<and> (\<not> admits_auto_classifier g \<longrightarrow>
       prompt_trigger g why = Some (if direct g = Some Ask then POLICY_ASK
         else if bash_is_ask g then BASH_COMMAND_GATE_ASK else SHELL_FILE_GATE_ASK))"
proof -
  have "admits_auto_classifier g \<longleftrightarrow> defers_gate_ask g"
    using assms(2) by (simp add: admits_auto_classifier_def)
  moreover have "gate_asks g" using assms(2) by (rule forced_prompt_asks)
  ultimately show ?thesis
    using defers_iff [of env parse field policy access cwd auto_mode] unfolding assms(1) [symmetric]
    by (auto simp: gate_asks_def prompt_trigger_def Let_def)
qed

lemma rule_match_ask_is_binding_witness:
  "let g = preflight_evaluate sample_env (\<lambda>_. None) (\<lambda>_ _. None) (Some (policy_new sample_env (config_new [deny_rm])))
       (Bash ''ls'') ''/w'' True
   in admits_auto_classifier g \<and> bash_command g = Some AskFailClosed \<and> direct g \<noteq> Some Ask"
proof -
  let ?g = "preflight_evaluate sample_env (\<lambda>_. None) (\<lambda>_ _. None) (Some (policy_new sample_env (config_new [deny_rm])))
       (Bash ''ls'') ''/w'' True"
  have "policy_forced_prompt ?g" and auto: "admits_auto_classifier ?g" and shell: "shell_file ?g = None" by code_simp+
  from rule_match_ask_is_binding [OF refl this(1)] auto show ?thesis by (simp add: Let_def shell)
qed

end
