(* ===== verification/Web_Domains.thy ===== *)
theory Web_Domains
  imports Rule_Matching Grant_Scope
begin

text \<open>
  Which web hosts may be fetched: the allow list \<open>DomainMatcher\<close> of
  \<open>xai-grok-tools/.../web_fetch/domain.rs\<close> with its precomputed table, and the remembered denials of
  \<open>permission/manager/mod.rs\<close>.
\<close>

section \<open>The allow list\<close>

datatype host_entry = AnyPath | PathPrefixes "string list"

type_synonym domain_matcher = "string \<rightharpoonup> host_entry"

definition insert_entry :: "environment \<Rightarrow> string \<Rightarrow> domain_matcher \<Rightarrow> domain_matcher" where
  "insert_entry env raw entries =
     (let normalized = normalize_domain env raw
      in if normalized = [] then entries
         else
           (let host = takeWhile (\<lambda>c. c \<noteq> slash) normalized;
                raw_path = dropWhile (\<lambda>c. c \<noteq> slash) normalized
            in if raw_path = [] then entries(host \<mapsto> AnyPath)
               else if entries host = Some AnyPath then entries
               else
                 (let pre = trim_end_char slash raw_path
                  in if pre = [] \<or> pre = [slash] then entries(host \<mapsto> AnyPath)
                     else
                       (let pre = (if prefix [slash] pre then pre else slash # pre)
                        in case entries host of
                             Some (PathPrefixes v) \<Rightarrow>
                               entries(host \<mapsto> PathPrefixes (if pre \<in> set v then v else v @ [pre]))
                           | Some AnyPath \<Rightarrow> entries
                           | None \<Rightarrow> entries(host \<mapsto> PathPrefixes [pre])))))"

definition matcher_new :: "environment \<Rightarrow> string list \<Rightarrow> domain_matcher" where
  "matcher_new env raw_entries = fold (insert_entry env) raw_entries (\<lambda>_. None)"

definition path_admitted :: "string \<Rightarrow> string \<Rightarrow> bool" where
  "path_admitted pth pre \<longleftrightarrow>
     pth = pre \<or> (prefix pre pth \<and> length pre < length pth \<and> pth ! length pre = slash)"

text \<open>\<open>None\<close> permits; otherwise the blocked host is reported.\<close>

definition matcher_check :: "environment \<Rightarrow> domain_matcher \<Rightarrow> url \<Rightarrow> string option" where
  "matcher_check env entries u =
     (case host_str u of
        None \<Rightarrow> Some []
      | Some raw_host \<Rightarrow>
          (let host = normalize_domain env raw_host
           in case entries host of
                Some AnyPath \<Rightarrow> None
              | Some (PathPrefixes allowed) \<Rightarrow>
                  if list_ex (path_admitted (to_lowercase env (url_path u))) allowed then None else Some host
              | None \<Rightarrow> Some host))"

definition domain_from_url :: "environment \<Rightarrow> string \<Rightarrow> string option" where
  "domain_from_url env raw_url =
     (case url_parse env raw_url of
        None \<Rightarrow> None
      | Some u \<Rightarrow> map_option (normalize_domain env) (host_str u))"

section \<open>Remembered denials\<close>

definition web_fetch_deny_key :: "environment \<Rightarrow> string \<Rightarrow> string" where
  "web_fetch_deny_key env host = to_lowercase env (trim_end_char (CHR ''.'') (trim host))"

definition web_fetch_deny_key_from_url :: "environment \<Rightarrow> string \<Rightarrow> string option" where
  "web_fetch_deny_key_from_url env u =
     (case Option.bind (url_parse env u) host_str of
        None \<Rightarrow> None
      | Some host \<Rightarrow> (let key = web_fetch_deny_key env host in if key \<noteq> [] then Some key else None))"

definition denies_domain :: "string \<Rightarrow> string \<Rightarrow> bool" where
  "denies_domain domain denied \<longleftrightarrow> denied \<noteq> [] \<and>
     (domain = denied \<or>
      (length denied + 1 < length domain \<and> suffix denied domain
       \<and> domain ! (length domain - length denied - 1) = CHR ''.''))"

definition denied_web_fetch_domain :: "environment \<Rightarrow> string \<Rightarrow> string list \<Rightarrow> string option" where
  "denied_web_fetch_domain env host disallowed =
     (if disallowed = [] then None
      else (let domain = web_fetch_deny_key env host in find (denies_domain domain) disallowed))"

definition rejected_text :: "string \<Rightarrow> string" where
  "rejected_text d = ''User previously rejected '' @ [CHR 0x60] @ d @ [CHR 0x60] @ '' in this project''"

definition web_fetch_deny_pre_decision :: "environment \<Rightarrow> url \<Rightarrow> permission_state \<Rightarrow> decision option" where
  "web_fetch_deny_pre_decision env u s =
     (case host_str u of
        None \<Rightarrow> None
      | Some host \<Rightarrow>
          map_option (\<lambda>denied. Reject (rejected_text denied))
            (denied_web_fetch_domain env host (disallowed_web_fetch_domains s)))"

section \<open>What one entry admits\<close>

definition entry_admits :: "environment \<Rightarrow> string \<Rightarrow> string \<Rightarrow> string \<Rightarrow> bool" where
  "entry_admits env host pth raw \<longleftrightarrow>
     (let n = normalize_domain env raw; rest = dropWhile (\<lambda>c. c \<noteq> slash) n; pre = trim_end_char slash rest
      in n \<noteq> [] \<and> takeWhile (\<lambda>c. c \<noteq> slash) n = host \<and> (pre = [] \<or> path_admitted pth pre))"

definition table_admits :: "domain_matcher \<Rightarrow> string \<Rightarrow> string \<Rightarrow> bool" where
  "table_admits entries host pth \<longleftrightarrow>
     (case entries host of None \<Rightarrow> False | Some AnyPath \<Rightarrow> True
      | Some (PathPrefixes v) \<Rightarrow> list_ex (path_admitted pth) v)"

lemma trim_end_char_tail:
  assumes "dropWhile (\<lambda>c. c \<noteq> slash) n \<noteq> []"
  shows "trim_end_char slash (dropWhile (\<lambda>c. c \<noteq> slash) n) \<noteq> [slash]"
    and "trim_end_char slash (dropWhile (\<lambda>c. c \<noteq> slash) n) = []
       \<or> prefix [slash] (trim_end_char slash (dropWhile (\<lambda>c. c \<noteq> slash) n))"
proof -
  let ?t = "dropWhile (\<lambda>c. c \<noteq> slash) n"
  let ?r = "dropWhile (\<lambda>d. d = slash) (rev ?t)"
  have "?r \<noteq> [slash]"
  proof
    assume r: "?r = [slash]"
    with hd_dropWhile [of "\<lambda>d. d = slash" "rev ?t"] show False by simp
  qed
  then show "trim_end_char slash ?t \<noteq> [slash]"
    unfolding trim_end_char_def rev_singleton_conv .
  obtain rest where t: "?t = slash # rest"
    using assms hd_dropWhile [of "\<lambda>c. c \<noteq> slash" n] by (cases ?t) auto
  have "suffix ?r (rev ?t)" by (rule suffix_dropWhile)
  then have "prefix (rev ?r) ?t" by (simp add: suffix_to_prefix)
  then show "trim_end_char slash ?t = [] \<or> prefix [slash] (trim_end_char slash ?t)"
    by (cases "rev ?r") (auto simp: trim_end_char_def t)
qed

definition entry_value_admits :: "host_entry \<Rightarrow> string \<Rightarrow> bool" where
  "entry_value_admits e pth = (case e of AnyPath \<Rightarrow> True | PathPrefixes v \<Rightarrow> list_ex (path_admitted pth) v)"

lemma table_admits_iff: "table_admits m host pth \<longleftrightarrow> (\<exists>e. m host = Some e \<and> entry_value_admits e pth)"
  by (auto simp: table_admits_def entry_value_admits_def split: option.split host_entry.split)

lemma table_admits_upd:
  "table_admits (m(h \<mapsto> e)) host pth \<longleftrightarrow> (if host = h then entry_value_admits e pth else table_admits m host pth)"
  by (simp add: table_admits_iff)

lemma insert_entry_cases:
  assumes "normalize_domain env raw = n" and "n \<noteq> []"
    and "h = takeWhile (\<lambda>c. c \<noteq> slash) n" and "pre = trim_end_char slash (dropWhile (\<lambda>c. c \<noteq> slash) n)"
  shows "pre = [] \<Longrightarrow> insert_entry env raw m = m(h \<mapsto> AnyPath) \<or> (insert_entry env raw m = m \<and> m h = Some AnyPath)"
    and "pre \<noteq> [] \<Longrightarrow> insert_entry env raw m =
      (case m h of
         None \<Rightarrow> m(h \<mapsto> PathPrefixes [pre])
       | Some AnyPath \<Rightarrow> m
       | Some (PathPrefixes v) \<Rightarrow> m(h \<mapsto> PathPrefixes (if pre \<in> set v then v else v @ [pre])))"
proof -
  let ?t = "dropWhile (\<lambda>c. c \<noteq> slash) n"
  show "insert_entry env raw m = m(h \<mapsto> AnyPath) \<or> (insert_entry env raw m = m \<and> m h = Some AnyPath)" if "pre = []"
    using that assms by (simp add: insert_entry_def Let_def)
  assume pre: "pre \<noteq> []"
  have t: "?t \<noteq> []"
  proof
    assume "?t = []"
    with pre assms(4) show False by (simp add: trim_end_char_def)
  qed
  from trim_end_char_tail [OF t] pre assms(4) have "pre \<noteq> [slash]" "prefix [slash] pre" by simp_all
  with pre t assms show "insert_entry env raw m =
      (case m h of
         None \<Rightarrow> m(h \<mapsto> PathPrefixes [pre])
       | Some AnyPath \<Rightarrow> m
       | Some (PathPrefixes v) \<Rightarrow> m(h \<mapsto> PathPrefixes (if pre \<in> set v then v else v @ [pre])))"
    by (simp add: insert_entry_def Let_def del: dropWhile_eq_Nil_conv split: option.split host_entry.split)
qed

lemma insert_entry_admits:
  "table_admits (insert_entry env raw m) host pth \<longleftrightarrow> table_admits m host pth \<or> entry_admits env host pth raw"
proof (cases "normalize_domain env raw = []")
  case True
  then show ?thesis by (simp add: insert_entry_def entry_admits_def)
next
  case False
  obtain h pre where h: "h = takeWhile (\<lambda>c. c \<noteq> slash) (normalize_domain env raw)"
    and pre: "pre = trim_end_char slash (dropWhile (\<lambda>c. c \<noteq> slash) (normalize_domain env raw))" by blast
  have entry: "entry_admits env host pth raw \<longleftrightarrow> h = host \<and> (pre = [] \<or> path_admitted pth pre)"
    using False by (simp add: entry_admits_def Let_def h pre)
  note ins = insert_entry_cases [OF refl False h pre, of m]
  show ?thesis
  proof (cases "pre = []")
    case True
    with ins(1) entry show ?thesis
      by (auto simp: table_admits_upd) (auto simp: table_admits_iff entry_value_admits_def)
  next
    case pre: False
    show ?thesis
    proof (cases "m h")
      case None
      then have "\<not> table_admits m h pth" by (simp add: table_admits_iff)
      with None pre ins(2) entry show ?thesis
        by (auto simp: table_admits_upd entry_value_admits_def)
    next
      case (Some e)
      then have "table_admits m h pth = entry_value_admits e pth" by (simp add: table_admits_iff)
      with Some pre ins(2) entry show ?thesis
        by (cases e) (auto simp: table_admits_upd entry_value_admits_def list_ex_iff)
    qed
  qed
qed

lemma matcher_new_admits:
  "table_admits (matcher_new env raws) host pth \<longleftrightarrow> list_ex (entry_admits env host pth) raws"
proof -
  have "table_admits (fold (insert_entry env) raws m) host pth
      \<longleftrightarrow> table_admits m host pth \<or> list_ex (entry_admits env host pth) raws" for m
    by (induction raws arbitrary: m) (auto simp: insert_entry_admits)
  then show ?thesis by (simp add: matcher_new_def table_admits_def)
qed

section \<open>Properties\<close>

text \<open>
  C35: the precomputed table decides as the entries of the allow list do one by one: a URL is
  permitted exactly when it has a host and some entry names that host, after the common
  normalization, and either has no path or has a path that is the URL's path or a parent of it.
  The order of the entries and their repetition make no difference.
\<close>

theorem table_is_union_of_entries:
  "matcher_check env (matcher_new env raws) u = None \<longleftrightarrow>
     (case host_str u of
        None \<Rightarrow> False
      | Some host \<Rightarrow> list_ex (entry_admits env (normalize_domain env host) (to_lowercase env (url_path u))) raws)"
proof (cases "host_str u")
  case (Some host)
  have "matcher_check env m u = None \<longleftrightarrow> table_admits m (normalize_domain env host) (to_lowercase env (url_path u))" for m
    by (auto simp: matcher_check_def table_admits_def Some Let_def split: option.split host_entry.split)
  with Some show ?thesis by (simp add: matcher_new_admits)
qed (simp add: matcher_check_def)

end
