(* ===== verification/Env_Risk.thy ===== *)
theory Env_Risk
  imports Exec_Risk Shell_Tree
begin

text \<open>
  The part of \<open>permission/auto_mode/mod.rs\<close> that judges the environment variables a script sets, by
  inline assignments and by \<open>env\<close>, behind any wrapper.
\<close>

section \<open>Risks\<close>

datatype env_risk = Env_Safe | Env_Unvetted | Env_Injection

text \<open>The order that the source derives: by the position of the constructor.\<close>

fun risk_rank :: "env_risk \<Rightarrow> nat" where
  "risk_rank Env_Safe = 0"
| "risk_rank Env_Unvetted = 1"
| "risk_rank Env_Injection = 2"

lemma risk_rank_inject: "risk_rank a = risk_rank b \<longleftrightarrow> a = b"
  by (cases a; cases b) simp_all

instantiation env_risk :: linorder
begin

definition less_eq_env_risk :: "env_risk \<Rightarrow> env_risk \<Rightarrow> bool" where
  "less_eq_env_risk a b \<longleftrightarrow> risk_rank a \<le> risk_rank b"

definition less_env_risk :: "env_risk \<Rightarrow> env_risk \<Rightarrow> bool" where
  "less_env_risk a b \<longleftrightarrow> risk_rank a < risk_rank b"

instance
  by standard (auto simp: less_eq_env_risk_def less_env_risk_def risk_rank_inject)

end

lemma safe_is_least [simp]: "Env_Safe \<le> r" "max Env_Safe r = r" "max r Env_Safe = r"
  by (simp_all add: max_def less_eq_env_risk_def) (cases r; simp)+

lemma max_safe: "max a b = Env_Safe \<longleftrightarrow> a = Env_Safe \<and> b = Env_Safe" for a b :: env_risk
  by (cases a; cases b) (simp_all add: max_def less_eq_env_risk_def)

section \<open>Keys\<close>

definition SAFE_ENV_KEYS :: "string list" where
  "SAFE_ENV_KEYS = [''CARGO_TERM_COLOR'', ''CARGO_TERM_PROGRESS_WHEN'', ''RUST_LOG'', ''RUST_LOG_STYLE'',
     ''RUST_BACKTRACE'', ''RUST_TEST_THREADS'', ''RUST_MIN_STACK'', ''NO_COLOR'', ''CLICOLOR'',
     ''CLICOLOR_FORCE'', ''FORCE_COLOR'', ''COLORTERM'']"

definition INJECTION_ENV_KEYS :: "string list" where
  "INJECTION_ENV_KEYS = [''LD_PRELOAD'', ''LD_AUDIT'', ''BASH_ENV'', ''ENV'', ''IFS'', ''PATH'',
     ''GIT_EXTERNAL_DIFF'', ''GIT_PROXY_COMMAND'', ''PROMPT_COMMAND'']"

definition INJECTION_ENV_KEY_PREFIXES :: "string list" where
  "INJECTION_ENV_KEY_PREFIXES = [''DYLD_'', ''GIT_CONFIG'']"

definition is_safe_env_key :: "string \<Rightarrow> bool" where
  "is_safe_env_key key \<longleftrightarrow> key \<in> set SAFE_ENV_KEYS"

definition env_key_risk :: "string \<Rightarrow> env_risk" where
  "env_key_risk key =
     (if is_safe_env_key key then Env_Safe
      else if key \<in> set INJECTION_ENV_KEYS \<or> list_ex (\<lambda>p. prefix p key) INJECTION_ENV_KEY_PREFIXES
        then Env_Injection
      else Env_Unvetted)"

section \<open>Commands\<close>

text \<open>The arguments of one \<open>env\<close>; \<open>None\<close> is the early return on an option.\<close>

fun env_args_risk :: "bool \<Rightarrow> string list \<Rightarrow> env_risk \<Rightarrow> env_risk option" where
  "env_args_risk options_done [] r = Some r"
| "env_args_risk options_done (arg # args) r =
     (if arg = ''--'' then env_args_risk True args r
      else if \<not> options_done \<and> prefix ''-'' arg then None
      else if CHR ''='' \<in> set arg then env_args_risk options_done args (max r (env_key_risk (flag_name arg)))
      else Some r)"

fun env_risk_loop :: "nat \<Rightarrow> string list \<Rightarrow> env_risk \<Rightarrow> env_risk" where
  "env_risk_loop 0 current r = r"
| "env_risk_loop (Suc n) current r =
     (case (case current of
              w # args \<Rightarrow> if basename w = ''env'' then env_args_risk False args r else Some r
            | [] \<Rightarrow> Some r) of
        None \<Rightarrow> Env_Injection
      | Some r' \<Rightarrow>
          (case strip_wrapper_command current of
             Some inner \<Rightarrow> env_risk_loop n inner r'
           | None \<Rightarrow> r'))"

definition command_env_risk :: "string list \<Rightarrow> env_risk" where
  "command_env_risk ws = env_risk_loop 8 ws Env_Safe"

section \<open>Scripts\<close>

definition assignment_key :: "node \<Rightarrow> string \<Rightarrow> string" where
  "assignment_key n src =
     (case find (\<lambda>c. kind c = ''variable_name'') (children n) of
        Some c \<Rightarrow> node_text src c
      | None \<Rightarrow> flag_name (node_text src n))"

definition script_env_risk :: "node \<Rightarrow> string \<Rightarrow> plain_command list \<Rightarrow> env_risk" where
  "script_env_risk tr src cmds =
     (let assigned = foldl (\<lambda>r n. if kind n = ''variable_assignment'' then max r (env_key_risk (assignment_key n src)) else r)
            Env_Safe (nodes tr)
      in foldl (\<lambda>r c. max r (command_env_risk (pc_words c))) assigned cmds)"

lemma foldl_max_safe:
  "foldl (\<lambda>r x. max r (f x)) r0 xs = Env_Safe \<longleftrightarrow> r0 = Env_Safe \<and> (\<forall>x\<in>set xs. f x = Env_Safe)"
  by (induction xs arbitrary: r0) (auto simp: max_safe)

lemma foldl_max_if_safe:
  "foldl (\<lambda>r x. if P x then max r (f x) else r) r0 xs = Env_Safe \<longleftrightarrow>
     r0 = Env_Safe \<and> (\<forall>x\<in>set xs. P x \<longrightarrow> f x = Env_Safe)"
  by (induction xs arbitrary: r0) (auto simp: max_safe)

lemma script_env_safe:
  "script_env_risk tr src cmds = Env_Safe \<longleftrightarrow>
     (\<forall>n\<in>set (nodes tr). kind n = ''variable_assignment'' \<longrightarrow> env_key_risk (assignment_key n src) = Env_Safe)
     \<and> (\<forall>c\<in>set cmds. command_env_risk (pc_words c) = Env_Safe)"
  by (auto simp: script_env_risk_def Let_def foldl_max_safe foldl_max_if_safe)

end
