(* ===== verification/Grant_Evaluation.thy ===== *)
theory Grant_Evaluation
  imports Web_Domains Permission_Policy File_Operands Env_Risk
begin

text \<open>
  How the permission manager (\<open>permission/manager/mod.rs\<close>) evaluates one bash request against what the
  session remembers, with the security findings of \<open>permission/auto_mode/security_findings.rs\<close>, and
  what the remembered grants and denials decide about an access. The argument \<open>field\<close> is the
  grammar's \<open>child_by_field_name\<close>.
\<close>

section \<open>Findings\<close>

datatype finding = FailClosedPolicy | UnparseableShell | OpaqueShell | ExecOrAmbientGit | EnvInjection
  | UnvettedEnv | FileWrite | DangerousCommand | SpecialExecSurface

definition is_grant_floor :: "finding \<Rightarrow> bool" where
  "is_grant_floor f = (f \<in> {FileWrite, UnvettedEnv, EnvInjection, OpaqueShell, ExecOrAmbientGit, SpecialExecSurface})"

definition constrains_broad_grant :: "finding set \<Rightarrow> bool" where
  "constrains_broad_grant a = (\<exists>f\<in>a. is_grant_floor f)"

definition is_file_write_only :: "finding set \<Rightarrow> bool" where
  "is_file_write_only a = (a = {FileWrite})"

fun env_risk_finding :: "env_risk \<Rightarrow> finding option" where
  "env_risk_finding Env_Injection = Some EnvInjection"
| "env_risk_finding Env_Unvetted = Some UnvettedEnv"
| "env_risk_finding Env_Safe = None"

section \<open>Git in the text of a command\<close>

text \<open>The tokens between white space and shell punctuation, without the quotes at their ends.\<close>

definition git_separators :: "char set" where
  "git_separators = set ''|&;()<>'' \<union> {CHR 0x60, CHR 0x0A}"

definition trim_quotes :: "string \<Rightarrow> string" where
  "trim_quotes s = (let q = (\<lambda>c. c \<in> {squote, dquote, CHR 0x60})
     in rev (dropWhile q (rev (dropWhile q s))))"

definition script_may_invoke_git :: "string \<Rightarrow> bool" where
  "script_may_invoke_git cmd =
     list_ex (\<lambda>token. trim_quotes token \<noteq> [] \<and> normalized_token_basename (trim_quotes token) = ''git'')
       (split_whitespace [] (map (\<lambda>c. if c \<in> git_separators then CHR '' '' else c) cmd))"

section \<open>The evaluation of a script\<close>

datatype segment_evaluation =
    AutoAllow bool
  | Seg_Reject string
  | NeedsPrompts "string list"
  | Unparseable

record bash_evaluation =
  segments :: segment_evaluation
  exact_grant :: bool
  all_segments_granted :: bool
  assessment :: "finding set"
  redirect_write :: bool
  ambient_segments :: "string list list option"
  creation_paths :: "string list"
  has_cwd_change :: bool

definition raw_deny_rejection :: "string \<Rightarrow> permission_state \<Rightarrow> segment_evaluation option" where
  "raw_deny_rejection cmd s =
     map_option (\<lambda>d. Seg_Reject (rejected_text d)) (find (matches_command_prefix cmd) (disallowed_bash_commands s))"

definition undecomposed :: "string \<Rightarrow> permission_state \<Rightarrow> bool \<Rightarrow> finding set \<Rightarrow> bash_evaluation" where
  "undecomposed cmd s exact found =
     \<lparr>segments = (case raw_deny_rejection cmd s of Some r \<Rightarrow> r | None \<Rightarrow> Unparseable),
      exact_grant = exact, all_segments_granted = False, assessment = found, redirect_write = True,
      ambient_segments = None, creation_paths = [], has_cwd_change = False\<rparr>"

text \<open>The loop over the commands: what it has gathered, and one command's contribution.\<close>

record seg_scan =
  needs_prompt :: "string list"
  via_session_grant :: bool
  granted_all :: bool
  risk :: bool
  git_seen :: bool
  ambient_raw :: "string list list"
  found :: "finding set"

definition matched_grant :: "environment \<Rightarrow> permission_state \<Rightarrow> string list \<Rightarrow> bool" where
  "matched_grant env s ws =
     (let seg = join_with '' '' ws
      in (if always_allow_scope_pinned ws then seg \<in> set (allowed_bash_commands s)
          else list_ex (matches_command_prefix seg) (allowed_bash_commands s))
         \<or> list_ex (\<lambda>g. bash_pattern_matches_command env g seg) (allowed_bash_globs s))"

definition must_prompt_surface :: "permission_state \<Rightarrow> string list \<Rightarrow> bool" where
  "must_prompt_surface s ws \<longleftrightarrow>
     (kubectl_has_unsafe_flag ws \<or> rg_has_pre_flag ws \<or> ps_dumps_environment ws \<or> git_words_have_unsafe_query_option ws)
     \<and> join_with '' '' ws \<notin> set (allowed_bash_commands s)"

definition matched_safe :: "bool \<Rightarrow> string list \<Rightarrow> bool" where
  "matched_safe honor ws \<longleftrightarrow> honor \<and>
     (is_safe_command_words ws \<or> is_always_safe_command_words ws \<or> is_safe_creation_command ws)"

text \<open>Before the set-up check: the facts that every command contributes.\<close>

definition note_facts :: "plain_command \<Rightarrow> seg_scan \<Rightarrow> seg_scan" where
  "note_facts c sc =
     (let raw = pc_words c; facts = segment_exec_facts raw
      in sc\<lparr>ambient_raw := ambient_raw sc @ [raw],
            found := found sc
              \<union> (if words_are_opaque_shell (shell_words (unwrap_wrappers raw)) then {OpaqueShell} else {})
              \<union> (if exec_risk facts then {ExecOrAmbientGit} else {}),
            risk := risk sc \<or> exec_risk facts,
            git_seen := git_seen sc \<or> has_git facts\<rparr>)"

text \<open>The command itself; \<open>Inl\<close> is the early return on a remembered denial.\<close>

definition judge_segment ::
  "environment \<Rightarrow> permission_state \<Rightarrow> bool \<Rightarrow> string list \<Rightarrow> seg_scan \<Rightarrow> (string, seg_scan) res" where
  "judge_segment env s honor ws sc =
     (if is_setup_command ws then Inr sc
      else
        (let seg = join_with '' '' ws
         in case find (matches_command_prefix seg) (disallowed_bash_commands s) of
              Some d \<Rightarrow> Inl (rejected_text d)
            | None \<Rightarrow>
                (let granted = matched_grant env s ws;
                     sc = sc\<lparr>granted_all := granted_all sc \<and> granted\<rparr>
                 in if is_dangerous_command_words ws
                      then Inr (sc\<lparr>found := insert DangerousCommand (found sc), needs_prompt := needs_prompt sc @ [seg]\<rparr>)
                    else if must_prompt_surface s ws
                      then Inr (sc\<lparr>found := insert SpecialExecSurface (found sc), needs_prompt := needs_prompt sc @ [seg]\<rparr>)
                    else if granted \<or> matched_safe honor ws
                      then Inr (if granted then sc\<lparr>via_session_grant := True\<rparr> else sc)
                    else Inr (sc\<lparr>needs_prompt := needs_prompt sc @ [seg]\<rparr>))))"

fun segment_loop ::
  "environment \<Rightarrow> permission_state \<Rightarrow> bool \<Rightarrow> plain_command list \<Rightarrow> seg_scan \<Rightarrow> (string \<times> seg_scan, seg_scan) res" where
  "segment_loop env s honor [] sc = Inr sc"
| "segment_loop env s honor (c # cs) sc =
     (case judge_segment env s honor (unwrap_wrappers (pc_words c)) (note_facts c sc) of
        Inl why \<Rightarrow> Inl (why, note_facts c sc)
      | Inr sc' \<Rightarrow> segment_loop env s honor cs sc')"

text \<open>The early return forgets the paths and the change of directory, as the source does.\<close>

definition evaluate_bash ::
  "environment \<Rightarrow> shell_parser \<Rightarrow> field_lookup \<Rightarrow> string \<Rightarrow> permission_state \<Rightarrow> bool \<Rightarrow> bash_evaluation" where
  "evaluate_bash env parse field cmd s honor_safe_lists =
     (let exact = cmd \<in> set (allowed_bash_commands s);
          git = (if script_may_invoke_git cmd then {ExecOrAmbientGit} else {})
      in case parse cmd of
           None \<Rightarrow> undecomposed cmd s exact ({UnparseableShell} \<union> git)
         | Some t \<Rightarrow>
             (let writes = command_write_paths_split field (root_node t) cmd;
                  cwd_change = script_has_cwd_change field (root_node t) cmd;
                  redirect = (unextracted_write_redirect writes
                    \<or> list_ex (\<lambda>p. \<not> is_safe_write_sink p) (redirect_paths writes));
                  found0 = (if redirect \<or> list_ex (\<lambda>p. \<not> is_safe_write_sink p) (word_paths writes)
                    then {FileWrite} else {});
                  segs = try_parse_word_only_commands_sequence t cmd;
                  found1 = found0 \<union> (case env_risk_finding (script_env_risk (root_node t) cmd
                    (case segs of Some cs \<Rightarrow> cs | None \<Rightarrow> [])) of Some f \<Rightarrow> {f} | None \<Rightarrow> {})
              in case segs of
                   None \<Rightarrow> undecomposed cmd s exact (found1 \<union> {UnparseableShell}
                     \<union> (if tree_has_opaque_shell (root_node t) cmd then {OpaqueShell} else {}) \<union> git)
                 | Some cs \<Rightarrow>
                     (let exact = whole_script_grant parse cmd cs s;
                          start = \<lparr>needs_prompt = [], via_session_grant = False, granted_all = True,
                            risk = False, git_seen = False, ambient_raw = [], found = found1\<rparr>
                      in case segment_loop env s honor_safe_lists cs start of
                           Inl (why, sc) \<Rightarrow>
                             \<lparr>segments = Seg_Reject why, exact_grant = exact, all_segments_granted = granted_all sc,
                              assessment = found sc, redirect_write = redirect, ambient_segments = None,
                              creation_paths = [], has_cwd_change = False\<rparr>
                         | Inr sc \<Rightarrow>
                             \<lparr>segments = (if needs_prompt sc = [] then AutoAllow (via_session_grant sc)
                                else NeedsPrompts (needs_prompt sc)),
                              exact_grant = exact, all_segments_granted = granted_all sc, assessment = found sc,
                              redirect_write = redirect,
                              ambient_segments = (if git_seen sc \<and> \<not> risk sc then Some (ambient_raw sc) else None),
                              creation_paths = wp_creation_paths writes, has_cwd_change = cwd_change\<rparr>)))"

section \<open>What the remembered grants decide\<close>

definition SESSION_DENY :: string where "SESSION_DENY = ''session_deny''"
definition SESSION_GRANT :: string where "SESSION_GRANT = ''session_grant''"
definition SAFE_COMMAND :: string where "SAFE_COMMAND = ''safe_command''"
definition STATIC_ALLOWLIST :: string where "STATIC_ALLOWLIST = ''static_allowlist''"

definition persisted_bash_auto_allows :: "permission_state \<Rightarrow> string \<Rightarrow> string option \<Rightarrow> bool" where
  "persisted_bash_auto_allows s cmd yolo_pin \<longleftrightarrow>
     (allow_bash_execute s \<and> yolo_pin = None) \<or> cmd \<in> set (allowed_bash_commands s)"

definition bash_request_floor_requires_prompt :: "bash_evaluation option \<Rightarrow> bool" where
  "bash_request_floor_requires_prompt e =
     (case e of None \<Rightarrow> False | Some e \<Rightarrow> \<not> exact_grant e \<and> constrains_broad_grant (assessment e))"

definition narrow_allow_clears_write_floor ::
  "environment \<Rightarrow> shell_parser \<Rightarrow> bash_evaluation option \<Rightarrow> compiled_policy option \<Rightarrow> access_kind \<Rightarrow> bool" where
  "narrow_allow_clears_write_floor env parse e policy access \<longleftrightarrow>
     (case e of None \<Rightarrow> False | Some e \<Rightarrow> is_file_write_only (assessment e) \<and> \<not> redirect_write e)
     \<and> (case policy of None \<Rightarrow> False | Some p \<Rightarrow> narrow_allow_authorizes env parse p access)"

definition bash_assessment_is_clear :: "bash_evaluation option \<Rightarrow> bool" where
  "bash_assessment_is_clear e = (case e of None \<Rightarrow> True | Some e \<Rightarrow> assessment e = {})"

definition classifier_assessment :: "bash_evaluation option \<Rightarrow> bool \<Rightarrow> finding set" where
  "classifier_assessment e fail_closed_policy =
     (case e of None \<Rightarrow> {} | Some e \<Rightarrow> assessment e) \<union> (if fail_closed_policy then {FailClosedPolicy} else {})"

definition sandbox_may_auto_allow_bash :: "bash_evaluation option \<Rightarrow> bool \<Rightarrow> bool" where
  "sandbox_may_auto_allow_bash e sandbox_active = (sandbox_active \<and> \<not> bash_request_floor_requires_prompt e)"

record bash_grant_opts =
  honor_safe_lists :: bool
  allow_blanket :: bool
  conservative_blanket :: bool

definition PRE_CLASSIFIER :: bash_grant_opts where
  "PRE_CLASSIFIER = \<lparr>honor_safe_lists = True, allow_blanket = True, conservative_blanket = True\<rparr>"

definition ASK_FLOOR_REMEMBER :: bash_grant_opts where
  "ASK_FLOOR_REMEMBER = \<lparr>honor_safe_lists = False, allow_blanket = False, conservative_blanket = False\<rparr>"

definition post_classify :: "bool \<Rightarrow> bash_grant_opts" where
  "post_classify auto_forced_prompt =
     \<lparr>honor_safe_lists = True, allow_blanket = (\<not> auto_forced_prompt), conservative_blanket = False\<rparr>"

definition grant_if :: "bool \<Rightarrow> string \<Rightarrow> (decision \<times> string) option" where
  "grant_if b why = (if b then Some (Allow, why) else None)"

definition bash_grant_pre_decision ::
  "string \<Rightarrow> bash_evaluation \<Rightarrow> permission_state \<Rightarrow> string option \<Rightarrow> bash_grant_opts \<Rightarrow> (decision \<times> string) option" where
  "bash_grant_pre_decision cmd e s yolo_pin opts =
     (case segments e of
        Seg_Reject why \<Rightarrow> Some (Reject why, SESSION_DENY)
      | _ \<Rightarrow>
          if bash_request_floor_requires_prompt (Some e) then None
          else
            (case segments e of
               AutoAllow via \<Rightarrow>
                 grant_if (honor_safe_lists opts \<or> all_segments_granted e) (if via then SESSION_GRANT else SAFE_COMMAND)
             | NeedsPrompts _ \<Rightarrow>
                 if \<not> allow_blanket opts then None
                 else if conservative_blanket opts \<and> DangerousCommand \<in> assessment e
                   then grant_if (exact_grant e) SESSION_GRANT
                 else grant_if (persisted_bash_auto_allows s cmd yolo_pin) SESSION_GRANT
             | _ \<Rightarrow>
                 if \<not> allow_blanket opts then None
                 else grant_if (if conservative_blanket opts then exact_grant e
                                else persisted_bash_auto_allows s cmd yolo_pin) SESSION_GRANT))"

section \<open>MCP tools\<close>

definition is_id_char :: "char \<Rightarrow> bool" where
  "is_id_char c \<longleftrightarrow> is_ascii_alphanumeric c \<or> c = CHR ''_'' \<or> c = CHR ''-''"

definition is_valid_segment :: "string \<Rightarrow> bool" where
  "is_valid_segment s \<longleftrightarrow> s \<noteq> [] \<and> list_all is_id_char s"

definition is_well_formed_tool_id :: "string \<Rightarrow> bool" where
  "is_well_formed_tool_id s =
     (case split_on (CHR '':'') s of
        [only] \<Rightarrow> is_valid_segment only
      | [first, second] \<Rightarrow> is_valid_segment first \<and> is_valid_segment second
      | _ \<Rightarrow> False)"

definition delimiter_positions :: "string \<Rightarrow> nat list" where
  "delimiter_positions name = filter (\<lambda>i. prefix ''__'' (drop i name)) [0..<length name]"

definition parse_mcp_qualified_name :: "string \<Rightarrow> (string \<times> string) option" where
  "parse_mcp_qualified_name name =
     (case delimiter_positions name of
        [i] \<Rightarrow>
          (let server = take i name; tl = drop (i + 2) name
           in if server = [] \<or> tl = [] \<or> \<not> is_well_formed_tool_id name then None else Some (server, tl))
      | _ \<Rightarrow> None)"

definition mcp_server_prefix_allowed :: "string \<Rightarrow> string list \<Rightarrow> bool" where
  "mcp_server_prefix_allowed name servers \<longleftrightarrow> servers \<noteq> [] \<and>
     (case parse_mcp_qualified_name name of Some (server, _) \<Rightarrow> server \<in> set servers | None \<Rightarrow> False)"

definition mcp_pre_decision :: "string \<Rightarrow> permission_state \<Rightarrow> bool \<Rightarrow> bool \<Rightarrow> decision option" where
  "mcp_pre_decision name s policy_forced_prompt remember_tool_approvals =
     (if name \<in> set (disallowed_mcp_tools s) then Some (Reject (rejected_text name))
      else if policy_forced_prompt \<and> \<not> remember_tool_approvals then None
      else if name \<in> set (allowed_mcp_tools s) then Some Allow
      else if mcp_server_prefix_allowed name (allowed_mcp_servers s) then Some Allow
      else None)"

section \<open>Any access\<close>

definition session_grant_pre_decision ::
  "environment \<Rightarrow> access_kind \<Rightarrow> bash_evaluation option \<Rightarrow> permission_state \<Rightarrow> bool \<Rightarrow> domain_matcher \<Rightarrow> bool
    \<Rightarrow> string option \<Rightarrow> (decision \<times> string) option" where
  "session_grant_pre_decision env access e s allow_edits matcher honor_static yolo_pin =
     (case access of
        MCPTool name _ \<Rightarrow>
          map_option (\<lambda>d. (d, case d of Reject _ \<Rightarrow> SESSION_DENY | _ \<Rightarrow> SESSION_GRANT))
            (mcp_pre_decision name s False False)
      | WebFetch u \<Rightarrow>
          (case url_parse env u of
             None \<Rightarrow> None
           | Some parsed \<Rightarrow>
               (case web_fetch_deny_pre_decision env parsed s of
                  Some reject \<Rightarrow> Some (reject, SESSION_DENY)
                | None \<Rightarrow>
                    if honor_static \<and> matcher_check env matcher parsed = None then Some (Allow, STATIC_ALLOWLIST)
                    else (case host_str parsed of
                            None \<Rightarrow> None
                          | Some host \<Rightarrow>
                              grant_if (normalize_domain env host \<in> set (allowed_web_fetch_domains s)) SESSION_GRANT)))
      | Edit _ \<Rightarrow> grant_if allow_edits SESSION_GRANT
      | Bash cmd \<Rightarrow>
          (case e of None \<Rightarrow> None | Some e \<Rightarrow> bash_grant_pre_decision cmd e s yolo_pin PRE_CLASSIFIER)
      | _ \<Rightarrow> None)"

definition always_allow_row_is_effective :: "environment \<Rightarrow> shell_parser \<Rightarrow> field_lookup \<Rightarrow> string \<Rightarrow> bool" where
  "always_allow_row_is_effective env parse field cmd =
     (case primary_command_from_script parse cmd of
        None \<Rightarrow> False
      | Some h \<Rightarrow>
          (let scope = default_always_allow_scope (highlighted_words h)
           in if \<not> always_allow_scope_persists parse h scope then False
              else
                (let scratch = persist_bash_always_allow parse state_default cmd
                       (join_with '' '' (take scope (highlighted_words h)));
                     e = evaluate_bash env parse field cmd scratch True
                 in case bash_grant_pre_decision cmd e scratch None PRE_CLASSIFIER of
                      Some (Allow, _) \<Rightarrow> True
                    | _ \<Rightarrow> False)))"

end
