(* ===== verification/Grant_Props.thy ===== *)
theory Grant_Props
  imports Grant_Evaluation Policy_Props
begin

text \<open>
  The properties of the permission manager's evaluation: the loop over the commands of a script
  equals a judgement of each command on its own, denials win, broad grants never pass the floors,
  and an answer that the prompt offers takes effect.
\<close>

section \<open>One command on its own\<close>

definition commands_of :: "plain_command list \<Rightarrow> string list list" where
  "commands_of cs = filter (\<lambda>ws. \<not> is_setup_command ws) (map (\<lambda>c. unwrap_wrappers (pc_words c)) cs)"

definition denying_key :: "permission_state \<Rightarrow> string list \<Rightarrow> string option" where
  "denying_key s ws = find (matches_command_prefix (join_with '' '' ws)) (disallowed_bash_commands s)"

definition admitted :: "environment \<Rightarrow> permission_state \<Rightarrow> bool \<Rightarrow> string list \<Rightarrow> bool" where
  "admitted env s honor ws \<longleftrightarrow> \<not> is_dangerous_command_words ws \<and> \<not> must_prompt_surface s ws
     \<and> (matched_grant env s ws \<or> matched_safe honor ws)"

definition command_findings :: "permission_state \<Rightarrow> string list \<Rightarrow> finding set" where
  "command_findings s ws =
     (if is_dangerous_command_words ws then {DangerousCommand}
      else if must_prompt_surface s ws then {SpecialExecSurface} else {})"

definition raw_findings :: "plain_command \<Rightarrow> finding set" where
  "raw_findings c =
     (if words_are_opaque_shell (shell_words (unwrap_wrappers (pc_words c))) then {OpaqueShell} else {})
     \<union> (if exec_risk (segment_exec_facts (pc_words c)) then {ExecOrAmbientGit} else {})"

definition scan_findings :: "permission_state \<Rightarrow> plain_command list \<Rightarrow> finding set" where
  "scan_findings s cs = (\<Union>c\<in>set cs. raw_findings c) \<union> (\<Union>ws\<in>set (commands_of cs). command_findings s ws)"

lemma commands_of_simps [simp]:
  "commands_of [] = []"
  "commands_of (c # cs) = (if is_setup_command (unwrap_wrappers (pc_words c)) then commands_of cs
     else unwrap_wrappers (pc_words c) # commands_of cs)"
  by (simp_all add: commands_of_def)

lemma scan_findings_simps:
  "scan_findings s [] = {}"
  "scan_findings s (c # cs) = raw_findings c \<union> scan_findings s cs \<union>
     (if is_setup_command (unwrap_wrappers (pc_words c)) then {} else command_findings s (unwrap_wrappers (pc_words c)))"
  by (auto simp: scan_findings_def)

lemma note_facts_fields [simp]:
  "needs_prompt (note_facts c sc) = needs_prompt sc"
  "via_session_grant (note_facts c sc) = via_session_grant sc"
  "granted_all (note_facts c sc) = granted_all sc"
  "found (note_facts c sc) = found sc \<union> raw_findings c"
  by (simp_all add: note_facts_def Let_def raw_findings_def Un_assoc)

lemma judge_denied:
  "\<not> is_setup_command ws \<Longrightarrow> denying_key s ws = Some d \<Longrightarrow> judge_segment env s honor ws sc = Inl (rejected_text d)"
  by (simp add: judge_segment_def denying_key_def)

lemma judge_undenied:
  assumes "\<not> is_setup_command ws" and "denying_key s ws = None"
  obtains sc' where "judge_segment env s honor ws sc = Inr sc'"
    and "needs_prompt sc' = needs_prompt sc @ (if admitted env s honor ws then [] else [join_with '' '' ws])"
    and "via_session_grant sc' \<longleftrightarrow> via_session_grant sc \<or> admitted env s honor ws \<and> matched_grant env s ws"
    and "granted_all sc' \<longleftrightarrow> granted_all sc \<and> matched_grant env s ws"
    and "found sc' = found sc \<union> command_findings s ws"
proof -
  have "\<exists>sc'. judge_segment env s honor ws sc = Inr sc'
    \<and> needs_prompt sc' = needs_prompt sc @ (if admitted env s honor ws then [] else [join_with '' '' ws])
    \<and> (via_session_grant sc' \<longleftrightarrow> via_session_grant sc \<or> admitted env s honor ws \<and> matched_grant env s ws)
    \<and> (granted_all sc' \<longleftrightarrow> granted_all sc \<and> matched_grant env s ws)
    \<and> found sc' = found sc \<union> command_findings s ws"
    using assms
    by (cases "is_dangerous_command_words ws"; cases "must_prompt_surface s ws";
        cases "matched_grant env s ws"; cases "matched_safe honor ws")
      (simp_all add: judge_segment_def denying_key_def Let_def admitted_def command_findings_def)
  with that show thesis by blast
qed

lemma judge_setup: "is_setup_command ws \<Longrightarrow> judge_segment env s honor ws sc = Inr sc"
  by (simp add: judge_segment_def)

lemma loop_undenied:
  assumes "\<forall>ws\<in>set (commands_of cs). denying_key s ws = None"
  obtains sc' where "segment_loop env s honor cs sc = Inr sc'"
    and "needs_prompt sc' = needs_prompt sc @ map (join_with '' '') (filter (\<lambda>ws. \<not> admitted env s honor ws) (commands_of cs))"
    and "via_session_grant sc' \<longleftrightarrow> via_session_grant sc
       \<or> (\<exists>ws\<in>set (commands_of cs). admitted env s honor ws \<and> matched_grant env s ws)"
    and "granted_all sc' \<longleftrightarrow> granted_all sc \<and> (\<forall>ws\<in>set (commands_of cs). matched_grant env s ws)"
    and "found sc' = found sc \<union> scan_findings s cs"
  using assms
proof (induction cs arbitrary: sc thesis)
  case Nil
  show ?case by (rule Nil(1) [of sc]) (simp_all add: scan_findings_simps)
next
  case (Cons c cs)
  let ?ws = "unwrap_wrappers (pc_words c)"
  show ?case
  proof (cases "is_setup_command ?ws")
    case True
    from Cons.prems(2) True have "\<forall>ws\<in>set (commands_of cs). denying_key s ws = None" by simp
    from Cons.IH [of "note_facts c sc", OF _ this] obtain sc' where "segment_loop env s honor cs (note_facts c sc) = Inr sc'"
      "needs_prompt sc' = needs_prompt sc @ map (join_with '' '') (filter (\<lambda>ws. \<not> admitted env s honor ws) (commands_of cs))"
      "via_session_grant sc' \<longleftrightarrow> via_session_grant sc \<or> (\<exists>ws\<in>set (commands_of cs). admitted env s honor ws \<and> matched_grant env s ws)"
      "granted_all sc' \<longleftrightarrow> granted_all sc \<and> (\<forall>ws\<in>set (commands_of cs). matched_grant env s ws)"
      "found sc' = found sc \<union> raw_findings c \<union> scan_findings s cs"
      by auto
    with True show ?thesis
      by (intro Cons.prems(1) [of sc']) (simp_all add: judge_setup scan_findings_simps Un_assoc)
  next
    case False
    with Cons.prems(2) have "denying_key s ?ws = None" by simp
    from judge_undenied [OF False this, of env honor "note_facts c sc"] obtain sc1 where
      j: "judge_segment env s honor ?ws (note_facts c sc) = Inr sc1"
      "needs_prompt sc1 = needs_prompt sc @ (if admitted env s honor ?ws then [] else [join_with '' '' ?ws])"
      "via_session_grant sc1 \<longleftrightarrow> via_session_grant sc \<or> admitted env s honor ?ws \<and> matched_grant env s ?ws"
      "granted_all sc1 \<longleftrightarrow> granted_all sc \<and> matched_grant env s ?ws"
      "found sc1 = found sc \<union> raw_findings c \<union> command_findings s ?ws"
      by auto
    from Cons.prems(2) False have "\<forall>ws\<in>set (commands_of cs). denying_key s ws = None" by simp
    from Cons.IH [of sc1, OF _ this] obtain sc' where "segment_loop env s honor cs sc1 = Inr sc'"
      "needs_prompt sc' = needs_prompt sc1 @ map (join_with '' '') (filter (\<lambda>ws. \<not> admitted env s honor ws) (commands_of cs))"
      "via_session_grant sc' \<longleftrightarrow> via_session_grant sc1 \<or> (\<exists>ws\<in>set (commands_of cs). admitted env s honor ws \<and> matched_grant env s ws)"
      "granted_all sc' \<longleftrightarrow> granted_all sc1 \<and> (\<forall>ws\<in>set (commands_of cs). matched_grant env s ws)"
      "found sc' = found sc1 \<union> scan_findings s cs"
      by auto
    with False j show ?thesis
      by (intro Cons.prems(1) [of sc']) (simp_all add: scan_findings_simps Un_assoc Un_left_commute disj_assoc Un_commute)
  qed
qed

lemma loop_denied:
  assumes "find (\<lambda>ws. denying_key s ws \<noteq> None) (commands_of cs) = Some ws"
  shows "\<exists>sc'. segment_loop env s honor cs sc = Inl (rejected_text (the (denying_key s ws)), sc')"
  using assms
proof (induction cs arbitrary: sc)
  case (Cons c cs)
  let ?ws = "unwrap_wrappers (pc_words c)"
  show ?case
  proof (cases "is_setup_command ?ws")
    case True
    with Cons show ?thesis by (simp add: judge_setup)
  next
    case False
    show ?thesis
    proof (cases "denying_key s ?ws")
      case None
      from judge_undenied [OF False None] obtain sc1 where
        "judge_segment env s honor ?ws (note_facts c sc) = Inr sc1" .
      with Cons None False show ?thesis by simp
    next
      case (Some d)
      with Cons.prems False have "ws = ?ws" by simp
      with Some False show ?thesis by (simp add: judge_denied)
    qed
  qed
qed simp

section \<open>A whole script\<close>

text \<open>What the tree analyses contribute, which does not depend on the remembered grants.\<close>

definition base_findings :: "field_lookup \<Rightarrow> node \<Rightarrow> string \<Rightarrow> plain_command list \<Rightarrow> finding set" where
  "base_findings field n cmd cs =
     (let writes = command_write_paths_split field n cmd
      in (if unextracted_write_redirect writes \<or> list_ex (\<lambda>p. \<not> is_safe_write_sink p) (redirect_paths writes)
            \<or> list_ex (\<lambda>p. \<not> is_safe_write_sink p) (word_paths writes) then {FileWrite} else {})
         \<union> (case env_risk_finding (script_env_risk n cmd cs) of Some f \<Rightarrow> {f} | None \<Rightarrow> {}))"

lemma dangerous_not_base: "DangerousCommand \<notin> base_findings field n cmd cs"
  by (cases "script_env_risk n cmd cs") (auto simp: base_findings_def Let_def)

lemma find_denying_None:
  "find (\<lambda>ws. denying_key s ws \<noteq> None) wss = None \<longleftrightarrow> (\<forall>ws\<in>set wss. denying_key s ws = None)"
  by (auto simp: find_None_iff)

lemma evaluate_denied:
  assumes "all_commands_from_script parse cmd = Some cs"
    and "find (\<lambda>ws. denying_key s ws \<noteq> None) (commands_of cs) = Some ws"
  shows "segments (evaluate_bash env parse field cmd s honor) = Seg_Reject (rejected_text (the (denying_key s ws)))"
proof -
  from assms(1) obtain t where "parse cmd = Some t" "try_parse_word_only_commands_sequence t cmd = Some cs"
    by (auto simp: all_commands_from_script_def split: option.split_asm)
  moreover from loop_denied [OF assms(2), of env honor] obtain f where
    "\<And>start. segment_loop env s honor cs start = Inl (rejected_text (the (denying_key s ws)), f start)"
    by metis
  ultimately show ?thesis by (simp add: evaluate_bash_def Let_def)
qed

lemma evaluate_undenied:
  assumes "all_commands_from_script parse cmd = Some cs" and "parse cmd = Some t"
    and "\<forall>ws\<in>set (commands_of cs). denying_key s ws = None"
    and e_def: "e = evaluate_bash env parse field cmd s honor"
  shows "segments e = (if \<forall>ws\<in>set (commands_of cs). admitted env s honor ws
           then AutoAllow (\<exists>ws\<in>set (commands_of cs). matched_grant env s ws)
           else NeedsPrompts (map (join_with '' '') (filter (\<lambda>ws. \<not> admitted env s honor ws) (commands_of cs))))"
    and "exact_grant e \<longleftrightarrow> whole_script_grant parse cmd cs s"
    and "all_segments_granted e \<longleftrightarrow> (\<forall>ws\<in>set (commands_of cs). matched_grant env s ws)"
    and "assessment e = base_findings field (root_node t) cmd cs \<union> scan_findings s cs"
proof -
  from assms(1,2) have seq: "try_parse_word_only_commands_sequence t cmd = Some cs"
    by (simp add: all_commands_from_script_def)
  obtain sc' where loop: "segment_loop env s honor cs \<lparr>needs_prompt = [], via_session_grant = False, granted_all = True,
       risk = False, git_seen = False, ambient_raw = [], found = base_findings field (root_node t) cmd cs\<rparr> = Inr sc'"
    and np: "needs_prompt sc' = map (join_with '' '') (filter (\<lambda>ws. \<not> admitted env s honor ws) (commands_of cs))"
    and via: "via_session_grant sc' \<longleftrightarrow> (\<exists>ws\<in>set (commands_of cs). admitted env s honor ws \<and> matched_grant env s ws)"
    and all: "granted_all sc' \<longleftrightarrow> (\<forall>ws\<in>set (commands_of cs). matched_grant env s ws)"
    and fnd: "found sc' = base_findings field (root_node t) cmd cs \<union> scan_findings s cs"
    by (rule loop_undenied [OF assms(3), of env honor "\<lparr>needs_prompt = [], via_session_grant = False, granted_all = True,
       risk = False, git_seen = False, ambient_raw = [], found = base_findings field (root_node t) cmd cs\<rparr>"]) simp
  define w where "w = command_write_paths_split field (root_node t) cmd"
  have base: "(if (unextracted_write_redirect w \<or> list_ex (\<lambda>p. \<not> is_safe_write_sink p) (redirect_paths w))
        \<or> list_ex (\<lambda>p. \<not> is_safe_write_sink p) (word_paths w) then {FileWrite} else {})
      \<union> (case env_risk_finding (script_env_risk (root_node t) cmd cs) of Some f \<Rightarrow> {f} | None \<Rightarrow> {})
      = base_findings field (root_node t) cmd cs"
    unfolding base_findings_def Let_def w_def [symmetric] by simp
  have "e = \<lparr>segments = (if needs_prompt sc' = [] then AutoAllow (via_session_grant sc') else NeedsPrompts (needs_prompt sc')),
      exact_grant = whole_script_grant parse cmd cs s, all_segments_granted = granted_all sc', assessment = found sc',
      redirect_write = (unextracted_write_redirect w \<or> list_ex (\<lambda>p. \<not> is_safe_write_sink p) (redirect_paths w)),
      ambient_segments = (if git_seen sc' \<and> \<not> risk sc' then Some (ambient_raw sc') else None),
      creation_paths = wp_creation_paths w, has_cwd_change = script_has_cwd_change field (root_node t) cmd\<rparr>"
    unfolding e_def evaluate_bash_def Let_def
    by (simp only: assms(2) seq option.case w_def [symmetric] base loop sum.case)
  moreover have "needs_prompt sc' = [] \<longleftrightarrow> (\<forall>ws\<in>set (commands_of cs). admitted env s honor ws)"
    by (simp add: np filter_empty_conv)
  ultimately show "segments e = (if \<forall>ws\<in>set (commands_of cs). admitted env s honor ws
           then AutoAllow (\<exists>ws\<in>set (commands_of cs). matched_grant env s ws)
           else NeedsPrompts (map (join_with '' '') (filter (\<lambda>ws. \<not> admitted env s honor ws) (commands_of cs))))"
    "exact_grant e \<longleftrightarrow> whole_script_grant parse cmd cs s"
    "all_segments_granted e \<longleftrightarrow> (\<forall>ws\<in>set (commands_of cs). matched_grant env s ws)"
    "assessment e = base_findings field (root_node t) cmd cs \<union> scan_findings s cs"
    using np via all fnd by auto
qed

lemma evaluate_undecomposed:
  assumes "all_commands_from_script parse cmd = None"
  shows "segments (evaluate_bash env parse field cmd s honor) =
      (case find (matches_command_prefix cmd) (disallowed_bash_commands s) of
         Some d \<Rightarrow> Seg_Reject (rejected_text d) | None \<Rightarrow> Unparseable)"
    and "exact_grant (evaluate_bash env parse field cmd s honor) \<longleftrightarrow> cmd \<in> set (allowed_bash_commands s)"
    and "assessment (evaluate_bash env parse field cmd s honor) = assessment (evaluate_bash env parse field cmd s' honor)"
  using assms
  by (auto simp: all_commands_from_script_def evaluate_bash_def undecomposed_def raw_deny_rejection_def Let_def
      split: option.split)

section \<open>More grants\<close>

definition more_grants :: "permission_state \<Rightarrow> permission_state \<Rightarrow> bool" where
  "more_grants s s' \<longleftrightarrow> set (allowed_bash_commands s) \<subseteq> set (allowed_bash_commands s')
     \<and> set (allowed_bash_globs s) \<subseteq> set (allowed_bash_globs s') \<and> (allow_bash_execute s \<longrightarrow> allow_bash_execute s')"

definition denies_script :: "shell_parser \<Rightarrow> permission_state \<Rightarrow> string \<Rightarrow> bool" where
  "denies_script parse s cmd =
     (case all_commands_from_script parse cmd of
        None \<Rightarrow> list_ex (matches_command_prefix cmd) (disallowed_bash_commands s)
      | Some cs \<Rightarrow> list_ex (\<lambda>ws. list_ex (matches_command_prefix (join_with '' '' ws)) (disallowed_bash_commands s))
          (commands_of cs))"

lemma denies_script_cong:
  "disallowed_bash_commands s' = disallowed_bash_commands s \<Longrightarrow> denies_script parse s' cmd = denies_script parse s cmd"
  by (simp only: denies_script_def)

lemma denying_key_None: "denying_key s ws = None \<longleftrightarrow> \<not> list_ex (matches_command_prefix (join_with '' '' ws)) (disallowed_bash_commands s)"
  by (auto simp: denying_key_def find_None_iff list_ex_iff)

lemma matched_grant_mono: "more_grants s s' \<Longrightarrow> matched_grant env s ws \<Longrightarrow> matched_grant env s' ws"
  by (auto simp: more_grants_def matched_grant_def Let_def list_ex_iff split: if_split_asm)

lemma must_prompt_antimono: "more_grants s s' \<Longrightarrow> must_prompt_surface s' ws \<Longrightarrow> must_prompt_surface s ws"
  by (auto simp: more_grants_def must_prompt_surface_def)

lemma admitted_mono: "more_grants s s' \<Longrightarrow> admitted env s honor ws \<Longrightarrow> admitted env s' honor ws"
  using matched_grant_mono must_prompt_antimono unfolding admitted_def by blast

lemma whole_script_grant_mono:
  "more_grants s s' \<Longrightarrow> whole_script_grant parse cmd cs s \<Longrightarrow> whole_script_grant parse cmd cs s'"
  by (auto simp: more_grants_def whole_script_grant_def split: if_split_asm list.split_asm)

lemma command_findings_antimono: "more_grants s s' \<Longrightarrow> command_findings s' ws \<subseteq> command_findings s ws"
  using must_prompt_antimono [of s s' ws] by (auto simp: command_findings_def)

lemma scan_findings_antimono: "more_grants s s' \<Longrightarrow> scan_findings s' cs \<subseteq> scan_findings s cs"
  by (unfold scan_findings_def, intro Un_mono UN_mono command_findings_antimono subset_refl)

lemma persisted_mono:
  "more_grants s s' \<Longrightarrow> persisted_bash_auto_allows s cmd pin \<Longrightarrow> persisted_bash_auto_allows s' cmd pin"
  by (auto simp: more_grants_def persisted_bash_auto_allows_def)

lemma dangerous_scan:
  "DangerousCommand \<in> scan_findings s cs \<longleftrightarrow> (\<exists>ws\<in>set (commands_of cs). is_dangerous_command_words ws)"
  by (auto simp: scan_findings_def raw_findings_def command_findings_def split: if_split_asm)

lemma floor_antimono:
  "a' \<subseteq> a \<Longrightarrow> constrains_broad_grant a' \<Longrightarrow> constrains_broad_grant a"
  by (auto simp: constrains_broad_grant_def)

lemma whole_script_grant_raw: "cmd \<in> set (allowed_bash_commands s) \<Longrightarrow> whole_script_grant parse cmd cs s"
  by (simp add: whole_script_grant_def)

definition is_allow :: "(decision \<times> string) option \<Rightarrow> bool" where
  "is_allow d = (case d of Some (Allow, _) \<Rightarrow> True | _ \<Rightarrow> False)"

lemma is_allow_simps [simp]:
  "is_allow (if b then x else y) = (if b then is_allow x else is_allow y)"
  "is_allow (grant_if b why) = b" "\<not> is_allow None" "\<not> is_allow (Some (Reject r, why))"
  by (simp_all add: is_allow_def grant_if_def)

lemma pre_decision_allow:
  "is_allow (bash_grant_pre_decision cmd e s pin opts) \<longleftrightarrow>
     (exact_grant e \<or> \<not> constrains_broad_grant (assessment e)) \<and>
     (case segments e of
        Seg_Reject _ \<Rightarrow> False
      | AutoAllow _ \<Rightarrow> honor_safe_lists opts \<or> all_segments_granted e
      | NeedsPrompts _ \<Rightarrow> allow_blanket opts \<and>
          (if conservative_blanket opts \<and> DangerousCommand \<in> assessment e then exact_grant e
           else persisted_bash_auto_allows s cmd pin)
      | Unparseable \<Rightarrow> allow_blanket opts \<and>
          (if conservative_blanket opts then exact_grant e else persisted_bash_auto_allows s cmd pin))"
  by (cases "segments e"; cases "exact_grant e"; cases "constrains_broad_grant (assessment e)")
    (simp_all add: bash_grant_pre_decision_def bash_request_floor_requires_prompt_def)

lemma pin_without_blanket:
  "\<not> allow_bash_execute s \<Longrightarrow>
     is_allow (bash_grant_pre_decision cmd e s pin opts) = is_allow (bash_grant_pre_decision cmd e s None opts)"
proof -
  assume "\<not> allow_bash_execute s"
  then have "persisted_bash_auto_allows s cmd pin = persisted_bash_auto_allows s cmd None"
    by (simp add: persisted_bash_auto_allows_def)
  then show ?thesis by (simp only: pre_decision_allow)
qed

lemma auto_allow_passes:
  "segments e = AutoAllow via \<Longrightarrow> assessment e = {} \<Longrightarrow> is_allow (bash_grant_pre_decision cmd e s pin PRE_CLASSIFIER)"
  by (simp add: pre_decision_allow constrains_broad_grant_def PRE_CLASSIFIER_def)

lemma more_grants_allow_more:
  assumes more: "more_grants s s'" and undenied: "\<not> denies_script parse s' cmd"
    and opts: "honor_safe_lists opts \<or> \<not> allow_blanket opts"
    and allow: "is_allow (bash_grant_pre_decision cmd (evaluate_bash env parse field cmd s honor) s pin opts)"
  shows "is_allow (bash_grant_pre_decision cmd (evaluate_bash env parse field cmd s' honor) s' pin opts)"
proof (cases "all_commands_from_script parse cmd")
  case None
  have "find (matches_command_prefix cmd) (disallowed_bash_commands s') = None"
    using undenied None by (auto simp: denies_script_def find_None_iff list_ex_iff)
  with allow more evaluate_undecomposed(1,2) [OF None, of env field s honor] evaluate_undecomposed(1,2) [OF None, of env field s' honor]
    evaluate_undecomposed(3) [OF None, of env field s' honor s]
  show ?thesis
    by (auto simp: pre_decision_allow more_grants_def persisted_bash_auto_allows_def split: option.split_asm if_split_asm)
next
  case (Some cs)
  then obtain t where t: "parse cmd = Some t" by (auto simp: all_commands_from_script_def split: option.split_asm)
  let ?e = "evaluate_bash env parse field cmd s honor" and ?e' = "evaluate_bash env parse field cmd s' honor"
  have "\<forall>ws\<in>set (commands_of cs). denying_key s' ws = None"
    using undenied Some by (auto simp: denies_script_def denying_key_None list_ex_iff)
  note e' = evaluate_undenied [OF Some t this refl, of env field honor]
  have "find (\<lambda>ws. denying_key s ws \<noteq> None) (commands_of cs) = None"
  proof (rule ccontr)
    assume "find (\<lambda>ws. denying_key s ws \<noteq> None) (commands_of cs) \<noteq> None"
    then obtain ws where "find (\<lambda>ws. denying_key s ws \<noteq> None) (commands_of cs) = Some ws" by blast
    from evaluate_denied [OF Some this, of env field honor] allow show False by (simp add: pre_decision_allow)
  qed
  then have "\<forall>ws\<in>set (commands_of cs). denying_key s ws = None" by (simp only: find_denying_None)
  note e = evaluate_undenied [OF Some t this refl, of env field honor]
  have sub: "assessment ?e' \<subseteq> assessment ?e" using e(4) e'(4) scan_findings_antimono [OF more, of cs] by blast
  have exact: "exact_grant ?e \<Longrightarrow> exact_grant ?e'" using e(2) e'(2) whole_script_grant_mono [OF more] by blast
  have dangerous: "DangerousCommand \<in> assessment ?e' \<longleftrightarrow> DangerousCommand \<in> assessment ?e"
    by (simp only: e(4) e'(4) Un_iff dangerous_not_base dangerous_scan)
  have floor: "exact_grant ?e' \<or> \<not> constrains_broad_grant (assessment ?e')"
    using allow floor_antimono [OF sub] exact by (auto simp: pre_decision_allow)
  have all: "\<forall>ws\<in>set (commands_of cs). admitted env s' honor ws" if "\<forall>ws\<in>set (commands_of cs). admitted env s honor ws"
    using that admitted_mono [OF more] by blast
  show ?thesis
  proof (cases "\<forall>ws\<in>set (commands_of cs). admitted env s honor ws")
    case True
    with allow e(1,3) have "honor_safe_lists opts \<or> (\<forall>ws\<in>set (commands_of cs). matched_grant env s ws)"
      by (simp add: pre_decision_allow)
    then have "honor_safe_lists opts \<or> all_segments_granted ?e'" using e'(3) matched_grant_mono [OF more] by blast
    with True floor all e'(1) show ?thesis by (simp add: pre_decision_allow)
  next
    case False
    from allow have "allow_blanket opts" and
      "if conservative_blanket opts \<and> DangerousCommand \<in> assessment ?e then exact_grant ?e else persisted_bash_auto_allows s cmd pin"
      unfolding pre_decision_allow e(1) if_not_P [OF False] by simp_all
    with dangerous exact persisted_mono [OF more]
    have "if conservative_blanket opts \<and> DangerousCommand \<in> assessment ?e' then exact_grant ?e' else persisted_bash_auto_allows s' cmd pin"
      by (simp split: if_split_asm)
    with floor e'(1) opts \<open>allow_blanket opts\<close> show ?thesis by (simp add: pre_decision_allow)
  qed
qed

section \<open>Properties\<close>

text \<open>
  C30: the evaluation of a script, with its loop, its early return and its accumulated flags, is the
  judgement of each command on its own: the first command that a remembered denial matches rejects
  the script; otherwise the script is allowed when every command is neither dangerous nor of a
  surface that must prompt and is granted or safe, and else the commands that are not are exactly
  the ones to ask about, in their order. A script that cannot be decomposed is matched as raw text
  against the denials only.
\<close>

theorem evaluation_is_per_command:
  "segments (evaluate_bash env parse field cmd s honor) =
     (case all_commands_from_script parse cmd of
        None \<Rightarrow>
          (case find (matches_command_prefix cmd) (disallowed_bash_commands s) of
             Some d \<Rightarrow> Seg_Reject (rejected_text d) | None \<Rightarrow> Unparseable)
      | Some cs \<Rightarrow>
          (case find (\<lambda>ws. denying_key s ws \<noteq> None) (commands_of cs) of
             Some ws \<Rightarrow> Seg_Reject (rejected_text (the (denying_key s ws)))
           | None \<Rightarrow>
               if list_all (admitted env s honor) (commands_of cs)
                 then AutoAllow (list_ex (matched_grant env s) (commands_of cs))
               else NeedsPrompts (map (join_with '' '')
                 (filter (\<lambda>ws. \<not> admitted env s honor ws) (commands_of cs)))))"
proof (cases "all_commands_from_script parse cmd")
  case None
  then show ?thesis by (simp add: evaluate_undecomposed)
next
  case (Some cs)
  then obtain t where t: "parse cmd = Some t" by (auto simp: all_commands_from_script_def split: option.split_asm)
  show ?thesis
  proof (cases "find (\<lambda>ws. denying_key s ws \<noteq> None) (commands_of cs)")
    case None
    then have "\<forall>ws\<in>set (commands_of cs). denying_key s ws = None" by (simp only: find_denying_None)
    from evaluate_undenied(1) [OF Some t this refl] show ?thesis
      by (simp only: Some None option.case list_all_iff list_ex_iff)
  next
    case (Some ws)
    with evaluate_denied \<open>all_commands_from_script parse cmd = Some cs\<close> show ?thesis by simp
  qed
qed



text \<open>The script \<open>foo x\<close>, and a session that remembers \<open>foo\<close>.\<close>

definition foo_tree :: tree where
  "foo_tree = script_tree 5 [command_node 0 5 [(''word'', 0, 3), (''word'', 4, 5)]]"

definition echo_parser :: shell_parser where
  "echo_parser s = (if s = ''foo x'' then Some foo_tree else None)"

definition foo_session :: permission_state where
  "foo_session = state_default\<lparr>allowed_bash_commands := [''foo'']\<rparr>"

definition foo_command :: plain_command where
  "foo_command = \<lparr>pc_words = [''foo'', ''x''], span_start = 0, span_end = 5\<rparr>"

lemma foo_parses: "all_commands_from_script echo_parser ''foo x'' = Some [foo_command]"
  by code_simp

lemma foo_commands: "commands_of [foo_command] = [[''foo'', ''x'']]"
  by code_simp

lemma foo_findings: "scan_findings s [foo_command] = {}"
proof -
  have "raw_findings foo_command = {}" by code_simp
  moreover have "\<not> is_dangerous_command_words [''foo'', ''x'']"
    "\<not> (kubectl_has_unsafe_flag [''foo'', ''x''] \<or> rg_has_pre_flag [''foo'', ''x'']
       \<or> ps_dumps_environment [''foo'', ''x''] \<or> git_words_have_unsafe_query_option [''foo'', ''x''])"
    by code_simp+
  ultimately show ?thesis
    by (simp add: scan_findings_def foo_commands command_findings_def must_prompt_surface_def del: commands_of_simps)
qed

lemma foo_base: "base_findings name_field (root_node foo_tree) ''foo x'' [foo_command] = {}"
proof -
  have "map written (shell_command_invocations (root_node foo_tree) ''foo x'') =
      [(map Literal [''foo'', ''x''], [''foo'', ''x''])]"
    by (simp add: foo_tree_def tree_eval)
  then obtain c where c: "shell_command_invocations (root_node foo_tree) ''foo x'' = [c]"
    "si_words c = map Literal [''foo'', ''x'']"
    by (auto simp: map_eq_Cons_conv)
  have "literal_words (map Literal [''foo'', ''x'']) = [''foo'', ''x'']"
    "command_words_write_paths [''foo'', ''x''] = []" "command_words_creation_paths [''foo'', ''x''] = []"
    "command_env_risk [''foo'', ''x''] = Env_Safe" by code_simp+
  moreover have "shell_redirect_targets name_field (root_node foo_tree) ''foo x'' = []"
    by (simp add: foo_tree_def tree_eval shell_redirect_targets_def redirect_at_def)
  moreover from this have "script_env_risk (root_node foo_tree) ''foo x'' [foo_command] = Env_Safe"
    using \<open>command_env_risk [''foo'', ''x''] = Env_Safe\<close>
    by (simp add: script_env_safe foo_command_def foo_tree_def script_tree_def command_node_def)
  ultimately show ?thesis
    using c by (simp add: base_findings_def command_write_paths_split_def Let_def map_filter_simps)
qed

lemma foo_evaluation:
  assumes "disallowed_bash_commands s = []" and "admitted sample_env s True [''foo'', ''x'']"
  shows "segments (evaluate_bash sample_env echo_parser name_field ''foo x'' s True) = AutoAllow (matched_grant sample_env s [''foo'', ''x''])"
    and "exact_grant (evaluate_bash sample_env echo_parser name_field ''foo x'' s True) \<longleftrightarrow> whole_script_grant echo_parser ''foo x'' [foo_command] s"
    and "assessment (evaluate_bash sample_env echo_parser name_field ''foo x'' s True) = {}"
proof -
  have t: "echo_parser ''foo x'' = Some foo_tree" by (simp add: echo_parser_def)
  have "\<forall>ws\<in>set (commands_of [foo_command]). denying_key s ws = None" by (simp add: denying_key_def assms(1))
  note e = evaluate_undenied [OF foo_parses t this refl, of sample_env name_field True]
  from e(1,2,4) assms(2) show
    "segments (evaluate_bash sample_env echo_parser name_field ''foo x'' s True) = AutoAllow (matched_grant sample_env s [''foo'', ''x''])"
    "exact_grant (evaluate_bash sample_env echo_parser name_field ''foo x'' s True) \<longleftrightarrow> whole_script_grant echo_parser ''foo x'' [foo_command] s"
    "assessment (evaluate_bash sample_env echo_parser name_field ''foo x'' s True) = {}"
    by (simp_all add: foo_commands foo_findings foo_base del: commands_of_simps)
qed

lemma foo_is_allowed:
  "is_allow (bash_grant_pre_decision ''foo x'' (evaluate_bash sample_env echo_parser name_field ''foo x'' foo_session True)
     foo_session None PRE_CLASSIFIER)"
  "\<not> exact_grant (evaluate_bash sample_env echo_parser name_field ''foo x'' foo_session True)"
proof -
  have "disallowed_bash_commands foo_session = []" "admitted sample_env foo_session True [''foo'', ''x'']"
    "\<not> whole_script_grant echo_parser ''foo x'' [foo_command] foo_session" by code_simp+
  with foo_evaluation [of foo_session] show
    "is_allow (bash_grant_pre_decision ''foo x'' (evaluate_bash sample_env echo_parser name_field ''foo x'' foo_session True)
       foo_session None PRE_CLASSIFIER)"
    "\<not> exact_grant (evaluate_bash sample_env echo_parser name_field ''foo x'' foo_session True)"
    using auto_allow_passes by blast+
qed


text \<open>
  Taking over the grants of another session, as a fork of a session does, never turns a request
  that was allowed into a prompt: with the merged grants it is still allowed, at every point where
  the manager consults them, unless a denial of the merged state matches.
\<close>

theorem merged_grants_still_allow:
  assumes "is_allow (bash_grant_pre_decision cmd (evaluate_bash env parse field cmd s honor) s pin opts)"
    and "opts = PRE_CLASSIFIER \<or> opts = ASK_FLOOR_REMEMBER \<or> opts = post_classify forced"
    and "\<not> denies_script parse (merge_grants_from s other) cmd"
  shows "is_allow (bash_grant_pre_decision cmd (evaluate_bash env parse field cmd (merge_grants_from s other) honor)
    (merge_grants_from s other) pin opts)"
proof -
  have "set xs \<subseteq> set (Grant_Scope.extend xs ys)" for xs ys :: "string list"
    unfolding Grant_Scope.extend_def by (induction ys arbitrary: xs) (simp, fastforce simp: List.insert_def)
  then have "more_grants s (merge_grants_from s other)" by (simp add: more_grants_def merge_grants_from_def)
  moreover have "honor_safe_lists opts \<or> \<not> allow_blanket opts"
    using assms(2) by (auto simp: PRE_CLASSIFIER_def ASK_FLOOR_REMEMBER_def post_classify_def)
  ultimately show ?thesis by (rule more_grants_allow_more [OF _ assms(3) _ assms(1)])
qed

lemma merged_grants_still_allow_witness:
  "is_allow (bash_grant_pre_decision ''foo x''
     (evaluate_bash sample_env echo_parser name_field ''foo x'' (merge_grants_from foo_session state_default) True)
     (merge_grants_from foo_session state_default) None PRE_CLASSIFIER)"
proof (rule merged_grants_still_allow [OF foo_is_allowed(1)])
  show "\<not> denies_script echo_parser (merge_grants_from foo_session state_default) ''foo x''"
    by (simp add: denies_script_def foo_parses foo_commands merge_grants_from_def foo_session_def state_default_def
        Grant_Scope.extend_def list_ex_iff del: commands_of_simps)
qed simp

text \<open>
  C33: the "Always allow" row that a prompt offers takes effect. The manager offers it only when the
  answer would allow the same script in a fresh session; it then does so in every session, whatever
  that remembers already, unless one of its denials matches.
\<close>

theorem offered_row_takes_effect:
  assumes "always_allow_row_is_effective env parse field cmd"
    and "primary_command_from_script parse cmd = Some h"
    and "s' = persist_bash_always_allow parse s cmd
          (join_with '' '' (take (default_always_allow_scope (highlighted_words h)) (highlighted_words h)))"
    and "\<not> denies_script parse s cmd"
  shows "is_allow (bash_grant_pre_decision cmd (evaluate_bash env parse field cmd s' True) s' pin PRE_CLASSIFIER)"
proof -
  let ?label = "join_with '' '' (take (default_always_allow_scope (highlighted_words h)) (highlighted_words h))"
  let ?scratch = "persist_bash_always_allow parse state_default cmd ?label"
  from assms(2) have fields: "set (allowed_bash_commands ?scratch) \<subseteq> set (allowed_bash_commands s')
      \<and> allowed_bash_globs ?scratch = [] \<and> \<not> allow_bash_execute ?scratch
      \<and> disallowed_bash_commands s' = disallowed_bash_commands s"
    unfolding assms(3) by (auto simp: persist_bash_always_allow_def state_default_def Let_def)
  then have more: "more_grants ?scratch s'" by (simp add: more_grants_def)
  from fields have "disallowed_bash_commands s' = disallowed_bash_commands s" by blast
  with assms(4) have undenied: "\<not> denies_script parse s' cmd" by (simp add: denies_script_cong [of s' s])
  from assms(1,2) have
    "is_allow (bash_grant_pre_decision cmd (evaluate_bash env parse field cmd ?scratch True) ?scratch None PRE_CLASSIFIER)"
    by (simp add: always_allow_row_is_effective_def is_allow_def Let_def split: if_split_asm)
  with fields have
    "is_allow (bash_grant_pre_decision cmd (evaluate_bash env parse field cmd ?scratch True) ?scratch pin PRE_CLASSIFIER)"
    using pin_without_blanket [of ?scratch] by blast
  from more_grants_allow_more [OF more undenied _ this] show ?thesis by (simp add: PRE_CLASSIFIER_def)
qed

lemma offered_row_takes_effect_witness:
  "is_allow (bash_grant_pre_decision ''foo x''
     (evaluate_bash sample_env echo_parser name_field ''foo x'' (persist_bash_always_allow echo_parser state_default ''foo x'' ''foo x'') True)
     (persist_bash_always_allow echo_parser state_default ''foo x'' ''foo x'') None PRE_CLASSIFIER)"
proof -
  have primary: "primary_command_from_script echo_parser ''foo x'' =
      Some \<lparr>ch_prefix = [], highlighted_words = [''foo'', ''x''], ch_suffix = []\<rparr>" by code_simp
  have scope: "join_with '' '' (take (default_always_allow_scope [''foo'', ''x'']) [''foo'', ''x'']) = ''foo x''" by code_simp
  let ?s = "persist_bash_always_allow echo_parser state_default ''foo x'' ''foo x''"
  have persists: "always_allow_scope_persists echo_parser
      \<lparr>ch_prefix = [], highlighted_words = [''foo'', ''x''], ch_suffix = []\<rparr> (default_always_allow_scope [''foo'', ''x''])"
    by code_simp
  have "list_ex (\<lambda>n. words_join_unambiguously echo_parser (take n [''foo'', ''x''])
      \<and> join_with '' '' (take n [''foo'', ''x'']) = ''foo x'')
      [minimum_always_allow_scope [''foo'', ''x'']..<length [''foo'', ''x''] + 1]" by code_simp
  then have s: "?s = state_default\<lparr>allowed_bash_commands := [''foo x'']\<rparr>"
    by (simp only: persist_bash_always_allow_def primary option.case command_highlights.simps Let_def if_True)
      (simp add: state_default_def)
  have clear: "disallowed_bash_commands ?s = []" "admitted sample_env ?s True [''foo'', ''x'']"
    unfolding s by code_simp+
  have "is_allow (bash_grant_pre_decision ''foo x'' (evaluate_bash sample_env echo_parser name_field ''foo x'' ?s True) ?s None PRE_CLASSIFIER)"
    by (rule auto_allow_passes [OF foo_evaluation(1) [OF clear] foo_evaluation(3) [OF clear]])
  then have row: "always_allow_row_is_effective sample_env echo_parser name_field ''foo x''"
    by (simp only: always_allow_row_is_effective_def primary option.case command_highlights.simps scope persists
        is_allow_def Let_def not_True_eq_False if_False)
  have "\<not> denies_script echo_parser state_default ''foo x''"
    by (simp add: denies_script_def foo_parses foo_commands state_default_def list_ex_iff del: commands_of_simps)
  from offered_row_takes_effect [OF row primary refl this] show ?thesis by (simp add: scope)
qed

lemma denies_domain_iff:
  "denies_domain key d \<longleftrightarrow> d \<noteq> [] \<and> (key = d \<or> (\<exists>sub. sub \<noteq> [] \<and> key = sub @ ''.'' @ d))"
proof -
  have "length d + 1 < length key \<and> suffix d key \<and> key ! (length key - length d - 1) = CHR ''.''
      \<longleftrightarrow> (\<exists>sub. sub \<noteq> [] \<and> key = sub @ ''.'' @ d)"
  proof
    assume l: "length d + 1 < length key \<and> suffix d key \<and> key ! (length key - length d - 1) = CHR ''.''"
    then obtain us where key: "key = us @ d" by (auto elim: suffixE)
    with l obtain us' c where "us = us' @ [c]" by (cases us rule: rev_cases) auto
    with l key show "\<exists>sub. sub \<noteq> [] \<and> key = sub @ ''.'' @ d" by (auto simp: nth_append intro!: exI [of _ us'])
  qed (auto simp: suffix_def nth_append)
  then show ?thesis unfolding denies_domain_def by blast
qed

text \<open>
  C34: a remembered denial of a site wins over everything else: whatever the static list of the
  configuration and the remembered grants admit, the session rejects a fetch exactly when the host
  of its address, without regard to case and trailing dots, is a denied site or ends in a dot and a
  denied site.
\<close>

theorem denied_sites_stay_denied:
  "(\<exists>why. session_grant_pre_decision env (WebFetch u) e s edits matcher honor_static pin = Some (Reject why, SESSION_DENY))
   \<longleftrightarrow> (\<exists>parsed host. url_parse env u = Some parsed \<and> host_str parsed = Some host
        \<and> (\<exists>d\<in>set (disallowed_web_fetch_domains s). d \<noteq> [] \<and>
            (web_fetch_deny_key env host = d \<or> (\<exists>sub. sub \<noteq> [] \<and> web_fetch_deny_key env host = sub @ ''.'' @ d))))"
proof (cases "url_parse env u")
  case (Some parsed)
  show ?thesis
  proof (cases "host_str parsed")
    case None
    with Some show ?thesis
      by (auto simp: session_grant_pre_decision_def web_fetch_deny_pre_decision_def grant_if_def)
  next
    case (Some host)
    define ds where "ds = disallowed_web_fetch_domains s"
    have "(\<exists>d. denied_web_fetch_domain env host ds = Some d)
        \<longleftrightarrow> (\<exists>d\<in>set ds. denies_domain (web_fetch_deny_key env host) d)"
      by (auto simp: denied_web_fetch_domain_def Let_def find_Some_iff)
        (metis find_None_iff find_Some_iff option.exhaust)
    then have key: "(\<exists>d. denied_web_fetch_domain env host ds = Some d) \<longleftrightarrow>
        (\<exists>d\<in>set ds. d \<noteq> [] \<and>
            (web_fetch_deny_key env host = d \<or> (\<exists>sub. sub \<noteq> [] \<and> web_fetch_deny_key env host = sub @ ''.'' @ d)))"
      by (simp only: denies_domain_iff)
    have "(\<exists>why. session_grant_pre_decision env (WebFetch u) e s edits matcher honor_static pin = Some (Reject why, SESSION_DENY))
        \<longleftrightarrow> (\<exists>d. denied_web_fetch_domain env host ds = Some d)"
      by (cases "denied_web_fetch_domain env host ds")
        (simp_all add: session_grant_pre_decision_def web_fetch_deny_pre_decision_def grant_if_def Some
          \<open>url_parse env u = Some parsed\<close> ds_def [symmetric])
    also note key
    finally show ?thesis unfolding ds_def using Some \<open>url_parse env u = Some parsed\<close> by simp
  qed
qed (simp add: session_grant_pre_decision_def)

end
