(* ===== verification/Shell_Path_Props.thy ===== *)
theory Shell_Path_Props
  imports Shell_Files Policy_Props
begin

text \<open>
  The two ways of reading a path agree: what \<open>normalize_shell_path\<close> makes of an operand leads to the
  place that the file tools see for the same text, as long as the text has no quotes, no backslash,
  no colon, no tilde and no component \<open>c\<close> (which the gate reads as a drive).
\<close>

section \<open>Plain spellings\<close>

definition plain_segment :: "string \<Rightarrow> bool" where
  "plain_segment s \<longleftrightarrow> s \<noteq> ''c'' \<and> \<not> prefix ''~'' s
     \<and> list_all (\<lambda>c. c \<noteq> dquote \<and> c \<noteq> squote \<and> c \<noteq> backslash \<and> c \<noteq> CHR '':'') s"

definition plain_spelling :: "string \<Rightarrow> bool" where
  "plain_spelling p \<longleftrightarrow> list_all plain_segment (split_on slash p)"

lemma plain_segment_Nil [simp]: "plain_segment []"
  by (simp add: plain_segment_def)

lemma split_on_chars: "c \<in> set p \<Longrightarrow> c = sep \<or> (\<exists>s\<in>set (split_on sep p). c \<in> set s)"
  by (induction sep p rule: split_on.induct) (auto split: list.splits if_splits)

lemma plain_char:
  assumes "plain_spelling p" and "c \<in> set p"
  shows "c \<noteq> dquote \<and> c \<noteq> squote \<and> c \<noteq> backslash \<and> c \<noteq> CHR '':''"
proof -
  have "slash \<noteq> dquote" "slash \<noteq> squote" "slash \<noteq> backslash" "slash \<noteq> CHR '':''"
    by (simp_all add: slash_def dquote_def squote_def backslash_def)
  then show ?thesis
    using split_on_chars [OF assms(2), of slash] assms(1)
    by (auto simp: plain_spelling_def plain_segment_def list_all_iff)
qed

lemma plain_no_c: "plain_spelling p \<Longrightarrow> \<not> prefix ''/c/'' p"
  using split_on_append [of slash "''c''"]
  by (auto simp: plain_spelling_def plain_segment_def prefix_def slash_def)

lemma plain_raw: "plain_spelling p \<Longrightarrow> normalize_shell_path_raw p = p"
proof -
  assume p: "plain_spelling p"
  let ?q = "\<lambda>c. c = dquote \<or> c = squote"
  have none: "list_all (\<lambda>c. \<not> ?q c \<and> c \<noteq> backslash) p"
    using plain_char [OF p] by (auto simp: list_all_iff)
  have "dropWhile ?q xs = xs" if "list_all (\<lambda>c. \<not> ?q c \<and> c \<noteq> backslash) xs" for xs
    using that by (cases xs) auto
  from this [OF none] this [of "rev p"] none
  have "rev (dropWhile ?q (rev (dropWhile ?q p))) = p" by simp
  moreover have "map (\<lambda>c. if c = backslash then CHR ''/'' else c) p = p"
    using none by (intro map_idI) (auto simp: list_all_iff)
  ultimately show ?thesis
    using plain_no_c [OF p] by (simp add: normalize_shell_path_raw_def Let_def strip_prefix_def)
qed

lemma plain_no_drive: "plain_spelling p \<Longrightarrow> \<not> drive_prefixed p"
  using plain_char [of p] by (auto simp: drive_prefixed_def split: list.splits)

lemma plain_no_tilde: "plain_spelling p \<Longrightarrow> \<not> prefix ''~'' p"
proof (rule notI)
  assume p: "plain_spelling p" "prefix ''~'' p"
  then obtain r where "p = CHR ''~'' # r" by (auto simp: prefix_def)
  then have "prefix ''~'' (hd (split_on slash p))" "split_on slash p \<noteq> []"
    by (auto simp: slash_def split: list.split)
  with p(1) show False by (auto simp: plain_spelling_def plain_segment_def list_all_iff)
qed

lemma plain_absolute: "plain_spelling p \<Longrightarrow> is_absolute_shell_path p = is_absolute p"
  using plain_no_drive [of p] plain_no_tilde [of p]
  by (auto simp: is_absolute_shell_path_def is_absolute_def slash_def prefix_def)

lemma plain_not_tilde_path: "plain_spelling p \<Longrightarrow> \<not> is_tilde_path p"
proof (rule notI)
  assume p: "plain_spelling p" "is_tilde_path p"
  then obtain n cs where n: "components p = Normal n # cs" "prefix ''~'' n"
    by (auto simp: is_tilde_path_def split: list.splits path_component.splits)
  then have "Normal n \<in> set (List.map_filter component_of (split_on slash p))"
    by (auto simp: components_def path_start_def split: if_splits)
  then obtain s where "s \<in> set (split_on slash p)" "component_of s = Some (Normal n)"
    by (auto simp: List.map_filter_def)
  then have "n \<in> set (split_on slash p)" by (auto simp: component_of_def split: if_splits)
  with p(1) n(2) show False by (auto simp: plain_spelling_def plain_segment_def list_all_iff)
qed

section \<open>The normal form of the gate\<close>

definition lex_segments :: "string \<Rightarrow> string list" where
  "lex_segments p = foldl (lex_step (is_absolute p)) [] (split_on slash p)"

lemma plain_normalize:
  "plain_spelling p \<Longrightarrow>
     normalize_shell_path p = (if is_absolute p then [slash] else []) @ join_with [slash] (lex_segments p)"
  using plain_no_drive [of p]
  by (simp add: normalize_shell_path_def plain_raw lexical_normalize_def lex_segments_def is_absolute_def slash_def Let_def)

lemma lex_step_all:
  "list_all P out \<Longrightarrow> (seg \<noteq> [] \<and> seg \<noteq> ''.'' \<Longrightarrow> P seg) \<Longrightarrow> list_all P (lex_step a out seg)"
  by (auto simp: lex_step_def list_all_iff dest: in_set_butlastD)

lemma piece_intro: "slash \<notin> set seg \<Longrightarrow> seg \<noteq> [] \<and> seg \<noteq> ''.'' \<Longrightarrow> piece seg"
  by (simp add: piece_def component_of_def)

lemma lex_step_piece: "list_all piece out \<Longrightarrow> slash \<notin> set seg \<Longrightarrow> list_all piece (lex_step a out seg)"
  by (intro lex_step_all piece_intro) simp_all

lemma lex_step_no_parent: "''..'' \<notin> set out \<Longrightarrow> ''..'' \<notin> set (lex_step True out seg)"
  by (auto simp: lex_step_def dest: in_set_butlastD)

lemma lex_foldl:
  assumes "list_all (\<lambda>s. slash \<notin> set s \<and> plain_segment s) segs" and "list_all piece out" and "list_all plain_segment out"
  shows "list_all piece (foldl (lex_step a) out segs) \<and> list_all plain_segment (foldl (lex_step a) out segs)"
  using assms
proof (induction segs arbitrary: out)
  case (Cons s segs)
  from Cons.prems have "list_all piece (lex_step a out s)" "list_all plain_segment (lex_step a out s)"
    by (auto intro: lex_step_piece lex_step_all)
  with Cons.prems Cons.IH [of "lex_step a out s"] show ?case by (simp only: list.pred_inject foldl_Cons)
qed simp

lemma lex_foldl_no_parent: "''..'' \<notin> set out \<Longrightarrow> ''..'' \<notin> set (foldl (lex_step True) out segs)"
  by (induction segs arbitrary: out) (simp_all add: lex_step_no_parent)

lemma lex_segments_plain:
  assumes "plain_spelling p"
  shows "list_all piece (lex_segments p)" and "list_all plain_segment (lex_segments p)"
    and "is_absolute p \<Longrightarrow> ''..'' \<notin> set (lex_segments p)"
proof -
  have "list_all (\<lambda>s. slash \<notin> set s \<and> plain_segment s) (split_on slash p)"
    using assms split_on_sep_free [of _ slash p] by (auto simp: plain_spelling_def list_all_iff)
  from lex_foldl [OF this] show "list_all piece (lex_segments p)" "list_all plain_segment (lex_segments p)"
    by (simp_all add: lex_segments_def)
  show "is_absolute p \<Longrightarrow> ''..'' \<notin> set (lex_segments p)"
    by (simp add: lex_segments_def lex_foldl_no_parent)
qed

text \<open>Walking what the normal form keeps leads where walking the segments leads.\<close>

abbreviation walk :: "string list \<Rightarrow> string list \<Rightarrow> string list" where
  "walk d segs \<equiv> foldl descend d (List.map_filter component_of segs)"

lemma walk_simps [simp]:
  "walk d [] = d" "walk d (as @ bs) = walk (walk d as) bs"
  "walk d (s # segs) = walk (case component_of s of None \<Rightarrow> d | Some c \<Rightarrow> descend d c) segs"
  by (simp_all add: map_filter_append map_filter_simps split: option.split)

lemma walk_Cons: "walk d (s # segs) = walk (walk d [s]) segs"
  by (cases "component_of s") (simp_all add: map_filter_simps)

lemma walk_names: "list_all piece out \<Longrightarrow> ''..'' \<notin> set out \<Longrightarrow> walk d out = d @ out"
  by (induction out arbitrary: d) (auto simp: component_of_piece)

lemma walk_lex_step:
  assumes "list_all piece out" and "a \<Longrightarrow> d = [] \<and> ''..'' \<notin> set out"
  shows "walk d (lex_step a out s) = walk (walk d out) [s]"
proof (cases "s = ''..'' \<and> (out \<noteq> [] \<and> last out \<noteq> ''..'')")
  case True
  then obtain l where out: "out = butlast out @ [l]" "l \<noteq> ''..''" by (metis append_butlast_last_id)
  then have "piece l" using assms(1) by (metis list_all_append list.pred_inject(2))
  then have "walk d (butlast out @ [l]) = walk d (butlast out) @ [l]"
    using out(2) by (simp add: component_of_piece)
  then have "walk d out = walk d (butlast out) @ [l]" using out(1) by simp
  with True show ?thesis by (simp add: lex_step_def)
next
  case False
  show ?thesis
  proof (cases "s = ''..'' \<and> a")
    case True
    with assms(2) have "d = []" and no_parent: "''..'' \<notin> set out" by blast+
    have "out = []"
    proof (rule ccontr)
      assume "out \<noteq> []"
      with True False have "''..'' \<in> set out" using last_in_set by metis
      with no_parent show False ..
    qed
    with True \<open>d = []\<close> show ?thesis by (simp add: lex_step_def)
  next
    case False2: False
    with False show ?thesis by (auto simp: lex_step_def component_of_def)
  qed
qed

lemma walk_lex_foldl:
  assumes "list_all (\<lambda>s. slash \<notin> set s) segs" and "list_all piece out" and "a \<Longrightarrow> d = [] \<and> ''..'' \<notin> set out"
  shows "walk d (foldl (lex_step a) out segs) = walk (walk d out) segs"
  using assms
proof (induction segs arbitrary: out)
  case (Cons s segs)
  have "list_all piece (lex_step a out s)" using Cons.prems by (simp add: lex_step_piece)
  moreover have "d = [] \<and> ''..'' \<notin> set (lex_step a out s)" if a
    using Cons.prems(3) [OF that] lex_step_no_parent [of out s] that by simp
  ultimately have "walk d (foldl (lex_step a) (lex_step a out s) segs) = walk (walk d (lex_step a out s)) segs"
    by (intro Cons.IH) (use Cons.prems(1) in simp)
  also have "walk d (lex_step a out s) = walk (walk d out) [s]"
    using Cons.prems(2,3) by (intro walk_lex_step)
  finally show ?case unfolding foldl_Cons by (rule trans) (rule walk_Cons [symmetric])
qed simp

section \<open>The same place\<close>

lemma split_absolute: "split_on slash (slash # q) = [] # split_on slash q"
  by (simp split: list.split)

lemma walk_normal_text:
  assumes "list_all piece segs"
  shows "walk d (split_on slash ((if a then [slash] else []) @ join_with [slash] segs)) = walk d segs"
proof -
  have "walk d (split_on slash (join_with [slash] segs)) = walk d segs"
  proof (cases segs)
    case (Cons s rest)
    have "split_on slash (join_with [slash] segs) = segs"
      using assms by (intro split_join) (auto simp: Cons list_all_iff piece_def)
    then show ?thesis by simp
  qed (simp add: map_filter_simps)
  then show ?thesis by (cases a) (simp_all only: if_True if_False append_Nil append_Cons split_absolute, simp add: map_filter_simps)
qed

lemma normal_text_absolute:
  assumes "list_all piece segs"
  shows "is_absolute ((if a then [slash] else []) @ join_with [slash] segs) = a"
proof (cases segs)
  case (Cons s rest)
  with assms piece_ends [of s] show ?thesis by (cases s) (auto simp: is_absolute_def join_with_Cons)
qed (auto simp: is_absolute_def)

lemma lex_walk:
  assumes "plain_spelling p" and "is_absolute p \<Longrightarrow> d = []"
  shows "walk d (lex_segments p) = walk d (split_on slash p)"
proof -
  have "list_all (\<lambda>s. slash \<notin> set s) (split_on slash p)"
    using split_on_sep_free [of _ slash p] by (auto simp: list_all_iff)
  from walk_lex_foldl [OF this, of "[]" "is_absolute p" d] assms(2) show ?thesis
    by (simp add: lex_segments_def map_filter_simps)
qed

lemma normalized_shell_place:
  assumes "plain_spelling p"
  shows "is_absolute (normalize_shell_path p) = is_absolute p"
    and "place d (normalize_shell_path p) = place d p"
proof -
  note segs = lex_segments_plain [OF assms] and n = plain_normalize [OF assms]
  show abs: "is_absolute (normalize_shell_path p) = is_absolute p"
    unfolding n by (rule normal_text_absolute [OF segs(1)])
  have "walk (if is_absolute p then [] else d) (split_on slash (normalize_shell_path p)) =
      walk (if is_absolute p then [] else d) (split_on slash p)"
    unfolding n walk_normal_text [OF segs(1)] by (rule lex_walk [OF assms]) simp
  then show "place d (normalize_shell_path p) = place d p"
    by (simp only: place_split abs)
qed

lemma normalized_shell_plain:
  assumes "plain_spelling p"
  shows "plain_spelling (normalize_shell_path p)"
proof -
  note segs = lex_segments_plain [OF assms]
  have "list_all plain_segment (split_on slash (join_with [slash] (lex_segments p)))"
  proof (cases "lex_segments p = []")
    case False
    then have "split_on slash (join_with [slash] (lex_segments p)) = lex_segments p"
      using segs(1) by (intro split_join) (auto simp: list_all_iff piece_def)
    with segs(2) show ?thesis by simp
  qed simp
  then show ?thesis
    by (auto simp: plain_spelling_def plain_normalize [OF assms] split_absolute simp del: split_on.simps)
qed

text \<open>An absolute path gets the very text that the file tools compare.\<close>

lemma normalized_shell_absolute:
  assumes "plain_spelling p" and "is_absolute p"
  shows "normalize_shell_path p = normalize_lexically p"
proof -
  note segs = lex_segments_plain [OF assms(1)]
  have "walk [] (lex_segments p) = place [] p"
    using lex_walk [OF assms(1), of "[]"] assms(2) by (simp only: place_split if_True)
  with walk_names [OF segs(1) segs(3) [OF assms(2)], of "[]"] have "lex_segments p = place [] p" by simp
  with assms show ?thesis by (simp add: plain_normalize normalized_absolute_text(1))
qed

section \<open>The same verdict\<close>

lemma rule_scan_same_forms:
  assumes "path_match_forms p cwd = path_match_forms q cwd"
  shows "rule_scan env (shell_access md p) cwd rs a b = rule_scan env (shell_access md q) cwd rs a b"
proof -
  have "tool_filter_matches (shell_access md p) tf = tool_filter_matches (shell_access md q) tf" for tf
    by (cases tf) (simp_all add: shell_access_def)
  moreover have "pattern_matches env (shell_access md p) r m cwd = pattern_matches env (shell_access md q) r m cwd" for r m
    using assms by (simp add: pattern_matches_def shell_access_def path_context_matches_def split: option.split)
  ultimately show ?thesis
    by (induction rs arbitrary: a b) (auto split: rule_action.split)
qed

lemma lexical_same_forms:
  "path_match_forms p cwd = path_match_forms q cwd \<Longrightarrow>
     evaluate_lexical_with_cwd env parse pol (shell_access md p) cwd =
     evaluate_lexical_with_cwd env parse pol (shell_access md q) cwd"
  unfolding evaluate_lexical_with_cwd_def rule_scan_same_forms [of p cwd q]
  by (auto simp: shell_access_def split: sum.split)

lemma plain_join:
  assumes "is_absolute cwd" and "plain_spelling cwd" and "plain_spelling p"
  shows "plain_spelling (path_join cwd p)"
proof (cases "is_absolute p")
  case False
  obtain b where join: "path_join cwd p = b @ slash # p" and c: "cwd = b \<or> cwd = b @ [slash]"
    using assms(1) False by (rule path_join_split)
  have "plain_spelling b"
    using c assms(2) split_on_append2 [of slash b "[]"] by (auto simp: plain_spelling_def)
  with assms(3) show ?thesis by (simp add: join plain_spelling_def split_on_append2)
qed (simp add: path_join_def path_push_def assms)

lemma plain_match_string: "plain_spelling p \<Longrightarrow> path_match_string p = p"
  using plain_char [of p] by (auto simp: path_match_string_def intro!: map_idI)

lemma combined_from: "combine_decisions a b = Some d \<Longrightarrow> a = Some d \<or> b = Some d"
  using decisions.one_of [of a b] by auto

text \<open>What the gate makes of an operand is no weaker than what the file tools make of the path.\<close>

lemma operand_as_strict:
  assumes cwd: "is_absolute cwd" "plain_spelling cwd" and p: "plain_spelling p"
    and d: "evaluate_with_cwd env parse pol (shell_access md p) (Some cwd) = Some d"
  shows "d = Reject why \<Longrightarrow> 4 \<le> height gate_rank (evaluate_shell_path env parse pol p cwd md False)"
    and "d = Ask \<Longrightarrow> 2 \<le> height gate_rank (evaluate_shell_path env parse pol p cwd md False)"
proof -
  let ?g = "evaluate_shell_path env parse pol p cwd md False"
  let ?esc = "escalate_access env parse pol (Some cwd)" and ?raw = "path_join cwd p"
  let ?lexical = "\<lambda>q. evaluate_lexical_with_cwd env parse pol (shell_access md q) (Some cwd)"
  let ?follow = "follow_absolute_symlink (files env) ?raw (normalize_lexically ?raw)"
  have raw: "is_absolute ?raw" "plain_spelling ?raw"
    using place_join(1) [OF cwd(1), of p] plain_join [OF cwd p]
    by (cases "is_absolute p", simp_all add: path_join_def path_push_def)
  have to_cwd: "join_to_cwd p (Some cwd) = ?raw"
    by (simp add: join_to_cwd_def path_join_def path_push_def)
  have "place (place [] cwd) (normalize_shell_path p) = place (place [] cwd) p"
    by (rule normalized_shell_place(2) [OF p])
  then have forms: "path_match_forms (normalize_shell_path p) (Some cwd) = path_match_forms p (Some cwd)"
    using plain_not_tilde_path [OF p] plain_not_tilde_path [OF normalized_shell_plain [OF p]]
    by (simp add: path_forms_by_place [OF cwd(1)])
  have absolute: "(if is_absolute p then normalize_shell_path p else normalize_shell_path (path_join cwd (normalize_shell_path p)))
      = normalize_lexically ?raw"
  proof (cases "is_absolute p")
    case True
    then show ?thesis using normalized_shell_absolute [OF p] by (simp add: path_join_def path_push_def)
  next
    case False
    have abs: "\<not> is_absolute (normalize_shell_path p)" using False normalized_shell_place(1) [OF p] by simp
    have "normalize_shell_path (path_join cwd (normalize_shell_path p)) = normalize_lexically (path_join cwd (normalize_shell_path p))"
      using place_join(1) [OF cwd(1) abs] plain_join [OF cwd normalized_shell_plain [OF p]]
      by (intro normalized_shell_absolute)
    also have "\<dots> = normalize_lexically ?raw"
      using place_join [OF cwd(1) abs] place_join [OF cwd(1) False]
      by (simp add: normalized_absolute_text(1) normalized_shell_place(2) [OF p])
    finally show ?thesis using False by simp
  qed
  have g: "?g = combine_gate_decisions (?esc (shell_access md (normalize_shell_path p)))
      (combine_gate_decisions (?esc (shell_access md (normalize_lexically ?raw)))
        (case ?follow of Target resolved \<Rightarrow> ?esc (shell_access md resolved)
         | Unresolvable \<Rightarrow> Some AskFailClosed | No_Follow \<Rightarrow> None))"
    using absolute plain_raw [OF p] plain_raw [OF raw(2)] plain_absolute [OF p]
      plain_absolute [OF normalized_shell_plain [OF p]] normalized_shell_place(1) [OF p]
    by (cases "is_absolute p") (simp_all add: evaluate_shell_path_def Let_def ask_if_def gates.unit path_join_def path_push_def)
  have tool: "evaluate_with_cwd env parse pol (shell_access md p) (Some cwd) =
      (case ?follow of
         Target resolved \<Rightarrow> combine_decisions (?lexical p)
           (case ?lexical resolved of Some (Reject why) \<Rightarrow> Some (Reject why) | Some Ask \<Rightarrow> Some Ask | _ \<Rightarrow> None)
       | Unresolvable \<Rightarrow>
           if native_path_restrictions_apply pol (shell_access md p) then combine_decisions (?lexical p) (Some Ask) else ?lexical p
       | No_Follow \<Rightarrow> ?lexical p)"
    using plain_not_tilde_path [OF p] raw plain_match_string [OF raw(2)]
      plain_match_string [OF normalized_shell_plain [OF raw(2)]] normalized_shell_absolute [OF raw(2,1)]
    by (simp add: evaluate_with_cwd_def evaluate_with_cwd_details_def shell_access_def raw_absolute_tool_path_def
        absolute_normalized_path_def to_cwd Let_def split: symlink_follow.split)
  have esc: "height gate_rank (?esc (shell_access md q)) =
      (case ?lexical q of Some (Reject why) \<Rightarrow> 4 | Some Ask \<Rightarrow> 3 | _ \<Rightarrow> 0)" for q
    by (simp add: escalate_access_def split: option.split decision.split)
  have above: "(\<exists>why. d = Reject why) \<or> d = Ask \<Longrightarrow> ?lexical p = Some d \<or>
      (\<exists>r. ?follow = Target r \<and> ?lexical r = Some d) \<or> (?follow = Unresolvable \<and> d = Ask)"
    using d unfolding tool
    by (cases ?follow) (auto dest!: combined_from split: if_splits option.splits decision.splits)
  have here: "height gate_rank (?esc (shell_access md p)) \<le> height gate_rank ?g"
    unfolding g gates.height_combine by (simp add: esc lexical_same_forms [OF forms])
  have there: "height gate_rank (?esc (shell_access md r)) \<le> height gate_rank ?g" if "?follow = Target r" for r
    unfolding g gates.height_combine by (simp add: that)
  have nowhere: "2 \<le> height gate_rank ?g" if "?follow = Unresolvable"
    unfolding g gates.height_combine by (simp add: that)
  show "4 \<le> height gate_rank ?g" if "d = Reject why"
    using above that here there by (auto simp: esc)
  show "2 \<le> height gate_rank ?g" if "d = Ask"
    using above that here there nowhere by (auto simp: esc intro: le_trans [rotated])
qed

end
