(* ===== verification/Shell_File_Props.thy ===== *)
theory Shell_File_Props
  imports Shell_Path_Props
begin

text \<open>
  What the gate on shell file access decides: its loops equal a search through all scripts that run
  up to the depth of the gate for a path that a rule restricts, or for something that cannot be told.
\<close>

section \<open>What the gate weighs\<close>

text \<open>The strength of a scan: its verdict and its forced ask.\<close>

definition strength :: "file_scan \<Rightarrow> nat" where
  "strength s = height gate_rank (combine_gate_decisions (fs_decision s) (ask_if (forced_ask s)))"

lemma height_ask_if [simp]: "height gate_rank (ask_if b) = (if b then 2 else 0)"
  by (simp add: ask_if_def)

lemma strength_max: "strength s = max (height gate_rank (fs_decision s)) (if forced_ask s then 2 else 0)"
  by (simp add: strength_def gates.height_combine)

lemma strength_force [simp]: "strength (force_if b s) = max (strength s) (if b then 2 else 0)"
  by (simp add: strength_max force_if_def)

lemma strength_weigh [simp]: "strength (weigh d s) = max (strength s) (height gate_rank d)"
  by (simp add: strength_max weigh_def gates.height_combine max.assoc max.commute max.left_commute)

text \<open>A loop whose steps only ever add something of the element's own.\<close>

lemma strength_foldl:
  assumes "\<And>s x. x \<in> set xs \<Longrightarrow> k \<le> strength (f s x) \<longleftrightarrow> k \<le> strength s \<or> P x"
  shows "k \<le> strength (foldl f s xs) \<longleftrightarrow> k \<le> strength s \<or> (\<exists>x\<in>set xs. P x)"
  using assms
proof (induction xs arbitrary: s)
  case (Cons x xs)
  from Cons.prems [of x] Cons.IH [of "f s x"] Cons.prems show ?case by auto
qed simp

text \<open>The script that an invocation hands to a shell, and the paths that one script names itself.\<close>

definition call_script :: "shell_invocation \<Rightarrow> string option" where
  "call_script call =
     (let ws = ip_words (unwrap_invocation_checked call)
      in case shell_dash_c_script ws of
           Literal_Script i \<Rightarrow> literal_word (ws ! i)
         | _ \<Rightarrow> None)"

definition call_operands :: "shell_invocation \<Rightarrow> (string \<times> shell_file_mode) list" where
  "call_operands call =
     (let ws = ip_words (unwrap_invocation_checked call)
      in case ws of
           Literal program # _ \<Rightarrow>
             (let program = to_ascii_lowercase (basename program)
              in if program \<in> {''cd'', ''pushd'', ''popd''} then [] else file_operands program (literal_words ws))
         | _ \<Rightarrow> [])"

definition names_path ::
  "field_lookup \<Rightarrow> shell_parser \<Rightarrow> string \<Rightarrow> bool \<Rightarrow> string \<Rightarrow> shell_file_mode \<Rightarrow> bool \<Rightarrow> bool" where
  "names_path field parse cmd u path md v \<longleftrightarrow>
     (\<exists>t. parse cmd = Some t \<and>
        ((\<exists>r\<in>set (shell_redirect_targets field (root_node t) cmd). rt_path r = Some path \<and> rt_mode r = md
            \<and> v = (u \<or> cwd_unpinned_before (cwd_poison_positions field (root_node t) cmd) (rt_start r) (rt_scope r)))
         \<or> (\<exists>call\<in>set (shell_command_invocations (root_node t) cmd). (path, md) \<in> set (call_operands call)
            \<and> v = invocation_unpinned (cwd_poison_positions field (root_node t) cmd) u call)))"

text \<open>A script that runs up to \<open>n\<close> levels of \<open>-c\<close> below another, and whether its directory is unknown.\<close>

inductive runs :: "field_lookup \<Rightarrow> shell_parser \<Rightarrow> nat \<Rightarrow> bool \<Rightarrow> string \<Rightarrow> bool \<Rightarrow> nat \<Rightarrow> bool \<Rightarrow> string \<Rightarrow> bool \<Rightarrow> bool"
  for field parse where
  runs_here: "runs field parse n entered cmd u n entered cmd u"
| runs_inner: "runs field parse (Suc n) entered cmd u m entered' cmd' u'"
    if "parse cmd = Some t" "call \<in> set (shell_command_invocations (root_node t) cmd)" "call_script call = Some script"
      "runs field parse n True script (invocation_unpinned (cwd_poison_positions field (root_node t) cmd) u call) m entered' cmd' u'"

inductive_simps runs_0: "runs field parse 0 entered cmd u m entered' cmd' u'"
inductive_simps runs_Suc: "runs field parse (Suc n) entered cmd u m entered' cmd' u'"

text \<open>What makes the gate ask because it cannot tell, at a script with \<open>m\<close> levels left.\<close>

definition program_doubt :: "bool \<Rightarrow> bool \<Rightarrow> string \<Rightarrow> string list \<Rightarrow> bool" where
  "program_doubt unpinned doubtful program ws \<longleftrightarrow> program \<notin> {''cd'', ''pushd'', ''popd''} \<and>
     ((program = ''dd'' \<or> shell_file_mode_of program \<noteq> None \<or> shell_path_command_operands program ws \<noteq> None)
        \<and> (unpinned \<or> doubtful)
      \<or> (\<exists>op\<in>set (file_operands program ws). shell_arg_is_ambiguous (fst op))
      \<or> (program \<noteq> ''dd'' \<and> shell_path_command_operands program ws = None \<and> shell_file_mode_of program \<noteq> None
          \<and> shell_reader_can_recurse program ws (shell_file_candidates ws)))"

definition call_doubt :: "bool \<Rightarrow> bool \<Rightarrow> bool \<Rightarrow> shell_invocation \<Rightarrow> bool" where
  "call_doubt spent unpinned parse_failed call \<longleftrightarrow>
     (let ws = ip_words (unwrap_invocation_checked call); inline = shell_dash_c_script ws
      in norm_doubtful (ip_norm (unwrap_invocation_checked call))
         \<or> (parse_failed \<and> inline \<noteq> NotInline)
         \<or> inline = Untrusted \<or> inline = Unrecognized
         \<or> (spent \<and> (\<exists>i. inline = Literal_Script i))
         \<or> (case ws of
              Literal program # _ \<Rightarrow>
                program_doubt unpinned (Untrusted_Word \<in> set ws \<or> parse_failed)
                  (to_ascii_lowercase (basename program)) (literal_words ws)
            | _ \<Rightarrow> False))"

definition script_doubt :: "field_lookup \<Rightarrow> shell_parser \<Rightarrow> bool \<Rightarrow> bool \<Rightarrow> string \<Rightarrow> bool \<Rightarrow> bool" where
  "script_doubt field parse spent entered cmd u \<longleftrightarrow>
     (case parse cmd of
        None \<Rightarrow> entered
      | Some t \<Rightarrow>
          (entered \<and> has_error t)
          \<or> (\<exists>r\<in>set (shell_redirect_targets field (root_node t) cmd). rt_ambiguous r)
          \<or> (\<exists>call\<in>set (shell_command_invocations (root_node t) cmd).
               call_doubt spent (invocation_unpinned (cwd_poison_positions field (root_node t) cmd) u call) (has_error t) call))"

section \<open>One script\<close>

lemma le_small: "1 \<le> k \<Longrightarrow> k \<le> (if b then 2 else 0) \<longleftrightarrow> b \<and> k \<le> (2::nat)"
  by simp

lemma redirect_step_reaches:
  assumes "1 \<le> k"
  shows "k \<le> strength (redirect_step chk changes u s r) \<longleftrightarrow> k \<le> strength s \<or> (rt_ambiguous r \<and> k \<le> 2) \<or>
     (\<exists>path. rt_path r = Some path \<and>
        k \<le> height gate_rank (chk path (rt_mode r) (u \<or> cwd_unpinned_before changes (rt_start r) (rt_scope r))))"
  using assms by (auto simp: redirect_step_def Let_def le_max_iff_disj le_small split: option.split)

lemma operands_reach:
  assumes "1 \<le> k"
  shows "k \<le> strength (foldl (operand_step chk u) s ops) \<longleftrightarrow>
     k \<le> strength s \<or> (\<exists>op\<in>set ops. (shell_arg_is_ambiguous (fst op) \<and> k \<le> 2) \<or> k \<le> height gate_rank (chk (fst op) (snd op) u))"
  by (rule strength_foldl) (simp add: operand_step_def le_max_iff_disj le_small [OF assms] disj_assoc)

lemma program_step_reaches:
  assumes "1 \<le> k"
  shows "k \<le> strength (program_step chk u doubtful program ws s) \<longleftrightarrow> k \<le> strength s \<or>
     (program_doubt u doubtful program ws \<and> k \<le> 2) \<or>
     (program \<notin> {''cd'', ''pushd'', ''popd''} \<and>
      (\<exists>op\<in>set (file_operands program ws). k \<le> height gate_rank (chk (fst op) (snd op) u)))"
proof (cases "program \<in> {''cd'', ''pushd'', ''popd''}")
  case True
  then show ?thesis by (simp only: program_step_def if_True program_doubt_def simp_thms)
next
  case False
  define stop where "stop \<longleftrightarrow> program = ''dd'' \<or> shell_path_command_operands program ws \<noteq> None \<or> shell_file_mode_of program = None"
  define rec where "rec \<longleftrightarrow> shell_reader_can_recurse program ws (shell_file_candidates ws)"
  define known where "known \<longleftrightarrow> (program = ''dd'' \<or> shell_file_mode_of program \<noteq> None
      \<or> shell_path_command_operands program ws \<noteq> None) \<and> (u \<or> doubtful)"
  define ops where "ops = file_operands program ws"
  have step: "program_step chk u doubtful program ws s =
      (if stop then foldl (operand_step chk u) (force_if known s) ops
       else force_if rec (foldl (operand_step chk u) (force_if known s) ops))"
    unfolding program_step_def if_not_P [OF False] Let_def stop_def rec_def known_def ops_def ..
  have doubt: "program_doubt u doubtful program ws \<longleftrightarrow>
      known \<or> (\<exists>op\<in>set ops. shell_arg_is_ambiguous (fst op)) \<or> (\<not> stop \<and> rec)"
    unfolding program_doubt_def stop_def rec_def known_def ops_def
    by (simp only: False not_False_eq_True simp_thms de_Morgan_disj conj_assoc)
  have "k \<le> strength (program_step chk u doubtful program ws s) \<longleftrightarrow>
      k \<le> strength (foldl (operand_step chk u) (force_if known s) ops) \<or> (\<not> stop \<and> rec \<and> k \<le> 2)"
    unfolding step by (cases stop) (simp_all only: if_True if_False strength_force le_max_iff_disj le_small [OF assms] simp_thms)
  also have "\<dots> \<longleftrightarrow> k \<le> strength s \<or> (known \<and> k \<le> 2)
      \<or> ((\<exists>op\<in>set ops. shell_arg_is_ambiguous (fst op)) \<and> k \<le> 2)
      \<or> (\<exists>op\<in>set ops. k \<le> height gate_rank (chk (fst op) (snd op) u)) \<or> (\<not> stop \<and> rec \<and> k \<le> 2)"
    unfolding operands_reach [OF assms] strength_force le_max_iff_disj le_small [OF assms] by blast
  finally show ?thesis unfolding doubt ops_def [symmetric]
    by (simp only: False not_False_eq_True simp_thms) blast
qed

lemma invocation_step_reaches:
  assumes "1 \<le> k"
  shows "k \<le> strength (invocation_step chk inner changes u failed s call) \<longleftrightarrow> k \<le> strength s
     \<or> (call_doubt (inner = None) (invocation_unpinned changes u call) failed call \<and> k \<le> 2)
     \<or> (\<exists>gate script. inner = Some gate \<and> call_script call = Some script
          \<and> k \<le> height gate_rank (gate script (invocation_unpinned changes u call)))
     \<or> (\<exists>op\<in>set (call_operands call). k \<le> height gate_rank (chk (fst op) (snd op) (invocation_unpinned changes u call)))"
proof -
  let ?ws = "ip_words (unwrap_invocation_checked call)" and ?v = "invocation_unpinned changes u call"
  let ?norm = "norm_doubtful (ip_norm (unwrap_invocation_checked call))"
  let ?inline = "shell_dash_c_script ?ws"
  define s1 where "s1 = force_if (failed \<and> ?inline \<noteq> NotInline) (force_if ?norm s)"
  define s2 where "s2 = (case ?inline of
      Literal_Script i \<Rightarrow>
        (case inner of
           None \<Rightarrow> force_if True s1
         | Some gate \<Rightarrow> (case ?ws ! i of Literal script \<Rightarrow> weigh (gate script ?v) s1 | Untrusted_Word \<Rightarrow> s1))
    | NotInline \<Rightarrow> s1
    | _ \<Rightarrow> force_if True s1)"
  have s1: "k \<le> strength s1 \<longleftrightarrow> k \<le> strength s \<or> ((?norm \<or> (failed \<and> ?inline \<noteq> NotInline)) \<and> k \<le> 2)"
    unfolding s1_def strength_force le_max_iff_disj le_small [OF assms] by blast
  have s2: "k \<le> strength s2 \<longleftrightarrow> k \<le> strength s1
      \<or> ((?inline = Untrusted \<or> ?inline = Unrecognized \<or> (inner = None \<and> (\<exists>i. ?inline = Literal_Script i))) \<and> k \<le> 2)
      \<or> (\<exists>gate script. inner = Some gate \<and> call_script call = Some script \<and> k \<le> height gate_rank (gate script ?v))"
    using assms
    by (auto simp: s2_def call_script_def Let_def le_max_iff_disj le_small
        split: inline_shell_script.split option.split shell_word.split)
  have step: "invocation_step chk inner changes u failed s call = (case ?ws of
      Literal program # _ \<Rightarrow> program_step chk ?v (Untrusted_Word \<in> set ?ws \<or> failed)
        (to_ascii_lowercase (basename program)) (literal_words ?ws) s2
    | _ \<Rightarrow> s2)"
    by (simp only: invocation_step_def Let_def s1_def s2_def)
  have plain: "k \<le> strength s2 \<longleftrightarrow> k \<le> strength s
      \<or> ((?norm \<or> (failed \<and> ?inline \<noteq> NotInline) \<or> ?inline = Untrusted \<or> ?inline = Unrecognized
           \<or> (inner = None \<and> (\<exists>i. ?inline = Literal_Script i))) \<and> k \<le> 2)
      \<or> (\<exists>gate script. inner = Some gate \<and> call_script call = Some script \<and> k \<le> height gate_rank (gate script ?v))"
    unfolding s2 s1 by blast
  show ?thesis
  proof (cases "\<exists>program rest. ?ws = Literal program # rest")
    case True
    then obtain program rest where ws: "?ws = Literal program # rest" by blast
    let ?program = "to_ascii_lowercase (basename program)" and ?lits = "literal_words ?ws"
    have ops: "(\<exists>op\<in>set (call_operands call). H op) \<longleftrightarrow>
        (?program \<notin> {''cd'', ''pushd'', ''popd''} \<and> (\<exists>op\<in>set (file_operands ?program ?lits). H op))" for H
      unfolding call_operands_def Let_def ws by simp
    have doubt: "call_doubt (inner = None) ?v failed call \<longleftrightarrow> ?norm \<or> (failed \<and> ?inline \<noteq> NotInline)
        \<or> ?inline = Untrusted \<or> ?inline = Unrecognized \<or> (inner = None \<and> (\<exists>i. ?inline = Literal_Script i))
        \<or> program_doubt ?v (Untrusted_Word \<in> set ?ws \<or> failed) ?program ?lits"
      unfolding call_doubt_def Let_def by (simp add: ws)
    have "invocation_step chk inner changes u failed s call =
        program_step chk ?v (Untrusted_Word \<in> set ?ws \<or> failed) ?program ?lits s2"
      unfolding step by (simp add: ws)
    then show ?thesis unfolding ops doubt by (simp only: program_step_reaches [OF assms] plain) blast
  next
    case False
    have "call_operands call = []" "invocation_step chk inner changes u failed s call = s2"
      "call_doubt (inner = None) ?v failed call \<longleftrightarrow> ?norm \<or> (failed \<and> ?inline \<noteq> NotInline)
        \<or> ?inline = Untrusted \<or> ?inline = Unrecognized \<or> (inner = None \<and> (\<exists>i. ?inline = Literal_Script i))"
      unfolding step call_operands_def call_doubt_def Let_def
      using False by (auto split: list.split shell_word.split)
    then show ?thesis by (simp add: plain)
  qed
qed

lemma exists_named:
  assumes "\<And>path md v. N path md v \<longleftrightarrow>
      (\<exists>r\<in>R. rp r = Some path \<and> rm r = md \<and> v = f r) \<or> (\<exists>c\<in>C. (path, md) \<in> set (ops c) \<and> v = g c)"
  shows "(\<exists>path md v. N path md v \<and> H path md v) \<longleftrightarrow>
      (\<exists>r\<in>R. \<exists>path. rp r = Some path \<and> H path (rm r) (f r)) \<or> (\<exists>c\<in>C. \<exists>op\<in>set (ops c). H (fst op) (snd op) (g c))"
  unfolding assms by force

lemma split_steps:
  "((False \<or> (E \<and> K2)) \<or> (\<exists>r\<in>R. (A r \<and> K2) \<or> P r))
     \<or> (\<exists>c\<in>C t. (D c \<and> K2) \<or> (\<exists>gate script. inner = Some gate \<and> cs c = Some script \<and> K t gate script c) \<or> B c) \<longleftrightarrow>
   ((\<exists>r\<in>R. P r) \<or> (\<exists>c\<in>C t. B c)) \<or> ((E \<or> (\<exists>r\<in>R. A r) \<or> (\<exists>c\<in>C t. D c)) \<and> K2)
   \<or> (\<exists>gate t' c script. inner = Some gate \<and> t = t' \<and> c \<in> C t' \<and> cs c = Some script \<and> K t' gate script c)"
  by blast

lemma script_reaches:
  assumes "1 \<le> k"
  shows "k \<le> height gate_rank (file_gate_script chk field parse inner entered cmd u) \<longleftrightarrow>
     (\<exists>path md v. names_path field parse cmd u path md v \<and> k \<le> height gate_rank (chk path md v))
     \<or> (script_doubt field parse (inner = None) entered cmd u \<and> k \<le> 2)
     \<or> (\<exists>gate t call script. inner = Some gate \<and> parse cmd = Some t
          \<and> call \<in> set (shell_command_invocations (root_node t) cmd) \<and> call_script call = Some script
          \<and> k \<le> height gate_rank (gate script (invocation_unpinned (cwd_poison_positions field (root_node t) cmd) u call)))"
proof (cases "parse cmd")
  case None
  then show ?thesis
    by (simp add: file_gate_script_def names_path_def script_doubt_def le_small [OF assms])
next
  case (Some t)
  let ?tr = "root_node t" and ?changes = "cwd_poison_positions field (root_node t) cmd"
  define s0 where "s0 = \<lparr>fs_decision = None, forced_ask = (entered \<and> has_error t)\<rparr>"
  have redirects: "k \<le> strength (foldl (redirect_step chk ?changes u) s0 (shell_redirect_targets field ?tr cmd)) \<longleftrightarrow>
      k \<le> strength s0 \<or> (\<exists>r\<in>set (shell_redirect_targets field ?tr cmd). (rt_ambiguous r \<and> k \<le> 2) \<or>
        (\<exists>path. rt_path r = Some path \<and>
          k \<le> height gate_rank (chk path (rt_mode r) (u \<or> cwd_unpinned_before ?changes (rt_start r) (rt_scope r)))))"
    by (rule strength_foldl) (rule redirect_step_reaches [OF assms])
  have start: "k \<le> strength s0 \<longleftrightarrow> False \<or> ((entered \<and> has_error t) \<and> k \<le> 2)"
    unfolding s0_def strength_max by (simp add: le_max_iff_disj le_small [OF assms])
  have "file_gate_script chk field parse inner entered cmd u =
      (let s = foldl (invocation_step chk inner ?changes u (has_error t))
           (foldl (redirect_step chk ?changes u) s0 (shell_redirect_targets field ?tr cmd))
           (shell_command_invocations ?tr cmd)
       in combine_gate_decisions (fs_decision s) (ask_if (forced_ask s)))"
    by (simp add: file_gate_script_def Some s0_def Let_def)
  then have result: "k \<le> height gate_rank (file_gate_script chk field parse inner entered cmd u) \<longleftrightarrow>
      k \<le> strength (foldl (invocation_step chk inner ?changes u (has_error t))
           (foldl (redirect_step chk ?changes u) s0 (shell_redirect_targets field ?tr cmd))
           (shell_command_invocations ?tr cmd))"
    by (simp only: Let_def strength_def)
  have names: "names_path field parse cmd u path md v \<longleftrightarrow>
      (\<exists>r\<in>set (shell_redirect_targets field ?tr cmd). rt_path r = Some path \<and> rt_mode r = md
          \<and> v = (u \<or> cwd_unpinned_before ?changes (rt_start r) (rt_scope r)))
      \<or> (\<exists>call\<in>set (shell_command_invocations ?tr cmd). (path, md) \<in> set (call_operands call)
          \<and> v = invocation_unpinned ?changes u call)" for path md v
    by (simp add: names_path_def Some)
  define f where "f = invocation_step chk inner ?changes u (has_error t)"
  have calls: "k \<le> strength (foldl f s (shell_command_invocations ?tr cmd)) \<longleftrightarrow> k \<le> strength s
      \<or> (\<exists>call\<in>set (shell_command_invocations ?tr cmd).
           (call_doubt (inner = None) (invocation_unpinned ?changes u call) (has_error t) call \<and> k \<le> 2)
           \<or> (\<exists>gate script. inner = Some gate \<and> call_script call = Some script
                \<and> k \<le> height gate_rank (gate script (invocation_unpinned ?changes u call)))
           \<or> (\<exists>op\<in>set (call_operands call).
                k \<le> height gate_rank (chk (fst op) (snd op) (invocation_unpinned ?changes u call))))" for s
    unfolding f_def by (rule strength_foldl) (rule invocation_step_reaches [OF assms])
  show ?thesis
    unfolding result exists_named [OF names, where H = "\<lambda>path md v. k \<le> height gate_rank (chk path md v)"]
      f_def [symmetric] calls redirects start script_doubt_def Some option.case option.inject
    by (rule split_steps [where t = t and C = "\<lambda>t. set (shell_command_invocations (root_node t) cmd)"
        and K = "\<lambda>t gate script call. k \<le> height gate_rank
          (gate script (invocation_unpinned (cwd_poison_positions field (root_node t) cmd) u call))"])
qed

text \<open>The gate as a search: its strength is that of the strongest verdict on a path of a script that
  runs, and an ask where something cannot be told.\<close>

lemma gate_reaches:
  assumes "1 \<le> k"
  shows "k \<le> height gate_rank (evaluate_shell_file_access_inner chk field parse n entered cmd u) \<longleftrightarrow>
    (\<exists>m e cmd' u'. runs field parse n entered cmd u m e cmd' u' \<and>
       ((\<exists>path md v. names_path field parse cmd' u' path md v \<and> k \<le> height gate_rank (chk path md v))
        \<or> script_doubt field parse (m = 0) e cmd' u' \<and> k \<le> 2))"
proof -
  define Q where "Q m e cmd' u' \<longleftrightarrow> (\<exists>path md v. names_path field parse cmd' u' path md v \<and> k \<le> height gate_rank (chk path md v))
      \<or> script_doubt field parse (m = (0::nat)) e cmd' u' \<and> k \<le> 2" for m e cmd' u'
  have "k \<le> height gate_rank (evaluate_shell_file_access_inner chk field parse n entered cmd u) \<longleftrightarrow>
      (\<exists>m e cmd' u'. runs field parse n entered cmd u m e cmd' u' \<and> Q m e cmd' u')"
  proof (induction n arbitrary: entered cmd u)
    case 0
    show ?case by (simp add: script_reaches [OF assms] runs_0 Q_def)
  next
    case (Suc n)
    have "k \<le> height gate_rank (evaluate_shell_file_access_inner chk field parse (Suc n) entered cmd u) \<longleftrightarrow>
        Q (Suc n) entered cmd u \<or>
        (\<exists>t call script. parse cmd = Some t \<and> call \<in> set (shell_command_invocations (root_node t) cmd)
           \<and> call_script call = Some script
           \<and> k \<le> height gate_rank (evaluate_shell_file_access_inner chk field parse n True script
               (invocation_unpinned (cwd_poison_positions field (root_node t) cmd) u call)))"
      unfolding evaluate_shell_file_access_inner.simps script_reaches [OF assms] Q_def
      by (simp add: disj_assoc)
    then show ?case unfolding Suc.IH runs_Suc by blast
  qed
  then show ?thesis unfolding Q_def .
qed

section \<open>Properties\<close>

lemma le_4_2: "\<not> (4::nat) \<le> 2" by simp

text \<open>
  C8: the gate on shell file access refuses a command exactly when there is a restriction on files
  and some script that runs within eight levels of inline shells names, as the target of a
  redirection or as an operand of a known program, a path that the rules refuse. So no redirection,
  operand or inline script is skipped, and nothing else refuses.
\<close>

theorem file_gate_rejects_exactly:
  "rejects (evaluate_shell_file_access_gate env field parse p cmd cwd) \<longleftrightarrow>
     has_file_restrictions p \<and>
     (\<exists>m entered cmd' u path md v.
        runs field parse MAX_INLINE_SHELL_DEPTH False cmd False m entered cmd' u
        \<and> names_path field parse cmd' u path md v
        \<and> rejects (evaluate_shell_path env parse p path cwd md v))"
  unfolding rejects_height evaluate_shell_file_access_gate_def
  by (simp add: gate_reaches)

text \<open>
  C9: the gate on shell file access says nothing exactly when no rule restricts files, or when for
  every script that runs within eight levels every path it names is free of a verdict and nothing in
  it is in doubt: no syntax error or unparsable text below the first level, no glob or expansion in
  the target of a redirection or in an operand, no program reading or writing files whose working
  directory or arguments are unknown, no recursive reader, no wrapper the normalization cannot see
  through, and no inline script that is unreadable or too deep.
\<close>

theorem file_gate_is_silent_exactly:
  "evaluate_shell_file_access_gate env field parse p cmd cwd = None \<longleftrightarrow>
     \<not> (has_file_restrictions p \<and>
     (\<exists>m entered cmd' u.
        runs field parse MAX_INLINE_SHELL_DEPTH False cmd False m entered cmd' u
        \<and> (script_doubt field parse (m = 0) entered cmd' u
           \<or> (\<exists>path md v. names_path field parse cmd' u path md v
                \<and> evaluate_shell_path env parse p path cwd md v \<noteq> None))))"
proof -
  have some: "d \<noteq> None \<longleftrightarrow> 1 \<le> height gate_rank d" for d by (cases d) simp_all
  have "evaluate_shell_file_access_gate env field parse p cmd cwd \<noteq> None \<longleftrightarrow>
     has_file_restrictions p \<and>
     (\<exists>m entered cmd' u.
        runs field parse MAX_INLINE_SHELL_DEPTH False cmd False m entered cmd' u
        \<and> (script_doubt field parse (m = 0) entered cmd' u
           \<or> (\<exists>path md v. names_path field parse cmd' u path md v
                \<and> evaluate_shell_path env parse p path cwd md v \<noteq> None)))"
    unfolding some evaluate_shell_file_access_gate_def by (simp add: gate_reaches del: One_nat_def) blast
  then show ?thesis by blast
qed

lemma covered_restricts:
  assumes "r \<in> set (rules cfg)" and "restricts r" and "tool_filter_matches (shell_access md q) (tool r)"
  shows "has_file_restrictions (policy_new env cfg)"
proof -
  from assms(3) have "tool r \<in> {TF_Read, TF_Edit, TF_Any}"
    by (cases "tool r") (auto simp: shell_access_def split: if_splits)
  with assms show ?thesis by (auto simp: policy_new_def list_ex_iff)
qed

lemma lexical_restricts:
  assumes "evaluate_lexical_with_cwd env parse (policy_new env cfg) (shell_access md q) cwd = Some d" and "d \<noteq> Allow"
  shows "has_file_restrictions (policy_new env cfg)"
proof -
  have "\<exists>r\<in>set (rules cfg). acts env (shell_access md q) cwd RA_Deny r \<or> acts env (shell_access md q) cwd RA_Ask r"
    using assms by (auto simp: lexical_spec shell_access_def list_ex_iff find_Some_iff_first split: option.splits if_splits)
  then show ?thesis
    by (auto simp: acts_def rule_applies_def restricts_def intro: covered_restricts)
qed

lemma tool_verdict_restricts:
  assumes "evaluate_with_cwd env parse (policy_new env cfg) (shell_access md q) cwd = Some d" and "d \<noteq> Allow"
  shows "has_file_restrictions (policy_new env cfg)"
proof -
  let ?p = "policy_new env cfg"
  have path: "access_with_path (shell_access md q) r = shell_access md r" "native_file_path (shell_access md q) = Some q" for r
    by (simp_all add: shell_access_def)
  have native: "native_path_restrictions_apply ?p (shell_access md q) \<Longrightarrow> has_file_restrictions ?p"
    by (auto simp: native_path_restrictions_apply_def list_ex_iff intro: covered_restricts)
  have "(\<exists>r. evaluate_lexical_with_cwd env parse ?p (shell_access md r) cwd = Some d) \<or> native_path_restrictions_apply ?p (shell_access md q)"
    using assms unfolding evaluate_with_cwd_def evaluate_with_cwd_details_def path Let_def
    by (auto dest!: combined_from split: option.splits symlink_follow.splits decision.splits if_splits)
  with native lexical_restricts [OF _ assms(2)] show ?thesis by blast
qed

text \<open>
  The gate reads a leading \<open>/c/\<close> as the drive C on every system; a file in a directory of that name is
  looked up under another place than the tools use.
\<close>

lemma slash_c_is_drive_c:
  assumes "list_all (\<lambda>c. c \<noteq> dquote \<and> c \<noteq> squote \<and> c \<noteq> backslash) rest"
  shows "normalize_shell_path_raw (''/c/'' @ rest) = ''C:/'' @ rest"
    and "is_absolute (''/c/'' @ rest)" and "\<not> is_absolute (normalize_shell_path_raw (''/c/'' @ rest))"
proof -
  let ?q = "\<lambda>c. c = dquote \<or> c = squote"
  have none: "list_all (\<lambda>c. \<not> ?q c \<and> c \<noteq> backslash) (''/c/'' @ rest)"
    using assms by (auto simp: list_all_iff dquote_def squote_def backslash_def)
  have "dropWhile ?q xs = xs" if "list_all (\<lambda>c. \<not> ?q c \<and> c \<noteq> backslash) xs" for xs
    using that by (cases xs) auto
  from this [OF none] this [of "rev (''/c/'' @ rest)"] none
  have "rev (dropWhile ?q (rev (dropWhile ?q (''/c/'' @ rest)))) = ''/c/'' @ rest" by simp
  moreover have "map (\<lambda>c. if c = backslash then CHR ''/'' else c) (''/c/'' @ rest) = ''/c/'' @ rest"
    using none by (intro map_idI) (auto simp: list_all_iff)
  ultimately show raw: "normalize_shell_path_raw (''/c/'' @ rest) = ''C:/'' @ rest"
    by (simp add: normalize_shell_path_raw_def Let_def strip_prefix_def)
  show "is_absolute (''/c/'' @ rest)" "\<not> is_absolute (normalize_shell_path_raw (''/c/'' @ rest))"
    unfolding raw by (simp_all add: is_absolute_def slash_def)
qed


text \<open>\<open>sh -c 'cat /etc/passwd'\<close> under a rule that denies reading below \<open>/etc/\<close>.\<close>

definition cat_script :: string where
  "cat_script = ''cat /etc/passwd''"

definition sh_cat_script :: string where
  "sh_cat_script = ''sh -c '' @ [squote] @ cat_script @ [squote]"

definition cat_tree :: tree where
  "cat_tree = script_tree 15 [command_node 0 15 [(''word'', 0, 3), (''word'', 4, 15)]]"

definition sh_cat_tree :: tree where
  "sh_cat_tree = script_tree 23 [command_node 0 23 [(''word'', 0, 2), (''word'', 3, 5), (''raw_string'', 6, 23)]]"

definition cat_parser :: shell_parser where
  "cat_parser s = (if s = sh_cat_script then Some sh_cat_tree else if s = cat_script then Some cat_tree else None)"

lemma cat_parsed: "cat_parser sh_cat_script = Some sh_cat_tree" "cat_parser cat_script = Some cat_tree"
  "cwd_poison_positions name_field (root_node sh_cat_tree) sh_cat_script = []"
  "cwd_poison_positions name_field (root_node cat_tree) cat_script = []"
  by code_simp+

text \<open>An invocation of literal words in which normalization leaves \<open>ws\<close> and finds nothing doubtful.\<close>

definition clean_peel :: "string list \<Rightarrow> command_peel" where
  "clean_peel ws = \<lparr>words = ws, has_chdir = False, has_split_string = False,
     env_options_uncertain = False, exhausted = False, ambiguous = False\<rparr>"

definition plain_call :: "string list \<Rightarrow> shell_invocation \<Rightarrow> bool" where
  "plain_call ws call \<longleftrightarrow> ip_words (unwrap_invocation_checked call) = map Literal ws
     \<and> ip_norm (unwrap_invocation_checked call) = clean_peel ws"

lemma peeled:
  "normalize_command_words [''sh'', ''-c'', cat_script] = clean_peel [''sh'', ''-c'', cat_script]"
  "normalize_command_words [''cat'', ''/etc/passwd''] = clean_peel [''cat'', ''/etc/passwd'']"
  "normalize_command_words [''cat'', ''passwd''] = clean_peel [''cat'', ''passwd'']"
  "normalize_command_words [''cd'', ''/etc''] = clean_peel [''cd'', ''/etc'']"
  "normalize_command_words [''command'', ''cd'', ''/etc''] = clean_peel [''cd'', ''/etc'']"
  by code_simp+

lemma plain_call_words:
  assumes "(si_words call, wrapper_words call) = (map Literal ws, ws)" and "normalize_command_words ws = clean_peel ws'"
    and "drop (length ws - length ws') ws = ws'"
  shows "plain_call ws' call"
  using assms by (simp add: plain_call_def unwrap_invocation_checked_def Let_def clean_peel_def drop_map)

lemma cat_written:
  "map written (shell_command_invocations (root_node sh_cat_tree) sh_cat_script) =
     [(map Literal [''sh'', ''-c'', cat_script], [''sh'', ''-c'', cat_script])]"
  "map written (shell_command_invocations (root_node cat_tree) cat_script) =
     [(map Literal [''cat'', ''/etc/passwd''], [''cat'', ''/etc/passwd''])]"
  by (simp_all add: cat_tree_def sh_cat_tree_def sh_cat_script_def cat_script_def tree_eval)

lemma cat_runs: "runs name_field cat_parser MAX_INLINE_SHELL_DEPTH False sh_cat_script False 7 True cat_script False"
proof -
  from cat_written(1) obtain c where c: "shell_command_invocations (root_node sh_cat_tree) sh_cat_script = [c]"
    "written c = (map Literal [''sh'', ''-c'', cat_script], [''sh'', ''-c'', cat_script])"
    by (auto simp: map_eq_Cons_conv)
  have "plain_call [''sh'', ''-c'', cat_script] c"
    by (rule plain_call_words [OF c(2) peeled(1)]) simp
  moreover have "shell_dash_c_script (map Literal [''sh'', ''-c'', cat_script]) = Literal_Script 2" by code_simp
  ultimately have script: "call_script c = Some cat_script" "invocation_unpinned [] False c = False"
    by (simp_all add: plain_call_def call_script_def invocation_unpinned_def cwd_unpinned_before_def clean_peel_def)
  have "c \<in> set (shell_command_invocations (root_node sh_cat_tree) sh_cat_script)" by (simp add: c(1))
  then have "runs name_field cat_parser (Suc 7) False sh_cat_script False 7 True cat_script
      (invocation_unpinned (cwd_poison_positions name_field (root_node sh_cat_tree) sh_cat_script) False c)"
    by - (rule runs_inner, rule cat_parsed(1), assumption, rule script(1), rule runs_here)
  then show ?thesis by (simp add: MAX_INLINE_SHELL_DEPTH_def cat_parsed(3) script(2))
qed

lemma cat_names: "names_path name_field cat_parser cat_script False ''/etc/passwd'' SF_Read False"
proof -
  from cat_written(2) obtain c where c: "shell_command_invocations (root_node cat_tree) cat_script = [c]"
    "written c = (map Literal [''cat'', ''/etc/passwd''], [''cat'', ''/etc/passwd''])"
    by (auto simp: map_eq_Cons_conv)
  have "plain_call [''cat'', ''/etc/passwd''] c"
    by (rule plain_call_words [OF c(2) peeled(2)]) simp
  moreover have "to_ascii_lowercase (basename ''cat'') = ''cat''"
    "literal_words (map Literal [''cat'', ''/etc/passwd'']) = [''cat'', ''/etc/passwd'']"
    "file_operands ''cat'' [''cat'', ''/etc/passwd''] = [(''/etc/passwd'', SF_Read)]" by code_simp+
  ultimately have "(''/etc/passwd'', SF_Read) \<in> set (call_operands c)" "invocation_unpinned [] False c = False"
    by (simp_all add: plain_call_def call_operands_def invocation_unpinned_def cwd_unpinned_before_def clean_peel_def)
  then show ?thesis by (simp add: names_path_def cat_parsed(2,4) c(1))
qed


text \<open>
  The gate promises to ask for a relative operand after a change of directory. It recognises the
  change by the raw text of the command's name, so \<open>command cd /etc\<close> and \<open>'cd' /etc\<close> are missed: with
  a rule that denies reading below \<open>/etc/\<close>, \<open>command cd /etc;cat passwd\<close> passes silently from \<open>/w\<close>,
  where \<open>cd /etc;cat passwd\<close> asks.
\<close>

definition cd_script :: "string \<Rightarrow> string" where
  "cd_script before = before @ ''cd /etc;cat passwd''"

definition cd_tree :: tree where
  "cd_tree = script_tree 18 [command_node 0 7 [(''word'', 0, 2), (''word'', 3, 7)],
     command_node 8 18 [(''word'', 8, 11), (''word'', 12, 18)]]"

definition wrapped_cd_tree :: tree where
  "wrapped_cd_tree = script_tree 26 [command_node 0 15 [(''word'', 0, 7), (''word'', 8, 10), (''word'', 11, 15)],
     command_node 16 26 [(''word'', 16, 19), (''word'', 20, 26)]]"

definition cd_parser :: shell_parser where
  "cd_parser s = (if s = cd_script [] then Some cd_tree
     else if s = cd_script ''command '' then Some wrapped_cd_tree else None)"

text \<open>A command of literal words that is no shell and hides nothing.\<close>

lemma invocation_step_plain:
  assumes "ip_words (unwrap_invocation_checked call) = map Literal (program # rest)"
    and "\<not> norm_doubtful (ip_norm (unwrap_invocation_checked call))"
    and "shell_dash_c_script (map Literal (program # rest)) = NotInline"
  shows "invocation_step chk inner changes u False s call =
     program_step chk (invocation_unpinned changes u call) False (to_ascii_lowercase (basename program)) (program # rest) s"
proof -
  have "literal_words (map Literal ws) = ws" "Untrusted_Word \<notin> set (map Literal ws)" for ws
    by (induction ws) (auto simp: literal_words_def map_filter_simps)
  from this [of "program # rest"] show ?thesis
    using assms by (simp add: invocation_step_def Let_def force_if_def)
qed

lemma cd_call:
  assumes "plain_call [''cd'', ''/etc''] call"
  shows "invocation_step chk inner changes u False s call = s"
proof -
  have "shell_dash_c_script (map Literal [''cd'', ''/etc'']) = NotInline"
    "to_ascii_lowercase (basename ''cd'') = ''cd''" by code_simp+
  with assms invocation_step_plain [of call "''cd''" "[''/etc'']" chk inner changes u s] show ?thesis
    by (simp add: plain_call_def program_step_def norm_doubtful_def clean_peel_def)
qed

lemma cat_call:
  assumes "plain_call [''cat'', ''passwd''] call" and "cwd_unpinned_before changes (si_start call) (si_scope call) = v"
  shows "invocation_step chk inner changes False False s call = operand_step chk v (force_if v s) (''passwd'', SF_Read)"
proof -
  have "shell_dash_c_script (map Literal [''cat'', ''passwd'']) = NotInline"
    "to_ascii_lowercase (basename ''cat'') = ''cat''" "shell_path_command_operands ''cat'' [''cat'', ''passwd''] = None"
    "shell_file_mode_of ''cat'' = Some SF_Read" "file_operands ''cat'' [''cat'', ''passwd''] = [(''passwd'', SF_Read)]"
    "shell_reader_can_recurse ''cat'' [''cat'', ''passwd''] (shell_file_candidates [''cat'', ''passwd'']) = False"
    by code_simp+
  moreover have "invocation_unpinned changes False call = v"
    using assms by (simp add: invocation_unpinned_def plain_call_def clean_peel_def)
  ultimately show ?thesis
    using assms(1) invocation_step_plain [of call "''cat''" "[''passwd'']" chk inner changes False s]
    by (simp add: plain_call_def program_step_def Let_def norm_doubtful_def clean_peel_def) (simp add: force_if_def)
qed

lemma cd_script_gate:
  assumes "cd_parser cmd = Some t" "has_error t = False" "shell_redirect_targets name_field (root_node t) cmd = []"
    and "shell_command_invocations (root_node t) cmd = [c, d]"
    and "plain_call [''cd'', ''/etc''] c" "plain_call [''cat'', ''passwd''] d"
    and "cwd_unpinned_before (cwd_poison_positions name_field (root_node t) cmd) (si_start d) (si_scope d) = v"
  shows "file_gate_script chk name_field cd_parser inner False cmd False =
     combine_gate_decisions (chk ''passwd'' SF_Read v) (ask_if v)"
proof -
  have "shell_arg_is_ambiguous ''passwd'' = False" by code_simp
  then show ?thesis
    using cat_call [OF assms(6,7)]
    by (simp add: file_gate_script_def assms(1-4) cd_call [OF assms(5)] Let_def operand_step_def weigh_def force_if_def gates.unit)
qed

lemma cd_parsed:
  "cd_parser (cd_script []) = Some cd_tree" "cd_parser (cd_script ''command '') = Some wrapped_cd_tree"
  "has_error cd_tree = False" "has_error wrapped_cd_tree = False"
  "shell_redirect_targets name_field (root_node cd_tree) (cd_script []) = []"
  "shell_redirect_targets name_field (root_node wrapped_cd_tree) (cd_script ''command '') = []"
  "cwd_poison_positions name_field (root_node wrapped_cd_tree) (cd_script ''command '') = []"
  by code_simp+

lemma cd_written:
  "map written (shell_command_invocations (root_node cd_tree) (cd_script [])) =
     [(map Literal [''cd'', ''/etc''], [''cd'', ''/etc'']), (map Literal [''cat'', ''passwd''], [''cat'', ''passwd''])]"
  "map written (shell_command_invocations (root_node wrapped_cd_tree) (cd_script ''command '')) =
     [(map Literal [''command'', ''cd'', ''/etc''], [''command'', ''cd'', ''/etc'']),
      (map Literal [''cat'', ''passwd''], [''cat'', ''passwd''])]"
  "map (\<lambda>c. cwd_unpinned_before (cwd_poison_positions name_field (root_node cd_tree) (cd_script [])) (si_start c) (si_scope c))
     (shell_command_invocations (root_node cd_tree) (cd_script [])) = [False, True]"
  by (simp_all add: cd_tree_def wrapped_cd_tree_def cd_script_def tree_eval cwd_poison_positions_def poison_of_def name_field_def nth_child_def
      basename_def rsplit_last_def cwd_unpinned_before_def scope_contains_def)

theorem wrapped_cd_is_not_noticed:
  "evaluate_shell_file_access_gate link_env name_field cd_parser
     (policy_new link_env (config_new [deny_etc])) (cd_script ''command '') ''/w'' = None
   \<and> evaluate_shell_file_access_gate link_env name_field cd_parser
     (policy_new link_env (config_new [deny_etc])) (cd_script []) ''/w'' = Some AskFailClosed"
proof (intro conjI)
  let ?p = "policy_new link_env (config_new [deny_etc])"
  have p: "has_file_restrictions ?p" by code_simp
  have inner: "evaluate_shell_file_access_inner chk name_field cd_parser MAX_INLINE_SHELL_DEPTH False cmd False =
      file_gate_script chk name_field cd_parser (Some (evaluate_shell_file_access_inner chk name_field cd_parser 7 True)) False cmd False"
    for chk cmd
    by (simp add: MAX_INLINE_SHELL_DEPTH_def numeral_eq_Suc)
  show "evaluate_shell_file_access_gate link_env name_field cd_parser ?p (cd_script ''command '') ''/w'' = None"
  proof -
    from cd_written(2) obtain c d where
      cd: "shell_command_invocations (root_node wrapped_cd_tree) (cd_script ''command '') = [c, d]"
      and w: "written c = (map Literal [''command'', ''cd'', ''/etc''], [''command'', ''cd'', ''/etc''])"
        "written d = (map Literal [''cat'', ''passwd''], [''cat'', ''passwd''])"
      by (auto simp: map_eq_Cons_conv)
    have "plain_call [''cd'', ''/etc''] c" "plain_call [''cat'', ''passwd''] d"
      by (rule plain_call_words [OF w(1) peeled(5)], simp) (rule plain_call_words [OF w(2) peeled(3)], simp)
    then have "file_gate_script chk name_field cd_parser inner False (cd_script ''command '') False =
        combine_gate_decisions (chk ''passwd'' SF_Read False) (ask_if False)" for chk inner
      by (intro cd_script_gate [OF cd_parsed(2,4,6) cd]) (simp_all add: cd_parsed(7) cwd_unpinned_before_def)
    moreover have "evaluate_shell_path link_env cd_parser ?p ''passwd'' ''/w'' SF_Read False = None" by code_simp
    ultimately show ?thesis
      unfolding evaluate_shell_file_access_gate_def inner using p by (simp add: ask_if_def gates.unit)
  qed
  show "evaluate_shell_file_access_gate link_env name_field cd_parser ?p (cd_script []) ''/w'' = Some AskFailClosed"
  proof -
    from cd_written(1,3) obtain c d where cd: "shell_command_invocations (root_node cd_tree) (cd_script []) = [c, d]"
      and w: "written c = (map Literal [''cd'', ''/etc''], [''cd'', ''/etc''])"
        "written d = (map Literal [''cat'', ''passwd''], [''cat'', ''passwd''])"
      and u: "cwd_unpinned_before (cwd_poison_positions name_field (root_node cd_tree) (cd_script [])) (si_start d) (si_scope d) = True"
      by (auto simp: map_eq_Cons_conv)
    have "plain_call [''cd'', ''/etc''] c" "plain_call [''cat'', ''passwd''] d"
      by (rule plain_call_words [OF w(1) peeled(4)], simp) (rule plain_call_words [OF w(2) peeled(3)], simp)
    then have "file_gate_script chk name_field cd_parser inner False (cd_script []) False =
        combine_gate_decisions (chk ''passwd'' SF_Read True) (ask_if True)" for chk inner
      by (intro cd_script_gate [OF cd_parsed(1,3,5) cd]) (simp_all only: u)
    moreover have "evaluate_shell_path link_env cd_parser ?p ''passwd'' ''/w'' SF_Read True = Some AskFailClosed" by code_simp
    ultimately show ?thesis
      unfolding evaluate_shell_file_access_gate_def inner using p by (simp add: ask_if_def)
  qed
qed

section \<open>Reading back quoted arguments\<close>

text \<open>How a shell user protects a text: every byte behind a backslash, or only the special ones inside
  double quotes.\<close>

definition escape_word :: "string \<Rightarrow> string" where
  "escape_word s = concat (map (\<lambda>c. [backslash, c]) s)"

definition escape_quoted :: "string \<Rightarrow> string" where
  "escape_quoted s = concat (map (\<lambda>c. if c \<in> dq_escapable then [backslash, c] else [c]) s)"

lemma fold_escaped: "fold_escapes (escape_word s) = Some s"
  by (induction s) (simp_all add: escape_word_def)

lemma fold_quoted: "fold_dq_escapes (escape_quoted s) = Some s"
proof (induction s)
  case (Cons c s)
  have "backslash \<in> dq_escapable" by (simp add: dq_escapable_def)
  with Cons show ?case by (auto simp: escape_quoted_def)
qed (simp add: escape_quoted_def)

lemma escape_quoted_plain: "backslash \<notin> set (escape_quoted s) \<Longrightarrow> escape_quoted s = s"
  by (induction s) (auto simp: escape_quoted_def split: if_splits)

text \<open>
  An argument comes back as it was before it was quoted. A double-quoted text whose special bytes
  are escaped decodes to the text, and so does a word in which every byte is escaped, unless its
  first byte is a backslash, when the two backslashes in front make it a Windows path that is left
  alone.
\<close>

theorem quoted_arguments_are_read_back:
  "decode_double_quoted_content (escape_quoted s) = Some s
   \<and> decode_unquoted_word (escape_word s) = Some (if s \<noteq> [] \<and> hd s = backslash then escape_word s else s)"
proof (intro conjI)
  show "decode_double_quoted_content (escape_quoted s) = Some s"
    using escape_quoted_plain [of s] fold_quoted [of s] by (simp add: decode_double_quoted_content_def)
  have "is_windows_path_like (escape_word s) \<longleftrightarrow> s \<noteq> [] \<and> hd s = backslash"
    by (cases s) (auto simp: is_windows_path_like_def escape_word_def backslash_def is_ascii_alphabetic_def)
  then show "decode_unquoted_word (escape_word s) = Some (if s \<noteq> [] \<and> hd s = backslash then escape_word s else s)"
    using fold_escaped [of s] by (cases s) (auto simp: decode_unquoted_word_def escape_word_def)
qed

text \<open>A continuation line inside double quotes keeps its newline, which the shell removes.\<close>

lemma continuation_keeps_newline:
  "decode_double_quoted_content (''/etc/pas'' @ [backslash, CHR 0x0A] @ ''swd'') = Some (''/etc/pas'' @ [CHR 0x0A] @ ''swd'')"
  by code_simp

end
