(* ===== verification/Routine_Commands.thy ===== *)
theory Routine_Commands
  imports Grant_Evaluation
begin

text \<open>
  The rule-based classifier of \<open>permission/auto_mode/mod.rs\<close>: when a request may run without a prompt
  in auto mode while no model answers, and the fast paths in front of any classifier.
\<close>

section \<open>Verdicts and transcripts\<close>

datatype classifier_verdict = CV_Allow | CV_Block | CV_Unavailable

datatype classifier_turn =
    UserText string
  | AssistantToolUse string string
  | PermissionDecision string string bool

definition neutralize_line :: "string \<Rightarrow> string" where
  "neutralize_line line =
     (let heading = trim_start line
      in if prefix ''#'' heading
         then take (length line - length heading) line @ [backslash] @ heading
         else line)"

definition neutralize_headings :: "string \<Rightarrow> string" where
  "neutralize_headings txt = join_with [CHR 0x0A] (map neutralize_line (str_lines txt))"

fun render_untrusted :: "classifier_turn \<Rightarrow> string option" where
  "render_untrusted (UserText txt) = Some (''User: '' @ neutralize_headings txt)"
| "render_untrusted (AssistantToolUse t args) = Some (neutralize_headings t @ '' '' @ neutralize_headings args)"
| "render_untrusted (PermissionDecision _ _ _) = None"

definition transcript_text :: "classifier_turn list \<Rightarrow> string" where
  "transcript_text turns = join_with [CHR 0x0A] (List.map_filter render_untrusted turns)"

section \<open>Package managers\<close>

definition launcher_subcommand :: "string \<Rightarrow> string list \<Rightarrow> string option" where
  "launcher_subcommand head inner =
     (case nth_word inner 1 of
        None \<Rightarrow> None
      | Some sub \<Rightarrow>
          Some (if head \<in> {''npm'', ''pnpm'', ''yarn''} \<and> sub = ''x'' then ''exec''
                else if head \<in> {''npm'', ''pnpm'', ''yarn''} \<and> sub = ''innit'' then ''init''
                else sub))"

definition is_remote_launcher :: "string \<Rightarrow> string list \<Rightarrow> bool" where
  "is_remote_launcher head inner \<longleftrightarrow>
     head = ''npx'' \<or> head = ''uvx''
     \<or> (head = ''uv'' \<and> nth_word inner 1 = Some ''tool'' \<and> nth_word inner 2 = Some ''run'')
     \<or> (case launcher_subcommand head inner of
          None \<Rightarrow> False
        | Some sub \<Rightarrow> head \<in> {''npm'', ''pnpm'', ''yarn''}
            \<and> (sub \<in> {''dlx'', ''create'', ''explore''}
               \<or> (sub = ''init'' \<and> (case nth_word inner 2 of None \<Rightarrow> False | Some a \<Rightarrow> \<not> prefix ''-'' a))))"

datatype launch_target = NotLauncher | Inner "string list" | Unresolved

text \<open>The index of the launched command, where the launcher is understood.\<close>

definition launch_start :: "string \<Rightarrow> string \<Rightarrow> string list \<Rightarrow> nat option option" where
  "launch_start head sub inner =
     (if head = ''uv'' \<and> sub = ''run'' then Some (Some 2)
      else if head = ''rustup'' \<and> sub = ''run'' then
        (case nth_word inner 2 of
           Some toolchain \<Rightarrow> Some (if prefix ''-'' toolchain then None else Some 3)
         | None \<Rightarrow> Some None)
      else if head \<in> {''npm'', ''pnpm'', ''yarn''} \<and> sub = ''exec'' then
        Some (Some (if nth_word inner 2 = Some ''--'' then 3 else 2))
      else None)"

definition explicit_launch_target :: "string \<Rightarrow> string list \<Rightarrow> launch_target" where
  "explicit_launch_target head inner =
     (case launcher_subcommand head inner of
        None \<Rightarrow> NotLauncher
      | Some sub \<Rightarrow>
          (case launch_start head sub inner of
             None \<Rightarrow> NotLauncher
           | Some None \<Rightarrow> Unresolved
           | Some (Some start) \<Rightarrow>
               (case nth_word inner start of
                  Some tok \<Rightarrow> if prefix ''-'' tok then Unresolved else Inner (drop start inner)
                | None \<Rightarrow> Unresolved)))"

definition NPM_SAFE_SUBCOMMANDS :: "string list" where
  "NPM_SAFE_SUBCOMMANDS = [''install'', ''i'', ''ci'', ''add'', ''remove'', ''rm'', ''uninstall'', ''update'',
     ''up'', ''upgrade'', ''test'', ''t'', ''run'', ''run-script'', ''start'', ''build'', ''audit'', ''list'',
     ''ls'', ''ll'', ''outdated'', ''why'', ''view'', ''info'', ''dedupe'', ''prune'', ''version'', ''pack'',
     ''config'', ''link'', ''unlink'', ''rebuild'', ''store'', ''fetch'', ''import'']"

definition UV_SAFE_SUBCOMMANDS :: "string list" where
  "UV_SAFE_SUBCOMMANDS = [''sync'', ''pip'', ''lock'', ''venv'', ''add'', ''remove'', ''tree'', ''export'',
     ''build'', ''version'', ''python'', ''cache'', ''init'', ''self'', ''help'']"

definition RUSTUP_SAFE_SUBCOMMANDS :: "string list" where
  "RUSTUP_SAFE_SUBCOMMANDS = [''show'', ''toolchain'', ''component'', ''target'', ''default'', ''update'',
     ''which'', ''doc'', ''self'', ''completions'', ''set'', ''override'']"

definition launched_writes_nonsink :: "string list \<Rightarrow> bool" where
  "launched_writes_nonsink ws = list_ex (\<lambda>p. \<not> is_safe_write_sink p) (command_words_write_paths ws)"

definition package_managers :: "string list" where
  "package_managers = [''uv'', ''uvx'', ''npm'', ''npx'', ''pnpm'', ''yarn'', ''rustup'']"

definition safe_subcommand :: "string \<Rightarrow> string list \<Rightarrow> bool" where
  "safe_subcommand prog inner =
     (case launcher_subcommand prog inner of
        None \<Rightarrow> False
      | Some s \<Rightarrow>
          if prog \<in> {''npm'', ''pnpm'', ''yarn''} then s \<in> set NPM_SAFE_SUBCOMMANDS
          else if prog = ''uv'' then s \<in> set UV_SAFE_SUBCOMMANDS
          else prog = ''rustup'' \<and> s \<in> set RUSTUP_SAFE_SUBCOMMANDS)"

section \<open>Other programs\<close>

definition ROUTINE_PREFIXES :: "string list" where
  "ROUTINE_PREFIXES = [''cargo '', ''git add'', ''git commit'', ''git checkout'', ''git switch'', ''git stash'',
     ''git pull'', ''git fetch'', ''git worktree list'', ''pytest'', ''python '', ''python3 '', ''node '',
     ''rustc '', ''rustfmt'', ''clippy'', ''make '', ''cmake '', ''cd'', ''pushd'', ''popd'', ''ls'', ''pwd'',
     ''echo '', ''printf '', ''cat '', ''head '', ''tail '', ''wc '', ''rg '', ''grep '', ''which '', ''type '',
     ''true'', ''false'', ''test '', ''sort '', ''uniq '', ''tr '', ''cut '', ''diff '', ''jq '', ''date'',
     ''whoami'', ''hostname'', ''uname'', ''nproc'', ''printenv'', ''stat '', ''file '', ''tree'', ''basename '',
     ''dirname '', ''realpath '', ''readlink '', ''strings '', ''sleep '', ''df '', ''du '', ''ps '', ''top'',
     ''htop'', ''bazel '', ''just '', ''go '', ''kubectl get'', ''kubectl logs'', ''kubectl describe'', ''set'']"

definition is_lone_wrapper :: "string list \<Rightarrow> bool" where
  "is_lone_wrapper ws \<longleftrightarrow> length ws = 1 \<and> is_wrapper_command ws"

definition find_is_read_only :: "string list \<Rightarrow> bool" where
  "find_is_read_only ws = (\<not> list_ex (\<lambda>w. w \<in> {''-delete'', ''-exec'', ''-execdir'', ''-ok'', ''-okdir'',
     ''-fprint'', ''-fprint0'', ''-fprintf'', ''-fls''}) ws)"

definition nonflag_tokens :: "string list \<Rightarrow> nat \<Rightarrow> string list" where
  "nonflag_tokens inner n = take n (filter (\<lambda>w. \<not> prefix ''-'' w) (drop 1 inner))"

definition gh_subcommand_is_read_only :: "string list \<Rightarrow> bool" where
  "gh_subcommand_is_read_only inner =
     (case nonflag_tokens inner 2 of
        [grp, sub] \<Rightarrow>
          (grp \<in> {''pr'', ''issue'', ''release'', ''run'', ''workflow'', ''repo'', ''gist''}
             \<and> sub \<in> {''view'', ''list'', ''status'', ''checks'', ''diff''})
          \<or> (grp = ''auth'' \<and> sub = ''status'')
      | [only] \<Rightarrow> only = ''status''
      | _ \<Rightarrow> False)"

definition tree_writes :: "string list \<Rightarrow> bool" where
  "tree_writes inner = list_ex (\<lambda>w. (prefix ''-'' w \<and> \<not> prefix ''--'' w \<and> CHR ''o'' \<in> set w)
     \<or> prefix ''--output'' w) inner"

definition matches_routine_prefix :: "string list \<Rightarrow> bool" where
  "matches_routine_prefix inner =
     (let joined = to_ascii_lowercase (join_with '' '' inner)
      in list_ex (\<lambda>p. let base = trim p
           in joined = base \<or> (prefix base joined \<and> prefix '' '' (drop (length base) joined))) ROUTINE_PREFIXES)"

text \<open>What is checked of a command that is no package manager.\<close>

definition program_is_routine :: "string \<Rightarrow> string list \<Rightarrow> bool" where
  "program_is_routine head inner =
     (if head = ''find'' then find_is_read_only inner
      else if head = ''git'' \<and> git_words_are_read_only_query inner then True
      else if head = ''git'' \<and> git_words_have_unsafe_query_option inner then False
      else if head = ''tree'' \<and> tree_writes inner then False
      else if head = ''rg'' \<and> list_ex (\<lambda>w. w = ''--pre'' \<or> prefix ''--pre='' w) inner then False
      else if head = ''kubectl'' \<and> list_ex (\<lambda>w. flag_name w \<in> set KUBECTL_UNSAFE_FLAGS) (drop 1 inner) then False
      else if head = ''gh'' then gh_subcommand_is_read_only inner
      else matches_routine_prefix inner)"

section \<open>A command\<close>

lemma unwrap_wrappers_length: "length (unwrap_wrappers ws) \<le> length ws"
  using unwrap_suffix [of ws] by (simp add: unwrap_wrappers_def suffix_length_le)

lemma explicit_launch_shorter: "explicit_launch_target head inner = Inner launched \<Longrightarrow> length launched < length inner"
  by (auto simp: explicit_launch_target_def launch_start_def nth_word_def split: option.splits if_splits)

function bash_command_is_routine :: "string list \<Rightarrow> bool" where
  "bash_command_is_routine ws =
     (let inner = unwrap_wrappers ws
      in if inner = [] \<or> is_lone_wrapper inner then True
         else
           (let head = to_ascii_lowercase (basename (hd inner))
            in if head \<in> set package_managers then
                 (if is_remote_launcher head inner then False
                  else (case explicit_launch_target head inner of
                          Unresolved \<Rightarrow> False
                        | Inner launched \<Rightarrow>
                            command_env_risk launched = Env_Safe
                            \<and> \<not> launched_writes_nonsink launched
                            \<and> bash_command_is_routine launched
                        | NotLauncher \<Rightarrow> safe_subcommand head inner))
               else program_is_routine head inner))"
  by pat_completeness auto
termination
proof (relation "measure length")
  fix ws inner head launched
  assume "inner = unwrap_wrappers ws" "explicit_launch_target head inner = Inner launched"
  then show "(launched, ws) \<in> measure length"
    using explicit_launch_shorter [of head inner launched] unwrap_wrappers_length [of ws] by simp
qed simp

declare bash_command_is_routine.simps [simp del]

section \<open>A request\<close>

definition classify_bash :: "field_lookup \<Rightarrow> shell_parser \<Rightarrow> string \<Rightarrow> classifier_verdict" where
  "classify_bash field parse cmd =
     (case parse cmd of
        None \<Rightarrow> CV_Block
      | Some t \<Rightarrow>
          (case try_parse_word_only_commands_sequence t cmd of
             None \<Rightarrow> CV_Block
           | Some cmds \<Rightarrow>
               if script_env_risk (root_node t) cmd cmds \<noteq> Env_Safe then CV_Block
               else if list_ex (\<lambda>p. \<not> is_safe_write_sink p) (command_write_paths_in_tree field (root_node t) cmd) then CV_Block
               else if cmds \<noteq> [] \<and> list_all (\<lambda>c. bash_command_is_routine (pc_words c)) cmds then CV_Allow
               else CV_Block))"

definition dangerous_patterns :: "string list" where
  "dangerous_patterns = [''rm -rf /'', ''rm -rf /*'', ''mkfs'', ''dd if='', '':(){ :|:& };:'', ''curl | sh'',
     ''curl|sh'', ''curl | bash'', ''curl|bash'', ''wget | sh'', ''wget|sh'', ''wget | bash'', ''wget|bash'',
     ''chmod 777'', ''chmod -r 777'', ''chmod +x /tmp'', ''base64 -d'', ''base64 --decode'', ''nc -e'', ''ncat -e'',
     ''/dev/tcp/'', ''shutdown'', ''reboot'', ''useradd'', ''userdel'', ''passwd '', ''chown -r /'', ''iptables -f'',
     ''kill -9 1'', ''sudo rm'', ''sudo dd'', ''sudo mkfs'', ''exfiltrat'', ''steal credential'', ''send secrets'']"

definition hostile_intents :: "string list" where
  "hostile_intents = [''delete all files'', ''wipe the disk'', ''exfiltrate'', ''steal secrets'',
     ''send my credentials'', ''ignore safety'', ''bypass permission'']"

definition pipes_to_shell :: "string \<Rightarrow> bool" where
  "pipes_to_shell blob \<longleftrightarrow>
     (sublist ''curl'' blob \<or> sublist ''wget'' blob \<or> sublist ''fetch'' blob)
     \<and> (sublist ''| sh'' blob \<or> sublist ''|sh'' blob \<or> sublist ''| bash'' blob \<or> sublist ''|bash'' blob
        \<or> sublist ''| zsh'' blob \<or> sublist ''|zsh'' blob)"

definition classify_sync ::
  "field_lookup \<Rightarrow> shell_parser \<Rightarrow> string \<Rightarrow> access_kind \<Rightarrow> string option \<Rightarrow> classifier_turn list \<Rightarrow> classifier_verdict" where
  "classify_sync field parse tool_name access access_detail turns =
     (let detail = to_ascii_lowercase (case access_detail of Some d \<Rightarrow> d | None \<Rightarrow> []);
          tl = to_ascii_lowercase tool_name;
          transcript = to_ascii_lowercase (transcript_text turns);
          blob = tl @ '' '' @ detail @ '' '' @ transcript
      in if sublist ''ask_user'' tl \<or> sublist ''askuserquestion'' tl then CV_Block
         else if list_ex (\<lambda>p. sublist p blob) dangerous_patterns then CV_Block
         else if pipes_to_shell blob then CV_Block
         else if list_ex (\<lambda>p. sublist p transcript) hostile_intents then CV_Block
         else (case access of
                 Bash cmd \<Rightarrow> classify_bash field parse cmd
               | Read _ \<Rightarrow> CV_Allow
               | Grep _ _ \<Rightarrow> CV_Allow
               | WebSearch _ \<Rightarrow> CV_Allow
               | _ \<Rightarrow> CV_Block))"

section \<open>Fast paths\<close>

definition access_requires_user_interaction :: "string \<Rightarrow> access_kind \<Rightarrow> bool" where
  "access_requires_user_interaction tool_name access \<longleftrightarrow>
     (let t = to_ascii_lowercase tool_name
      in sublist ''ask_user'' t \<or> sublist ''askuserquestion'' t \<or> sublist ''user_question'' t
         \<or> t = ''ask_user_question'')
     \<or> (case access of
          MCPTool name _ \<Rightarrow>
            (let n = to_ascii_lowercase name
             in sublist ''ask_user'' n \<or> (sublist ''confirm'' n \<and> sublist ''human'' n))
        | _ \<Rightarrow> False)"

definition is_auto_mode_allowlisted_access :: "access_kind \<Rightarrow> bool" where
  "is_auto_mode_allowlisted_access access =
     (case access of Read _ \<Rightarrow> True | Grep _ _ \<Rightarrow> True | WebSearch _ \<Rightarrow> True | _ \<Rightarrow> False)"

definition is_auto_mode_allowlisted_tool_name :: "string \<Rightarrow> bool" where
  "is_auto_mode_allowlisted_tool_name tool_name \<longleftrightarrow> tool_name \<in> {''todo_write'', ''TodoWrite'', ''task_output'',
     ''TaskOutput'', ''wait_tasks'', ''WaitTasks'', ''ask_user_question'', ''AskUserQuestion'', ''enter_plan_mode'',
     ''EnterPlanMode'', ''exit_plan_mode'', ''ExitPlanMode'', ''switch_mode'', ''SwitchMode'', ''create_plan'',
     ''CreatePlan'', ''update_plan'', ''UpdatePlan'', ''list_mcp_resources'', ''ListMcpResources'',
     ''read_mcp_resource'', ''ReadMcpResource'', ''tool_search'', ''ToolSearch'', ''sleep'', ''Sleep''}"

datatype auto_fast_path = FP_Allow | FP_PromptUser | FP_Classify

definition auto_mode_fast_path :: "access_kind \<Rightarrow> string \<Rightarrow> bool \<Rightarrow> auto_fast_path" where
  "auto_mode_fast_path access tool_name requires_user_interaction =
     (if requires_user_interaction then FP_PromptUser
      else if is_auto_mode_allowlisted_access access \<or> is_auto_mode_allowlisted_tool_name tool_name then FP_Allow
      else (case access of
              Edit _ \<Rightarrow> FP_Allow
            | AgentMessage _ \<Rightarrow> FP_Allow
            | Bash cmd \<Rightarrow> if trim cmd \<in> {''true'', '':'', ''false''} then FP_Allow else FP_Classify
            | _ \<Rightarrow> FP_Classify))"

end
