(* ===== verification/Routine_Props.thy ===== *)
theory Routine_Props
  imports Routine_Commands Grant_Props
begin

text \<open>
  What the rule-based classifier lets pass: a script that decomposes, sets no environment that
  matters, writes only to sinks, and whose commands are routine through every launcher.
\<close>

section \<open>Launched commands\<close>

text \<open>The commands that a command line hands on, through wrappers and package managers.\<close>

definition head_of :: "string list \<Rightarrow> string" where
  "head_of ws = to_ascii_lowercase (basename (hd (unwrap_wrappers ws)))"

inductive launches :: "string list \<Rightarrow> string list \<Rightarrow> bool" where
  launches_self: "launches ws ws"
| launches_inner: "launches ws last_ws"
    if "head_of ws \<in> set package_managers" "unwrap_wrappers ws \<noteq> []" "\<not> is_lone_wrapper (unwrap_wrappers ws)"
      "explicit_launch_target (head_of ws) (unwrap_wrappers ws) = Inner launched" "launches launched last_ws"

text \<open>What a routine command is at its own level.\<close>

definition routine_here :: "string list \<Rightarrow> bool" where
  "routine_here ws \<longleftrightarrow> unwrap_wrappers ws = [] \<or> is_lone_wrapper (unwrap_wrappers ws)
     \<or> (if head_of ws \<in> set package_managers
         then \<not> is_remote_launcher (head_of ws) (unwrap_wrappers ws)
           \<and> (explicit_launch_target (head_of ws) (unwrap_wrappers ws) = NotLauncher
                \<and> safe_subcommand (head_of ws) (unwrap_wrappers ws)
              \<or> (\<exists>launched. explicit_launch_target (head_of ws) (unwrap_wrappers ws) = Inner launched
                    \<and> command_env_risk launched = Env_Safe \<and> \<not> launched_writes_nonsink launched))
         else program_is_routine (head_of ws) (unwrap_wrappers ws))"

lemma routine_unfold:
  "bash_command_is_routine ws \<longleftrightarrow> routine_here ws \<and>
     (unwrap_wrappers ws = [] \<or> is_lone_wrapper (unwrap_wrappers ws) \<or> head_of ws \<notin> set package_managers
      \<or> (\<forall>launched. explicit_launch_target (head_of ws) (unwrap_wrappers ws) = Inner launched \<longrightarrow>
           bash_command_is_routine launched))"
  by (subst bash_command_is_routine.simps)
    (auto simp: routine_here_def head_of_def Let_def split: launch_target.splits)

lemma routine_launches: "launches ws ws' \<Longrightarrow> bash_command_is_routine ws \<Longrightarrow> bash_command_is_routine ws'"
proof (induction rule: launches.induct)
  case (launches_inner ws launched last_ws)
  then have "bash_command_is_routine launched" using routine_unfold [of ws] by blast
  with launches_inner.IH show ?case .
qed

lemma routine_everywhere: "bash_command_is_routine ws \<longleftrightarrow> (\<forall>ws'. launches ws ws' \<longrightarrow> routine_here ws')"
proof
  show "bash_command_is_routine ws \<Longrightarrow> \<forall>ws'. launches ws ws' \<longrightarrow> routine_here ws'"
    using routine_launches routine_unfold by blast
  show "\<forall>ws'. launches ws ws' \<longrightarrow> routine_here ws' \<Longrightarrow> bash_command_is_routine ws"
  proof (induction ws rule: bash_command_is_routine.induct)
    case (1 ws)
    have "bash_command_is_routine launched"
      if here: "unwrap_wrappers ws \<noteq> []" "\<not> is_lone_wrapper (unwrap_wrappers ws)" "head_of ws \<in> set package_managers"
        and l: "explicit_launch_target (head_of ws) (unwrap_wrappers ws) = Inner launched" for launched
    proof -
      have all: "\<forall>ws'. launches launched ws' \<longrightarrow> routine_here ws'"
        using "1.prems" launches_inner [OF here(3,1,2) l] by blast
      have "routine_here ws" using "1.prems" launches_self by blast
      with here l have "\<not> is_remote_launcher (head_of ws) (unwrap_wrappers ws)" "command_env_risk launched = Env_Safe"
        "\<not> launched_writes_nonsink launched"
        by (auto simp: routine_here_def)
      with "1.IH" [OF refl _ refl, of launched] here l all show ?thesis by (simp add: head_of_def)
    qed
    moreover have "routine_here ws" using "1.prems" launches_self by blast
    ultimately show ?case using routine_unfold [of ws] by blast
  qed
qed

section \<open>Properties\<close>

text \<open>
  C5: the classifier's allow on a script is exactly this: the script parses and decomposes into at
  least one plain command, no assignment and no \<open>env\<close> sets a variable outside the cosmetic ones,
  everything it is known to write is a sink, and every command that its commands launch, through any
  chain of wrappers and package managers, is routine where it stands: no remote runner, no launcher
  with options, no hidden write or environment, and a listed subcommand or program in the end.
\<close>

theorem classifier_allows_exactly_routine_scripts:
  "classify_bash field parse cmd = CV_Allow \<longleftrightarrow>
     (\<exists>t cmds. parse cmd = Some t \<and> try_parse_word_only_commands_sequence t cmd = Some cmds \<and> cmds \<noteq> []
        \<and> script_env_risk (root_node t) cmd cmds = Env_Safe
        \<and> list_all is_safe_write_sink (command_write_paths_in_tree field (root_node t) cmd)
        \<and> \<not> (\<exists>c\<in>set cmds. \<exists>ws. launches (pc_words c) ws \<and> \<not> routine_here ws))"
  unfolding classify_bash_def
  by (auto simp: list_all_iff list_ex_iff routine_everywhere split: option.splits)

end
