(* ===== verification/Protected_Edits.thy ===== *)
theory Protected_Edits
  imports Path_Rules
begin

text \<open>
  The edit targets that still prompt when edits are accepted (\<open>permission/shell_access.rs\<close>): hooks,
  credentials, start-up files, the agent's own configuration. The agent's home directory is the
  argument \<open>home\<close>, as \<open>user_grok_home\<close> finds it.
\<close>

datatype protected_edit_reason = HookRoot | GitHooks | Ssh | StartupFile | Etc | GrokConfig | GrokSandbox
  | ClaudeSettings | CursorHooks | Sensitive

fun reason_kind :: "protected_edit_reason \<Rightarrow> string" where
  "reason_kind HookRoot = ''hook_root''"
| "reason_kind GitHooks = ''git_hooks''"
| "reason_kind Ssh = ''ssh''"
| "reason_kind StartupFile = ''startup_file''"
| "reason_kind Etc = ''etc''"
| "reason_kind GrokConfig = ''grok_config''"
| "reason_kind GrokSandbox = ''grok_sandbox''"
| "reason_kind ClaudeSettings = ''claude_settings''"
| "reason_kind CursorHooks = ''cursor_hooks''"
| "reason_kind Sensitive = ''sensitive''"

definition STARTUP_FILES :: "string list" where
  "STARTUP_FILES = [''.bashrc'', ''.bash_profile'', ''.bash_login'', ''.bash_logout'', ''.profile'', ''.zshrc'',
     ''.zshenv'', ''.zprofile'', ''.zlogin'', ''.zlogout'', ''.kshrc'', ''.cshrc'', ''.tcshrc'', ''.login'',
     ''.logout'', ''.inputrc'', ''.xprofile'']"

text \<open>\<open>Path::starts_with\<close> and \<open>==\<close> compare components.\<close>

definition path_starts_with :: "string \<Rightarrow> string \<Rightarrow> bool" where
  "path_starts_with p base = prefix (components base) (components p)"

definition path_eq :: "string \<Rightarrow> string \<Rightarrow> bool" where
  "path_eq p q \<longleftrightarrow> components p = components q"

definition lowered_names :: "string \<Rightarrow> string list" where
  "lowered_names p = List.map_filter (\<lambda>c. case c of Normal part \<Rightarrow> Some (to_ascii_lowercase part) | _ \<Rightarrow> None) (components p)"

section \<open>The agent's home\<close>

definition grok_home_matches :: "filesystem \<Rightarrow> string option \<Rightarrow> (string \<Rightarrow> bool) \<Rightarrow> bool" where
  "grok_home_matches fs home pred =
     (case home of
        None \<Rightarrow> False
      | Some h \<Rightarrow>
          (let lexical = normalize_lexically h
           in pred lexical
              \<or> (case resolve_following_symlinks fs lexical of Some resolved \<Rightarrow> pred resolved | None \<Rightarrow> False)))"

definition path_is_under_user_grok_hook_root :: "string \<Rightarrow> string \<Rightarrow> bool" where
  "path_is_under_user_grok_hook_root p grok_home \<longleftrightarrow>
     path_starts_with p (path_join grok_home ''hooks'') \<or> path_eq p (path_join grok_home ''hooks-paths'')"

section \<open>Kinds of targets\<close>

text \<open>Two neighbours in a list, as \<open>windows(2)\<close> finds them.\<close>

definition has_neighbours :: "'a \<Rightarrow> 'a \<Rightarrow> 'a list \<Rightarrow> bool" where
  "has_neighbours a b xs = list_ex (\<lambda>(x, y). x = a \<and> y = b) (zip xs (drop 1 xs))"

definition protected_grok_hook_root :: "filesystem \<Rightarrow> string option \<Rightarrow> string \<Rightarrow> string list \<Rightarrow> bool" where
  "protected_grok_hook_root fs home p cs \<longleftrightarrow>
     has_neighbours ''.grok'' ''hooks'' cs
     \<or> suffix [''.grok'', ''hooks-paths''] cs
     \<or> grok_home_matches fs home (path_is_under_user_grok_hook_root p)"

text \<open>A \<open>.git/modules\<close> with \<open>hooks\<close> at least two components further down.\<close>

fun submodule_hooks :: "string list \<Rightarrow> bool" where
  "submodule_hooks [] = False"
| "submodule_hooks (c # cs) \<longleftrightarrow>
     (c = ''.git'' \<and> (case cs of m # rest \<Rightarrow> m = ''modules'' \<and> ''hooks'' \<in> set (drop 1 rest) | [] \<Rightarrow> False))
     \<or> submodule_hooks cs"

definition protected_git_hooks_path :: "string list \<Rightarrow> bool" where
  "protected_git_hooks_path cs \<longleftrightarrow> has_neighbours ''.git'' ''hooks'' cs \<or> submodule_hooks cs"

definition config_file_reason :: "string list \<Rightarrow> protected_edit_reason option" where
  "config_file_reason cs =
     (case rev cs of
        [] \<Rightarrow> None
      | f # _ \<Rightarrow>
          if f \<in> {''config.toml'', ''managed_config.toml'', ''requirements.toml''} then Some GrokConfig
          else if f = ''sandbox.toml'' then Some GrokSandbox
          else None)"

definition protected_grok_config_file ::
  "filesystem \<Rightarrow> string option \<Rightarrow> string \<Rightarrow> string list \<Rightarrow> protected_edit_reason option" where
  "protected_grok_config_file fs home p cs =
     (case config_file_reason cs of
        None \<Rightarrow> None
      | Some r \<Rightarrow>
          if (2 \<le> length cs \<and> cs ! (length cs - 2) = ''.grok'')
             \<or> grok_home_matches fs home (\<lambda>h. case path_parent p of Some d \<Rightarrow> path_eq d h | None \<Rightarrow> False)
          then Some r else None)"

definition protected_edit_reason_of :: "filesystem \<Rightarrow> string option \<Rightarrow> string \<Rightarrow> protected_edit_reason option" where
  "protected_edit_reason_of fs home p =
     (let cs = lowered_names p;
          file = (case rev cs of f # _ \<Rightarrow> f | [] \<Rightarrow> [])
      in if protected_grok_hook_root fs home p cs then Some HookRoot
         else if suffix [''.claude'', ''settings.json''] cs \<or> suffix [''.claude'', ''settings.local.json''] cs
           then Some ClaudeSettings
         else if suffix [''.cursor'', ''hooks.json''] cs then Some CursorHooks
         else if protected_git_hooks_path cs then Some GitHooks
         else if ''.ssh'' \<in> set cs then Some Ssh
         else if file \<in> set STARTUP_FILES then Some StartupFile
         else (case protected_grok_config_file fs home p cs of
                 Some r \<Rightarrow> Some r
               | None \<Rightarrow> if path_eq p ''/etc'' \<or> path_starts_with p ''/etc'' then Some Etc else None))"

section \<open>An edit\<close>

definition resolved_path_is_within_root :: "filesystem \<Rightarrow> string \<Rightarrow> string \<Rightarrow> bool" where
  "resolved_path_is_within_root fs resolved dir =
     (case resolve_following_symlinks fs dir of Some d \<Rightarrow> path_starts_with resolved d | None \<Rightarrow> True)"

definition edit_target_protection :: "filesystem \<Rightarrow> string option \<Rightarrow> string \<Rightarrow> protected_edit_reason option" where
  "edit_target_protection fs home p =
     (if \<not> is_absolute p then Some Sensitive
      else (case protected_edit_reason_of fs home (normalize_lexically p) of
              Some r \<Rightarrow> Some r
            | None \<Rightarrow>
                (case resolve_following_symlinks fs p of
                   None \<Rightarrow> Some Sensitive
                 | Some resolved \<Rightarrow>
                     (case protected_edit_reason_of fs home resolved of
                        Some r \<Rightarrow> Some r
                      | None \<Rightarrow> if resolved_path_is_within_root fs resolved ''/etc'' then Some Sensitive else None))))"

section \<open>The places that are protected\<close>

text \<open>Component sequences that never pass silently, in any ASCII case and with anything around them.\<close>

definition config_names :: "string set" where
  "config_names = {''config.toml'', ''managed_config.toml'', ''requirements.toml'', ''sandbox.toml''}"

definition guarded :: "string list \<Rightarrow> bool" where
  "guarded cs \<longleftrightarrow>
     ''.ssh'' \<in> set cs
     \<or> (\<exists>a b. cs = a @ [''.grok'', ''hooks''] @ b)
     \<or> (\<exists>a b. cs = a @ [''.git'', ''hooks''] @ b)
     \<or> (\<exists>a m b c. cs = a @ [''.git'', ''modules'', m] @ b @ [''hooks''] @ c)
     \<or> (\<exists>a f. cs = a @ [f] \<and> f \<in> set STARTUP_FILES)
     \<or> (\<exists>a. cs = a @ [''.grok'', ''hooks-paths''])
     \<or> (\<exists>a f. cs = a @ [''.grok'', f] \<and> f \<in> config_names)
     \<or> (\<exists>a. cs = a @ [''.claude'', ''settings.json''] \<or> cs = a @ [''.claude'', ''settings.local.json''])
     \<or> (\<exists>a. cs = a @ [''.cursor'', ''hooks.json''])"

lemma has_neighbours_iff: "has_neighbours a b xs \<longleftrightarrow> (\<exists>us vs. xs = us @ [a, b] @ vs)"
proof (induction xs)
  case (Cons x xs)
  have "has_neighbours a b (x # xs) \<longleftrightarrow> (xs \<noteq> [] \<and> x = a \<and> hd xs = b) \<or> has_neighbours a b xs"
    by (cases xs) (auto simp: has_neighbours_def)
  also have "\<dots> \<longleftrightarrow> (\<exists>us vs. x # xs = us @ [a, b] @ vs)"
    using Cons by (cases xs) (auto simp: Cons_eq_append_conv)
  finally show ?case .
qed (simp add: has_neighbours_def)

lemma member_split: "x \<in> set xs \<longleftrightarrow> (\<exists>b c. xs = b @ [x] @ c)"
  by (auto simp: in_set_conv_decomp)

lemma submodule_hooks_iff:
  "submodule_hooks cs \<longleftrightarrow> (\<exists>a m b c. cs = a @ [''.git'', ''modules'', m] @ b @ [''hooks''] @ c)"
proof (induction cs)
  case (Cons x xs)
  have here: "(case xs of m # rest \<Rightarrow> m = ''modules'' \<and> ''hooks'' \<in> set (drop 1 rest) | [] \<Rightarrow> False) \<longleftrightarrow>
      (\<exists>m b c. xs = [''modules'', m] @ b @ [''hooks''] @ c)"
  proof (cases xs)
    case (Cons m rest)
    then show ?thesis by (cases rest) (simp_all add: member_split)
  qed simp
  have "(\<exists>a m b c. x # xs = a @ [''.git'', ''modules'', m] @ b @ [''hooks''] @ c) \<longleftrightarrow>
      (x = ''.git'' \<and> (\<exists>m b c. xs = [''modules'', m] @ b @ [''hooks''] @ c)) \<or>
      (\<exists>a m b c. xs = a @ [''.git'', ''modules'', m] @ b @ [''hooks''] @ c)"
    (is "?l \<longleftrightarrow> ?r")
  proof
    assume ?l
    then obtain a m b c where e: "x # xs = a @ [''.git'', ''modules'', m] @ b @ [''hooks''] @ c" by blast
    show ?r
    proof (cases a)
      case (Cons y ys)
      with e have "xs = ys @ [''.git'', ''modules'', m] @ b @ [''hooks''] @ c" by simp
      then show ?r by blast
    next
      case Nil
      with e have "x = ''.git'' \<and> xs = [''modules'', m] @ b @ [''hooks''] @ c" by simp
      then show ?r by blast
    qed
  next
    assume ?r
    then show ?l
    proof
      assume "x = ''.git'' \<and> (\<exists>m b c. xs = [''modules'', m] @ b @ [''hooks''] @ c)"
      then show ?l by (metis append_Cons append_Nil)
    next
      assume "\<exists>a m b c. xs = a @ [''.git'', ''modules'', m] @ b @ [''hooks''] @ c"
      then show ?l by (metis append_Cons)
    qed
  qed
  with here Cons.IH show ?case by simp
qed simp

lemma suffix_two: "suffix [x, y] cs \<longleftrightarrow> (\<exists>a. cs = a @ [x, y])"
  by (auto simp: suffix_def)

lemma last_file: "(case rev cs of f # _ \<Rightarrow> f | [] \<Rightarrow> []) \<in> set STARTUP_FILES \<longleftrightarrow> (\<exists>a f. cs = a @ [f] \<and> f \<in> set STARTUP_FILES)"
proof (cases cs rule: rev_cases)
  case Nil
  then show ?thesis by (simp add: STARTUP_FILES_def)
qed simp

lemma config_file_reason_iff: "config_file_reason cs \<noteq> None \<longleftrightarrow> (\<exists>a f. cs = a @ [f] \<and> f \<in> config_names)"
  by (cases cs rule: rev_cases) (simp_all add: config_file_reason_def config_names_def)

lemma config_in_dot_grok:
  "config_file_reason cs \<noteq> None \<and> 2 \<le> length cs \<and> cs ! (length cs - 2) = ''.grok'' \<longleftrightarrow>
     (\<exists>a f. cs = a @ [''.grok'', f] \<and> f \<in> config_names)"
  unfolding config_file_reason_iff
proof (cases cs rule: rev_cases)
  case (snoc ys y)
  then show "(\<exists>a f. cs = a @ [f] \<and> f \<in> config_names) \<and> 2 \<le> length cs \<and> cs ! (length cs - 2) = ''.grok'' \<longleftrightarrow>
     (\<exists>a f. cs = a @ [''.grok'', f] \<and> f \<in> config_names)"
    by (cases ys rule: rev_cases) (auto simp: nth_append)
qed simp

definition in_agent_home :: "filesystem \<Rightarrow> string option \<Rightarrow> string \<Rightarrow> bool" where
  "in_agent_home fs home p \<longleftrightarrow>
     grok_home_matches fs home (path_is_under_user_grok_hook_root p)
     \<or> (\<exists>a f. lowered_names p = a @ [f] \<and> f \<in> config_names)
       \<and> grok_home_matches fs home (\<lambda>h. case path_parent p of Some d \<Rightarrow> path_eq d h | None \<Rightarrow> False)"

lemma if_Some_None: "(if b then Some r else x) \<noteq> None \<longleftrightarrow> b \<or> x \<noteq> None"
  by simp

lemma case_Some_None: "(case y of Some r \<Rightarrow> Some r | None \<Rightarrow> x) \<noteq> None \<longleftrightarrow> y \<noteq> None \<or> x \<noteq> None"
  by (cases y) simp_all

lemma regroup:
  "(gh \<or> ghp \<or> hooks) \<or> c1 \<or> c2 \<or> cu \<or> (git \<or> sub) \<or> ssh \<or> start \<or> (cfg \<or> home) \<or> etc \<longleftrightarrow>
     (ssh \<or> gh \<or> git \<or> sub \<or> start \<or> ghp \<or> cfg \<or> (c1 \<or> c2) \<or> cu) \<or> (hooks \<or> home) \<or> etc"
  by blast

lemma protected_iff:
  "protected_edit_reason_of fs home p \<noteq> None \<longleftrightarrow>
     guarded (lowered_names p) \<or> in_agent_home fs home p \<or> path_starts_with p ''/etc''"
proof -
  let ?cs = "lowered_names p"
  let ?hooks = "grok_home_matches fs home (path_is_under_user_grok_hook_root p)"
  let ?parent = "grok_home_matches fs home (\<lambda>h. case path_parent p of Some d \<Rightarrow> path_eq d h | None \<Rightarrow> False)"
  have config: "protected_grok_config_file fs home p ?cs \<noteq> None \<longleftrightarrow>
      (\<exists>a f. ?cs = a @ [''.grok'', f] \<and> f \<in> config_names) \<or> ((\<exists>a f. ?cs = a @ [f] \<and> f \<in> config_names) \<and> ?parent)"
    unfolding config_in_dot_grok [symmetric] config_file_reason_iff [symmetric]
    by (auto simp: protected_grok_config_file_def split: option.splits if_splits)
  have etc: "path_eq p ''/etc'' \<or> path_starts_with p ''/etc'' \<longleftrightarrow> path_starts_with p ''/etc''"
    by (auto simp: path_eq_def path_starts_with_def)
  have steps: "protected_edit_reason_of fs home p \<noteq> None \<longleftrightarrow>
      protected_grok_hook_root fs home p ?cs
      \<or> suffix [''.claude'', ''settings.json''] ?cs \<or> suffix [''.claude'', ''settings.local.json''] ?cs
      \<or> suffix [''.cursor'', ''hooks.json''] ?cs \<or> protected_git_hooks_path ?cs \<or> ''.ssh'' \<in> set ?cs
      \<or> (case rev ?cs of f # _ \<Rightarrow> f | [] \<Rightarrow> []) \<in> set STARTUP_FILES
      \<or> protected_grok_config_file fs home p ?cs \<noteq> None \<or> path_starts_with p ''/etc''"
    unfolding protected_edit_reason_of_def Let_def if_Some_None case_Some_None etc by (simp only: simp_thms disj_assoc)
  show ?thesis
    unfolding steps config protected_grok_hook_root_def protected_git_hooks_path_def has_neighbours_iff
      submodule_hooks_iff suffix_two last_file guarded_def in_agent_home_def ex_disj_distrib
    by (rule regroup)
qed

lemma unprotected_iff:
  "protected_edit_reason_of fs home p = None \<longleftrightarrow>
     \<not> guarded (lowered_names p) \<and> \<not> in_agent_home fs home p \<and> \<not> path_starts_with p ''/etc''"
  using protected_iff [of fs home p] by blast

lemma lowered_place:
  assumes "is_absolute p"
  shows "lowered_names (normalize_lexically p) = map to_ascii_lowercase (place [] p)"
  unfolding lowered_names_def normalized_absolute_text(3) [OF assms]
  by (simp add: map_filter_simps List.map_filter_def comp_def)

section \<open>Properties\<close>

text \<open>
  C6: an edit passes without a prompt only if it cannot change what later runs by itself. Its path is
  absolute; the place it leads to without symbolic links, however it is spelled, and the place it
  leads to with them both lie outside \<open>.ssh\<close>, Git and agent hooks, submodule hooks, shell start-up
  files, the agent's and compatible configuration, in any ASCII case, outside the agent's home where
  it counts, and outside \<open>/etc\<close>, also when \<open>/etc\<close> is itself a link.
\<close>

theorem unprompted_edits_are_harmless:
  "edit_target_protection fs home p = None \<longleftrightarrow>
     is_absolute p
     \<and> \<not> guarded (map to_ascii_lowercase (place [] p))
     \<and> \<not> in_agent_home fs home (normalize_lexically p)
     \<and> \<not> prefix [''etc''] (place [] p)
     \<and> (\<exists>resolved. resolve_following_symlinks fs p = Some resolved
          \<and> \<not> guarded (lowered_names resolved) \<and> \<not> in_agent_home fs home resolved
          \<and> \<not> path_starts_with resolved ''/etc''
          \<and> (\<exists>etc. resolve_following_symlinks fs ''/etc'' = Some etc \<and> \<not> path_starts_with resolved etc))"
proof (cases "is_absolute p")
  case True
  have "components ''/etc'' = [RootDir, Normal ''etc'']" by code_simp
  then have etc: "path_starts_with (normalize_lexically p) ''/etc'' \<longleftrightarrow> prefix [''etc''] (place [] p)"
    by (cases "place [] p") (auto simp: path_starts_with_def normalized_absolute_text(3) [OF True])
  have "edit_target_protection fs home p = None \<longleftrightarrow>
      protected_edit_reason_of fs home (normalize_lexically p) = None
      \<and> (\<exists>resolved. resolve_following_symlinks fs p = Some resolved
          \<and> protected_edit_reason_of fs home resolved = None
          \<and> \<not> resolved_path_is_within_root fs resolved ''/etc'')"
    using True by (simp add: edit_target_protection_def split: option.split)
  also have "\<dots> \<longleftrightarrow> \<not> guarded (map to_ascii_lowercase (place [] p)) \<and> \<not> in_agent_home fs home (normalize_lexically p)
      \<and> \<not> prefix [''etc''] (place [] p)
      \<and> (\<exists>resolved. resolve_following_symlinks fs p = Some resolved
          \<and> \<not> guarded (lowered_names resolved) \<and> \<not> in_agent_home fs home resolved
          \<and> \<not> path_starts_with resolved ''/etc''
          \<and> (\<exists>etc. resolve_following_symlinks fs ''/etc'' = Some etc \<and> \<not> path_starts_with resolved etc))"
    unfolding unprotected_iff lowered_place [OF True] etc
    by (auto simp: resolved_path_is_within_root_def split: option.splits)
  finally show ?thesis using True by blast
qed (simp add: edit_target_protection_def)

end
