(* ===== verification/Hunk_Diff.thy ===== *)
theory Hunk_Diff
  imports Unix_Path
begin

text \<open>
  The diff layer of \<open>crates/codegen/xai-hunk-tracker\<close> (\<open>types.rs\<close>, \<open>diff.rs\<close>): hunks built from the
  line changes that the crate \<open>similar\<close> reports, and the patching of a text by one hunk. The
  differ is the argument \<open>diff\<close>, \<open>None\<close> when it runs out of time. A hunk's random identifier is a
  number that has not been used; a path is the list of its components, by which \<open>PathBuf\<close> compares;
  the time stamp, the patch text and the selection, which nothing here reads, are left out.
\<close>

section \<open>Hunks\<close>

type_synonym fpath = "path_component list"

record hunk_line_info =
  old_start :: nat
  old_count :: nat
  new_start :: nat
  new_count :: nat

datatype hunk_source = AgentEdit nat | ExternalEditOnAgentFile | External

fun is_agent_edit :: "hunk_source \<Rightarrow> bool" where
  "is_agent_edit (AgentEdit _) = True"
| "is_agent_edit _ = False"

fun is_external :: "hunk_source \<Rightarrow> bool" where
  "is_external (AgentEdit _) = False"
| "is_external _ = True"

fun prompt_index :: "hunk_source \<Rightarrow> nat option" where
  "prompt_index (AgentEdit i) = Some i"
| "prompt_index _ = None"

record hunk =
  hunk_id :: nat
  hunk_path :: fpath
  line_info :: hunk_line_info
  hunk_source :: hunk_source
  old_text :: "string option"
  new_text :: string

definition file_created :: "nat \<Rightarrow> fpath \<Rightarrow> string \<Rightarrow> hunk_source \<Rightarrow> hunk" where
  "file_created i path content src =
     \<lparr>hunk_id = i, hunk_path = path,
      line_info = \<lparr>old_start = 0, old_count = 0, new_start = 1, new_count = max (length (str_lines content)) 1\<rparr>,
      hunk_source = src, old_text = None, new_text = content\<rparr>"

definition file_deleted :: "nat \<Rightarrow> fpath \<Rightarrow> string \<Rightarrow> hunk_source \<Rightarrow> hunk" where
  "file_deleted i path content src =
     \<lparr>hunk_id = i, hunk_path = path,
      line_info = \<lparr>old_start = 1, old_count = max (length (str_lines content)) 1, new_start = 0, new_count = 0\<rparr>,
      hunk_source = src, old_text = Some content, new_text = []\<rparr>"

section \<open>From changes to hunks\<close>

datatype change = Same string | Deleted string | Inserted string

type_synonym line_differ = "string \<Rightarrow> string \<Rightarrow> change list option"

definition MAX_DIFF_FILE_SIZE :: nat where "MAX_DIFF_FILE_SIZE = 1024 * 1024"

record hunk_builder =
  hb_old_start :: nat
  hb_new_start :: nat
  old_lines :: "string list"
  new_lines :: "string list"

definition builder_new :: "nat \<Rightarrow> nat \<Rightarrow> hunk_builder" where
  "builder_new o_line n_line = \<lparr>hb_old_start = o_line, hb_new_start = n_line, old_lines = [], new_lines = []\<rparr>"

definition add_old_line :: "string \<Rightarrow> hunk_builder \<Rightarrow> hunk_builder" where
  "add_old_line l b = b\<lparr>old_lines := old_lines b @ [l]\<rparr>"

definition add_new_line :: "string \<Rightarrow> hunk_builder \<Rightarrow> hunk_builder" where
  "add_new_line l b = b\<lparr>new_lines := new_lines b @ [l]\<rparr>"

definition build :: "fpath \<Rightarrow> hunk_source \<Rightarrow> nat \<Rightarrow> hunk_builder \<Rightarrow> hunk" where
  "build path src i b =
     \<lparr>hunk_id = i, hunk_path = path,
      line_info = \<lparr>old_start = hb_old_start b, old_count = length (old_lines b),
        new_start = hb_new_start b, new_count = length (new_lines b)\<rparr>,
      hunk_source = src, old_text = (if old_lines b = [] then None else Some (concat (old_lines b))),
      new_text = concat (new_lines b)\<rparr>"

text \<open>The loop over the changes, with the lines counted from 1 and the hunk under construction.\<close>

definition in_progress :: "nat \<Rightarrow> nat \<Rightarrow> hunk_builder option \<Rightarrow> hunk_builder" where
  "in_progress o_line n_line cur = (case cur of Some b \<Rightarrow> b | None \<Rightarrow> builder_new o_line n_line)"

definition finished :: "hunk_builder option \<Rightarrow> hunk_builder list" where
  "finished cur = (case cur of Some b \<Rightarrow> [b] | None \<Rightarrow> [])"

fun builders :: "change list \<Rightarrow> nat \<Rightarrow> nat \<Rightarrow> hunk_builder option \<Rightarrow> hunk_builder list" where
  "builders [] o_line n_line cur = finished cur"
| "builders (Same _ # chs) o_line n_line cur =
     finished cur @ builders chs (o_line + 1) (n_line + 1) None"
| "builders (Deleted l # chs) o_line n_line cur =
     builders chs (o_line + 1) n_line (Some (add_old_line l (in_progress o_line n_line cur)))"
| "builders (Inserted l # chs) o_line n_line cur =
     builders chs o_line (n_line + 1) (Some (add_new_line l (in_progress o_line n_line cur)))"

definition number_hunks :: "fpath \<Rightarrow> hunk_source \<Rightarrow> nat \<Rightarrow> hunk_builder list \<Rightarrow> hunk list" where
  "number_hunks path src i bs = map (\<lambda>(k, b). build path src k b) (enumerate i bs)"

definition compute_hunks ::
  "line_differ \<Rightarrow> nat \<Rightarrow> fpath \<Rightarrow> string \<Rightarrow> string \<Rightarrow> hunk_source \<Rightarrow> hunk list" where
  "compute_hunks diff i path baseline current src =
     (if baseline = current then []
      else if MAX_DIFF_FILE_SIZE < length baseline \<or> MAX_DIFF_FILE_SIZE < length current then []
      else (case diff baseline current of
              None \<Rightarrow> []
            | Some chs \<Rightarrow> number_hunks path src i (builders chs 1 1 None)))"

section \<open>Patching\<close>

definition patch_lines :: "string \<Rightarrow> nat \<Rightarrow> nat \<Rightarrow> string \<Rightarrow> string" where
  "patch_lines content start_line remove_count insert_text =
     (let ls = str_lines content;
          start_idx = start_line - 1;
          result = take start_idx ls
            @ (if insert_text = [] then [] else str_lines insert_text)
            @ drop (min (start_idx + remove_count) (length ls)) ls;
          output = join_with [nl] result
      in if suffix [nl] content \<and> output \<noteq> [] then output @ [nl] else output)"

section \<open>Comparing hunks\<close>

definition hunks_match_content :: "hunk \<Rightarrow> hunk \<Rightarrow> bool" where
  "hunks_match_content a b \<longleftrightarrow>
     hunk_path a = hunk_path b \<and> old_text a = old_text b \<and> new_text a = new_text b"

definition hunk_moved :: "hunk \<Rightarrow> hunk \<Rightarrow> bool" where
  "hunk_moved o_hunk n_hunk \<longleftrightarrow> hunks_match_content o_hunk n_hunk \<and> line_info o_hunk \<noteq> line_info n_hunk"

definition hunks_overlap :: "hunk \<Rightarrow> hunk \<Rightarrow> bool" where
  "hunks_overlap a b \<longleftrightarrow> hunk_path a = hunk_path b \<and>
     (let a_start = old_start (line_info a); a_end = a_start + old_count (line_info a);
          b_start = old_start (line_info b); b_end = b_start + old_count (line_info b)
      in if old_count (line_info a) = 0 \<and> old_count (line_info b) = 0 then a_start = b_start
         else if old_count (line_info a) = 0 then b_start \<le> a_start \<and> a_start \<le> b_end
         else if old_count (line_info b) = 0 then a_start \<le> b_start \<and> b_start \<le> a_end
         else \<not> (a_end < b_start \<or> b_end < a_start))"

definition calculate_overlap_size :: "hunk_line_info \<Rightarrow> hunk_line_info \<Rightarrow> nat" where
  "calculate_overlap_size a b =
     (let overlap_start = max (old_start a) (old_start b);
          overlap_end = min (old_start a + old_count a) (old_start b + old_count b)
      in overlap_end - overlap_start)"

text \<open>\<open>min_by_key\<close> takes the first of the least, \<open>max_by_key\<close> the last of the greatest.\<close>

fun min_by_key :: "('a \<Rightarrow> nat) \<Rightarrow> 'a list \<Rightarrow> 'a option" where
  "min_by_key f [] = None"
| "min_by_key f (x # xs) =
     (case min_by_key f xs of None \<Rightarrow> Some x | Some y \<Rightarrow> if f x \<le> f y then Some x else Some y)"

fun max_by_key :: "('a \<Rightarrow> nat) \<Rightarrow> 'a list \<Rightarrow> 'a option" where
  "max_by_key f [] = None"
| "max_by_key f (x # xs) =
     (case max_by_key f xs of None \<Rightarrow> Some x | Some y \<Rightarrow> if f y < f x then Some x else Some y)"

definition abs_diff :: "nat \<Rightarrow> nat \<Rightarrow> nat" where
  "abs_diff a b = (if a \<le> b then b - a else a - b)"

definition find_matching_old_hunk :: "hunk \<Rightarrow> hunk list \<Rightarrow> hunk option" where
  "find_matching_old_hunk n_hunk o_hunks =
     (let content_matches = filter (\<lambda>h. hunks_match_content h n_hunk) o_hunks
      in if content_matches \<noteq> []
         then min_by_key (\<lambda>h. abs_diff (new_start (line_info h)) (new_start (line_info n_hunk))) content_matches
         else max_by_key (\<lambda>h. calculate_overlap_size (line_info h) (line_info n_hunk))
                (filter (\<lambda>h. hunks_overlap h n_hunk) o_hunks))"

lemma min_by_key_in: "min_by_key f xs = Some x \<Longrightarrow> x \<in> set xs"
  by (induction xs arbitrary: x) (auto split: option.splits if_splits)

lemma max_by_key_in: "max_by_key f xs = Some x \<Longrightarrow> x \<in> set xs"
  by (induction xs arbitrary: x) (auto split: option.splits if_splits)

lemma find_matching_in: "find_matching_old_hunk h hs = Some o_h \<Longrightarrow> o_h \<in> set hs"
  by (auto simp: find_matching_old_hunk_def Let_def dest: min_by_key_in max_by_key_in split: if_splits)

section \<open>Accepting and rejecting all hunks of a text\<close>

text \<open>What \<open>accept_hunks_batch\<close> and \<open>reject_hunks_batch\<close> do to a text: from the last hunk to the first.\<close>

definition accept_patches :: "string \<Rightarrow> hunk list \<Rightarrow> string" where
  "accept_patches baseline hs =
     foldl (\<lambda>txt h. patch_lines txt (old_start (line_info h)) (old_count (line_info h)) (new_text h)) baseline hs"

definition reject_patches :: "string \<Rightarrow> hunk list \<Rightarrow> string" where
  "reject_patches current hs =
     foldl (\<lambda>txt h. patch_lines txt (new_start (line_info h)) (new_count (line_info h))
       (case old_text h of Some t \<Rightarrow> t | None \<Rightarrow> [])) current hs"

definition by_old_start_desc :: "hunk list \<Rightarrow> hunk list" where
  "by_old_start_desc hs = sort_key (\<lambda>h. - int (old_start (line_info h))) hs"

definition by_new_start_desc :: "hunk list \<Rightarrow> hunk list" where
  "by_new_start_desc hs = sort_key (\<lambda>h. - int (new_start (line_info h))) hs"

end
