(* ===== verification/Hunk_Content.thy ===== *)
theory Hunk_Content
  imports Hunk_Diff
begin

text \<open>
  What the hunk tracker keeps of a file (\<open>actor/state.rs\<close>, \<open>actor/file_utils.rs\<close> of
  \<open>crates/codegen/xai-hunk-tracker\<close>): text up to a limit, or only the kind of what is there. The
  three ways in, from bytes, from a string and from the disk, are proved to agree.
\<close>

section \<open>Contents\<close>

datatype file_content =
  Missing
| Binary "nat option"
| TooLarge nat
| LfsPointer nat
| Symlink
| Full string

fun as_str :: "file_content \<Rightarrow> string option" where
  "as_str (Full s) = Some s"
| "as_str _ = None"

fun is_diffable :: "file_content \<Rightarrow> bool" where
  "is_diffable (Full _) = True"
| "is_diffable _ = False"

definition MAX_TRACKED_TEXT_BYTES :: nat where "MAX_TRACKED_TEXT_BYTES = 1024 * 1024"

definition LFS_POINTER_PREFIX :: string where
  "LFS_POINTER_PREFIX = ''version https://git-lfs.github.com/spec/v1'' @ [nl]"

definition is_lfs_pointer :: "string \<Rightarrow> bool" where
  "is_lfs_pointer bs \<longleftrightarrow> length bs < 1024 \<and> prefix LFS_POINTER_PREFIX bs"

definition is_binary :: "string \<Rightarrow> bool" where
  "is_binary bs \<longleftrightarrow> CHR 0x00 \<in> set (take (min (length bs) 8000) bs)"

section \<open>UTF-8\<close>

text \<open>\<open>String::from_utf8\<close>: no overlong form, no surrogate, nothing above U+10FFFF.\<close>

definition byte_in :: "nat \<Rightarrow> nat \<Rightarrow> char \<Rightarrow> bool" where
  "byte_in lo hi c \<longleftrightarrow> lo \<le> of_char c \<and> of_char c \<le> hi"

definition second_byte :: "char \<Rightarrow> char \<Rightarrow> bool" where
  "second_byte b = (if b = CHR 0xE0 then byte_in 0xA0 0xBF
     else if b = CHR 0xED then byte_in 0x80 0x9F
     else if b = CHR 0xF0 then byte_in 0x90 0xBF
     else if b = CHR 0xF4 then byte_in 0x80 0x8F
     else byte_in 0x80 0xBF)"

abbreviation continuation :: "char \<Rightarrow> bool" where
  "continuation \<equiv> byte_in 0x80 0xBF"

fun from_utf8 :: "string \<Rightarrow> bool" where
  "from_utf8 [] = True"
| "from_utf8 (b # bs) =
     (if byte_in 0x00 0x7F b then from_utf8 bs
      else if byte_in 0xC2 0xDF b then (case bs of c # r \<Rightarrow> continuation c \<and> from_utf8 r | [] \<Rightarrow> False)
      else if byte_in 0xE0 0xEF b then
        (case bs of c # d # r \<Rightarrow> second_byte b c \<and> continuation d \<and> from_utf8 r | _ \<Rightarrow> False)
      else if byte_in 0xF0 0xF4 b then
        (case bs of c # d # e # r \<Rightarrow> second_byte b c \<and> continuation d \<and> continuation e \<and> from_utf8 r | _ \<Rightarrow> False)
      else False)"

section \<open>Classification\<close>

definition classify_bytes :: "string \<Rightarrow> file_content" where
  "classify_bytes bs =
     (if MAX_TRACKED_TEXT_BYTES < length bs then TooLarge (length bs)
      else if is_lfs_pointer bs then LfsPointer (length bs)
      else if is_binary bs then Binary (Some (length bs))
      else if from_utf8 bs then Full bs
      else Binary (Some (length bs)))"

definition classify_string :: "string \<Rightarrow> file_content" where
  "classify_string s =
     (if MAX_TRACKED_TEXT_BYTES < length s then TooLarge (length s)
      else if is_lfs_pointer s then LfsPointer (length s)
      else if is_binary s then Binary (Some (length s))
      else Full s)"

text \<open>
  A file as the system shows it: what \<open>lstat\<close> says of it (whether it is a link, and its length),
  whether it opens, what the first \<open>read\<close> into a buffer of the given size returns, and what
  \<open>read_to_end\<close> returns after that.
\<close>

record disk_file =
  metadata :: "(bool \<times> nat) option"
  opens :: bool
  first_read :: "nat \<Rightarrow> string option"
  remainder :: "string option"

definition read_file_bounded :: "disk_file \<Rightarrow> file_content" where
  "read_file_bounded f =
     (case metadata f of
        None \<Rightarrow> Missing
      | Some (is_symlink, byte_len) \<Rightarrow>
          if is_symlink then Symlink
          else if MAX_TRACKED_TEXT_BYTES < byte_len then TooLarge byte_len
          else if \<not> opens f then Missing
          else (let prefix_size = min 8000 byte_len in
            case first_read f prefix_size of
              None \<Rightarrow> Missing
            | Some prefix_buf \<Rightarrow>
                if is_lfs_pointer prefix_buf then LfsPointer byte_len
                else if is_binary prefix_buf then Binary (Some byte_len)
                else if prefix_size < byte_len then
                  (case remainder f of
                     None \<Rightarrow> Missing
                   | Some rest \<Rightarrow>
                       if from_utf8 (prefix_buf @ rest) then Full (prefix_buf @ rest) else Binary (Some byte_len))
                else if from_utf8 prefix_buf then Full prefix_buf
                else Binary (Some byte_len)))"

text \<open>A regular file that is read without an error; the first read fills its buffer.\<close>

definition regular_file :: "string \<Rightarrow> disk_file" where
  "regular_file bs = \<lparr>metadata = Some (False, length bs), opens = True,
     first_read = (\<lambda>n. Some (take n bs)), remainder = Some (drop 8000 bs)\<rparr>"

lemma is_lfs_take: "is_lfs_pointer (take (min 8000 (length bs)) bs) \<longleftrightarrow> is_lfs_pointer bs"
  by (auto simp: is_lfs_pointer_def min_def)

lemma is_binary_take: "is_binary (take (min 8000 (length bs)) bs) \<longleftrightarrow> is_binary bs"
  by (simp add: is_binary_def min_def)

lemma classify_string_utf8: "from_utf8 s \<Longrightarrow> classify_string s = classify_bytes s"
  by (simp add: classify_string_def classify_bytes_def)

lemma read_regular_file: "read_file_bounded (regular_file bs) = classify_bytes bs"
proof (cases "8000 < length bs")
  case True
  then have "min 8000 (length bs) = 8000" by simp
  with True show ?thesis
    using is_lfs_take [of bs] is_binary_take [of bs]
    by (simp add: read_file_bounded_def regular_file_def classify_bytes_def Let_def)
next
  case False
  then have "min 8000 (length bs) = length bs" by simp
  with False show ?thesis
    by (simp add: read_file_bounded_def regular_file_def classify_bytes_def Let_def)
qed

section \<open>Properties\<close>

text \<open>
  C37: a file has one classification whichever way the tracker meets it: a text that the agent writes
  and the same bytes read back from disk or from a git blob give the same content, and text is kept
  exactly of files that are valid UTF-8, within the limit, no LFS pointer and without a NUL byte at
  the start.
\<close>

theorem contents_agree:
  "read_file_bounded (regular_file bs) = classify_bytes bs \<and>
   \<not> (from_utf8 bs \<and> classify_string bs \<noteq> classify_bytes bs) \<and>
   (is_diffable (classify_bytes bs) \<longleftrightarrow>
      from_utf8 bs \<and> length bs \<le> 1048576 \<and> \<not> is_lfs_pointer bs \<and> CHR 0x00 \<notin> set (take 8000 bs)) \<and>
   (classify_bytes bs = Full bs \<longleftrightarrow> is_diffable (classify_bytes bs))"
proof (intro conjI)
  show "read_file_bounded (regular_file bs) = classify_bytes bs" by (rule read_regular_file)
  show "\<not> (from_utf8 bs \<and> classify_string bs \<noteq> classify_bytes bs)" using classify_string_utf8 by blast
  have "take (min (length bs) 8000) bs = take 8000 bs" by (simp add: min_def)
  then show "is_diffable (classify_bytes bs) \<longleftrightarrow>
      from_utf8 bs \<and> length bs \<le> 1048576 \<and> \<not> is_lfs_pointer bs \<and> CHR 0x00 \<notin> set (take 8000 bs)"
    by (auto simp: classify_bytes_def is_binary_def MAX_TRACKED_TEXT_BYTES_def)
  show "classify_bytes bs = Full bs \<longleftrightarrow> is_diffable (classify_bytes bs)"
    by (simp add: classify_bytes_def)
qed

end
