(* ===== verification/Hunk_Tracker.thy ===== *)
theory Hunk_Tracker
  imports Hunk_Content "HOL-Library.AList"
begin

text \<open>
  The hunk tracker (\<open>crates/codegen/xai-hunk-tracker/src/actor\<close>): which parts of which files wait for
  review, who made them, and what accepting and rejecting them does. The maps of the actor are
  association lists, whose order stands for the order of iteration. What a command learns from the
  disk, from git and from the differ is the record \<open>world\<close>; the events it sends and the files it
  writes are traces in the state. Identifiers are numbers that are handed out in order.
\<close>

section \<open>State\<close>

record file_hunk_state =
  baseline :: file_content
  current_content :: file_content
  hunks :: "hunk list"
  is_agent_file :: bool
  baseline_accepted :: bool

datatype tracking_mode = AgentOnly | AllDirty

record session_stats =
  accepted_hunks :: nat
  rejected_hunks :: nat
  accepted_lines_added :: nat
  accepted_lines_removed :: nat
  rejected_lines_added :: nat
  rejected_lines_removed :: nat

datatype hunk_action = Accept | Reject

datatype hunk_action_error = HunkNotFound nat | WriteError fpath | DeleteError fpath

datatype removal_reason = Accepted | Rejected | Superseded

datatype hunk_event =
  HunkAdded fpath hunk
| HunkRemoved fpath nat removal_reason
| HunkMoved fpath nat hunk_line_info
| HunkContentChanged fpath hunk hunk_source nat nat
| FileAdded fpath bool
| FileRemoved fpath
| BaselineUpdated fpath

datatype disk_op = Write fpath string | RemoveFile fpath

record repo_sync =
  head_oid :: "string option"
  index_mtime :: "nat option"

type_synonym file_map = "(fpath \<times> file_hunk_state) list"

type_synonym turn_map = "nat \<Rightarrow> nat list"

record tracker =
  working_dir :: fpath
  file_states :: file_map
  turn_index :: turn_map
  git_dirty_cache :: "fpath list"
  git_staged_cache :: "fpath list"
  repo_sync_state :: repo_sync
  mode :: tracking_mode
  stats :: session_stats
  next_id :: nat
  sent :: "hunk_event list"
  disk_ops :: "disk_op list"

text \<open>
  What is outside: the differ, the content of a path at HEAD and on disk, whether a path exists or is
  a directory, the status that git reports for a scope (dirty and staged paths), HEAD and index, and
  whether a write or a removal succeeds.
\<close>

record world =
  differ :: line_differ
  head_blob :: "fpath \<Rightarrow> file_content"
  on_disk :: "fpath \<Rightarrow> file_content"
  path_exists :: "fpath \<Rightarrow> bool"
  is_dir :: "fpath \<Rightarrow> bool"
  git_status :: "fpath list option \<Rightarrow> (fpath list \<times> fpath list) option"
  sync_state :: "repo_sync option"
  write_succeeds :: "fpath \<Rightarrow> bool"
  remove_succeeds :: "fpath \<Rightarrow> bool"

definition stats_default :: session_stats where
  "stats_default = \<lparr>accepted_hunks = 0, rejected_hunks = 0, accepted_lines_added = 0,
     accepted_lines_removed = 0, rejected_lines_added = 0, rejected_lines_removed = 0\<rparr>"

definition tracker_new :: "fpath \<Rightarrow> tracking_mode \<Rightarrow> tracker" where
  "tracker_new wd m = \<lparr>working_dir = wd, file_states = [], turn_index = (\<lambda>_. []), git_dirty_cache = [],
     git_staged_cache = [], repo_sync_state = \<lparr>head_oid = None, index_mtime = None\<rparr>, mode = m,
     stats = stats_default, next_id = 0, sent = [], disk_ops = []\<rparr>"

definition lookup :: "fpath \<Rightarrow> tracker \<Rightarrow> file_hunk_state option" where
  "lookup p t = map_of (file_states t) p"

definition put :: "fpath \<Rightarrow> file_hunk_state \<Rightarrow> tracker \<Rightarrow> tracker" where
  "put p st t = t\<lparr>file_states := AList.update p st (file_states t)\<rparr>"

definition send_events :: "hunk_event list \<Rightarrow> tracker \<Rightarrow> tracker" where
  "send_events es t = t\<lparr>sent := sent t @ es\<rparr>"

definition new_file :: "file_content \<Rightarrow> file_content \<Rightarrow> bool \<Rightarrow> file_hunk_state" where
  "new_file base current agent =
     \<lparr>baseline = base, current_content = current, hunks = [], is_agent_file = agent, baseline_accepted = False\<rparr>"

text \<open>\<open>path.strip_prefix(working_dir).unwrap_or(path)\<close>.\<close>

definition relative_to :: "fpath \<Rightarrow> fpath \<Rightarrow> fpath" where
  "relative_to dir p = (if prefix dir p then drop (length dir) p else p)"

section \<open>Hunks of a file\<close>

definition expected_hunks ::
  "line_differ \<Rightarrow> nat \<Rightarrow> fpath \<Rightarrow> file_content \<Rightarrow> file_content \<Rightarrow> hunk_source \<Rightarrow> hunk list" where
  "expected_hunks diff i p base current src =
     (case (base, current) of
        (Full b, Full c) \<Rightarrow> compute_hunks diff i p b c src
      | (Full b, Missing) \<Rightarrow> if b = [] then [] else [file_deleted i p b src]
      | (Missing, Full c) \<Rightarrow> if c = [] then [] else [file_created i p c src]
      | _ \<Rightarrow> [])"

text \<open>A hunk keeps the identity of the hunk it continues, the first of those that continue the same one.\<close>

definition continue_hunk :: "hunk \<Rightarrow> hunk \<Rightarrow> hunk" where
  "continue_hunk n_hunk best =
     n_hunk\<lparr>hunk_id := hunk_id best,
       hunk_source := (if is_external (hunk_source n_hunk) \<and> is_agent_edit (hunk_source best)
                       then hunk_source best else hunk_source n_hunk)\<rparr>"

fun claim_ids :: "hunk list \<Rightarrow> nat list \<Rightarrow> hunk list \<Rightarrow> hunk list" where
  "claim_ids o_hunks claimed [] = []"
| "claim_ids o_hunks claimed (h # hs) =
     (case find_matching_old_hunk h o_hunks of
        None \<Rightarrow> h # claim_ids o_hunks claimed hs
      | Some best \<Rightarrow>
          if hunk_id best \<in> set claimed then h # claim_ids o_hunks claimed hs
          else continue_hunk h best # claim_ids o_hunks (hunk_id best # claimed) hs)"

definition index_remove :: "hunk \<Rightarrow> turn_map \<Rightarrow> turn_map" where
  "index_remove h ix =
     (case prompt_index (hunk_source h) of
        Some i \<Rightarrow> ix(i := removeAll (hunk_id h) (ix i))
      | None \<Rightarrow> ix)"

definition index_add :: "hunk \<Rightarrow> turn_map \<Rightarrow> turn_map" where
  "index_add h ix =
     (case prompt_index (hunk_source h) of
        Some i \<Rightarrow> ix(i := List.insert (hunk_id h) (ix i))
      | None \<Rightarrow> ix)"

definition removed_events :: "fpath \<Rightarrow> hunk list \<Rightarrow> hunk list \<Rightarrow> hunk_event list" where
  "removed_events p o_hunks n_hunks =
     map (\<lambda>o_h. HunkRemoved p (hunk_id o_h) Superseded)
       (filter (\<lambda>o_h. \<not> list_ex (\<lambda>n. hunks_overlap o_h n \<or> hunks_match_content o_h n) n_hunks) o_hunks)"

definition new_hunk_events :: "fpath \<Rightarrow> hunk list \<Rightarrow> hunk_source \<Rightarrow> hunk \<Rightarrow> hunk_event list" where
  "new_hunk_events p o_hunks src n =
     (case List.find (\<lambda>o_h. hunks_match_content o_h n) o_hunks of
        Some o_h \<Rightarrow> if hunk_moved o_h n then [HunkMoved p (hunk_id o_h) (line_info n)] else []
      | None \<Rightarrow>
          if \<not> list_ex (\<lambda>o_h. hunks_overlap o_h n) o_hunks then [HunkAdded p n]
          else (let prev = (case List.find (\<lambda>o_h. hunk_id o_h = hunk_id n) o_hunks of
                              Some o_h \<Rightarrow> Some o_h
                            | None \<Rightarrow> List.find (\<lambda>o_h. hunks_overlap o_h n) o_hunks);
                    (added, removed) = (case prev of
                              Some o_h \<Rightarrow> (new_count (line_info o_h), old_count (line_info o_h))
                            | None \<Rightarrow> (0, 0))
                in [HunkContentChanged p n src added removed]))"

definition diff_events :: "fpath \<Rightarrow> hunk list \<Rightarrow> hunk list \<Rightarrow> hunk_source \<Rightarrow> hunk_event list" where
  "diff_events p o_hunks n_hunks src =
     removed_events p o_hunks n_hunks @ concat (map (new_hunk_events p o_hunks src) n_hunks)"

definition recompute_hunks :: "world \<Rightarrow> fpath \<Rightarrow> file_content option \<Rightarrow> hunk_source \<Rightarrow> tracker \<Rightarrow> tracker" where
  "recompute_hunks w p new_current src t =
     (case lookup p t of
        None \<Rightarrow> t
      | Some st \<Rightarrow>
          (let current = (case new_current of Some c \<Rightarrow> c | None \<Rightarrow> Missing);
               computed = expected_hunks (differ w) (next_id t) p (baseline st) current src;
               n_hunks = claim_ids (hunks st) [] computed;
               t1 = put p (st\<lparr>current_content := current, hunks := n_hunks\<rparr>) t
           in send_events (diff_events p (hunks st) n_hunks src)
                (t1\<lparr>turn_index := fold index_add n_hunks (fold index_remove (hunks st) (turn_index t)),
                    next_id := next_id t + length computed\<rparr>)))"

section \<open>Accepting and rejecting\<close>

definition saturate :: "nat \<Rightarrow> nat" where
  "saturate n = min n (2 ^ 64 - 1)"

definition update_session_stats :: "hunk_line_info \<Rightarrow> bool \<Rightarrow> tracker \<Rightarrow> tracker" where
  "update_session_stats li accepted t =
     (let s = stats t in
      t\<lparr>stats := (if accepted
        then s\<lparr>accepted_hunks := saturate (accepted_hunks s + 1),
               accepted_lines_added := saturate (accepted_lines_added s + new_count li),
               accepted_lines_removed := saturate (accepted_lines_removed s + old_count li)\<rparr>
        else s\<lparr>rejected_hunks := saturate (rejected_hunks s + 1),
               rejected_lines_added := saturate (rejected_lines_added s + new_count li),
               rejected_lines_removed := saturate (rejected_lines_removed s + old_count li)\<rparr>)\<rparr>)"

definition remove_from_turn_index :: "hunk \<Rightarrow> tracker \<Rightarrow> tracker" where
  "remove_from_turn_index h t = t\<lparr>turn_index := index_remove h (turn_index t)\<rparr>"

definition retain_other :: "hunk list \<Rightarrow> file_hunk_state \<Rightarrow> file_hunk_state" where
  "retain_other hs st = st\<lparr>hunks := filter (\<lambda>h. hunk_id h \<notin> hunk_id ` set hs) (hunks st)\<rparr>"

text \<open>The source that a recomputation after an action is given: that of the first hunk left.\<close>

definition remaining_source :: "fpath \<Rightarrow> tracker \<Rightarrow> hunk_source" where
  "remaining_source p t =
     (case lookup p t of
        Some st \<Rightarrow> (case hunks st of h # _ \<Rightarrow> hunk_source h | [] \<Rightarrow> External)
      | None \<Rightarrow> External)"

definition removed_for :: "fpath \<Rightarrow> removal_reason \<Rightarrow> hunk list \<Rightarrow> hunk_event list" where
  "removed_for p why hs = map (\<lambda>h. HunkRemoved p (hunk_id h) why) hs"

definition accept_hunk :: "world \<Rightarrow> fpath \<Rightarrow> hunk \<Rightarrow> tracker \<Rightarrow> tracker" where
  "accept_hunk w p h t =
     (case lookup p t of
        None \<Rightarrow> t
      | Some st \<Rightarrow>
          if baseline st = Missing then
            send_events [HunkRemoved p (hunk_id h) Accepted, BaselineUpdated p]
              (put p (retain_other [h] (st\<lparr>baseline := current_content st, baseline_accepted := True\<rparr>)) t)
          else
            (let base = (case baseline st of
                           Full b \<Rightarrow> Full (patch_lines b (old_start (line_info h)) (old_count (line_info h)) (new_text h))
                         | other \<Rightarrow> other);
                 t1 = send_events [HunkRemoved p (hunk_id h) Accepted, BaselineUpdated p]
                        (put p (retain_other [h] (st\<lparr>baseline := base, baseline_accepted := True\<rparr>)) t)
             in recompute_hunks w p (Some (current_content st)) (remaining_source p t1) t1))"

definition write_file :: "world \<Rightarrow> fpath \<Rightarrow> string \<Rightarrow> tracker \<Rightarrow> hunk_action_error + tracker" where
  "write_file w p s t = (if write_succeeds w p then Inr (t\<lparr>disk_ops := disk_ops t @ [Write p s]\<rparr>) else Inl (WriteError p))"

definition remove_file :: "world \<Rightarrow> fpath \<Rightarrow> tracker \<Rightarrow> hunk_action_error + tracker" where
  "remove_file w p t = (if remove_succeeds w p then Inr (t\<lparr>disk_ops := disk_ops t @ [RemoveFile p]\<rparr>) else Inl (DeleteError p))"

text \<open>An action ends in a state whether it fails or not; an error comes with the state it leaves.\<close>

type_synonym 'a outcome = "(hunk_action_error + 'a) \<times> tracker"

definition reject_hunk :: "world \<Rightarrow> fpath \<Rightarrow> hunk \<Rightarrow> tracker \<Rightarrow> unit outcome" where
  "reject_hunk w p h t =
     (case lookup p t of
        None \<Rightarrow> (Inr (), t)
      | Some st \<Rightarrow>
          (case (current_content st, baseline st) of
             (Missing, Full b) \<Rightarrow>
               (case write_file w p b t of
                  Inl e \<Rightarrow> (Inl e, t)
                | Inr t1 \<Rightarrow> (Inr (), send_events [HunkRemoved p (hunk_id h) Rejected]
                    (put p (retain_other [h] (st\<lparr>current_content := Full b\<rparr>)) t1)))
           | (Full c, Missing) \<Rightarrow>
               (case remove_file w p t of
                  Inl e \<Rightarrow> (Inl e, t)
                | Inr t1 \<Rightarrow> (Inr (), send_events [HunkRemoved p (hunk_id h) Rejected]
                    (put p (retain_other [h] (st\<lparr>current_content := Missing\<rparr>)) t1)))
           | (Full c, _) \<Rightarrow>
               (let patched = patch_lines c (new_start (line_info h)) (new_count (line_info h))
                                (case old_text h of Some s \<Rightarrow> s | None \<Rightarrow> [])
                in case write_file w p patched t of
                     Inl e \<Rightarrow> (Inl e, t)
                   | Inr t1 \<Rightarrow>
                       (let t2 = send_events [HunkRemoved p (hunk_id h) Rejected]
                                   (put p (retain_other [h] (st\<lparr>current_content := Full patched\<rparr>)) t1)
                        in (Inr (), recompute_hunks w p (Some (Full patched)) (remaining_source p t2) t2)))
           | _ \<Rightarrow> (Inr (), t)))"

definition find_hunk :: "nat \<Rightarrow> tracker \<Rightarrow> (fpath \<times> hunk) option" where
  "find_hunk i t =
     (case List.map_filter (\<lambda>(p, st). map_option (Pair p) (List.find (\<lambda>h. hunk_id h = i) (hunks st))) (file_states t) of
        found # _ \<Rightarrow> Some found
      | [] \<Rightarrow> None)"

definition count_action :: "hunk_action \<Rightarrow> hunk \<Rightarrow> tracker \<Rightarrow> tracker" where
  "count_action a h t = remove_from_turn_index h (update_session_stats (line_info h) (a = Accept) t)"

definition apply_hunk_action :: "world \<Rightarrow> nat \<Rightarrow> hunk_action \<Rightarrow> tracker \<Rightarrow> unit outcome" where
  "apply_hunk_action w i a t =
     (case find_hunk i t of
        None \<Rightarrow> (Inl (HunkNotFound i), t)
      | Some (p, h) \<Rightarrow>
          (case a of
             Accept \<Rightarrow> (Inr (), accept_hunk w p h (count_action a h t))
           | Reject \<Rightarrow> reject_hunk w p h (count_action a h t)))"

definition accept_hunks_batch :: "world \<Rightarrow> fpath \<Rightarrow> hunk list \<Rightarrow> tracker \<Rightarrow> tracker" where
  "accept_hunks_batch w p hs t =
     (if hs = [] then t
      else (case lookup p t of
        None \<Rightarrow> t
      | Some st \<Rightarrow>
          if baseline st = Missing then
            send_events (removed_for p Accepted hs @ [BaselineUpdated p])
              (put p (retain_other hs (st\<lparr>baseline := current_content st, baseline_accepted := True\<rparr>)) t)
          else
            (let base = (case baseline st of Full b \<Rightarrow> Full (accept_patches b (by_old_start_desc hs)) | other \<Rightarrow> other);
                 t1 = send_events (removed_for p Accepted hs @ [BaselineUpdated p])
                        (put p (retain_other hs (st\<lparr>baseline := base, baseline_accepted := True\<rparr>)) t)
             in recompute_hunks w p (Some (current_content st)) (remaining_source p t1) t1)))"

definition reject_hunks_batch :: "world \<Rightarrow> fpath \<Rightarrow> hunk list \<Rightarrow> tracker \<Rightarrow> unit outcome" where
  "reject_hunks_batch w p hs t =
     (if hs = [] then (Inr (), t)
      else (case lookup p t of
        None \<Rightarrow> (Inr (), t)
      | Some st \<Rightarrow>
          (case (current_content st, baseline st) of
             (Missing, Full b) \<Rightarrow>
               (case write_file w p b t of
                  Inl e \<Rightarrow> (Inl e, t)
                | Inr t1 \<Rightarrow> (Inr (), send_events (removed_for p Rejected hs)
                    (put p (retain_other hs (st\<lparr>current_content := Full b\<rparr>)) t1)))
           | (Full c, Missing) \<Rightarrow>
               (case remove_file w p t of
                  Inl e \<Rightarrow> (Inl e, t)
                | Inr t1 \<Rightarrow> (Inr (), send_events (removed_for p Rejected hs)
                    (put p (retain_other hs (st\<lparr>current_content := Missing\<rparr>)) t1)))
           | (Full c, _) \<Rightarrow>
               (let patched = reject_patches c (by_new_start_desc hs)
                in case write_file w p patched t of
                     Inl e \<Rightarrow> (Inl e, t)
                   | Inr t1 \<Rightarrow>
                       (let t2 = send_events (removed_for p Rejected hs)
                                   (put p (retain_other hs (st\<lparr>current_content := Full patched\<rparr>)) t1)
                        in (Inr (), recompute_hunks w p (Some (Full patched)) (remaining_source p t2) t2)))
           | _ \<Rightarrow> (Inr (), t))))"

fun apply_action_batch ::
  "world \<Rightarrow> hunk_action \<Rightarrow> (fpath \<times> hunk list) list \<Rightarrow> nat list \<Rightarrow> tracker \<Rightarrow> nat list outcome" where
  "apply_action_batch w a [] affected t = (Inr affected, t)"
| "apply_action_batch w a ((p, hs) # files) affected t =
     (let t1 = fold (count_action a) hs t;
          affected1 = affected @ map hunk_id hs
      in case a of
           Accept \<Rightarrow> apply_action_batch w a files affected1 (accept_hunks_batch w p hs t1)
         | Reject \<Rightarrow>
             (case reject_hunks_batch w p hs t1 of
                (Inl e, t2) \<Rightarrow> (Inl e, t2)
              | (Inr _, t2) \<Rightarrow> apply_action_batch w a files affected1 t2))"

definition apply_file_action :: "world \<Rightarrow> fpath \<Rightarrow> hunk_action \<Rightarrow> tracker \<Rightarrow> nat list outcome" where
  "apply_file_action w p a t =
     (case lookup p t of
        None \<Rightarrow> (Inr [], t)
      | Some st \<Rightarrow> if hunks st = [] then (Inr [], t) else apply_action_batch w a [(p, hunks st)] [] t)"

definition apply_all_action :: "world \<Rightarrow> hunk_action \<Rightarrow> tracker \<Rightarrow> nat list outcome" where
  "apply_all_action w a t =
     (let files = map (\<lambda>(p, st). (p, hunks st)) (filter (\<lambda>(p, st). hunks st \<noteq> []) (file_states t))
      in if files = [] then (Inr [], t) else apply_action_batch w a files [] t)"

definition apply_turn_action :: "world \<Rightarrow> nat \<Rightarrow> hunk_action \<Rightarrow> tracker \<Rightarrow> nat list outcome" where
  "apply_turn_action w i a t =
     (let of_turn = filter (\<lambda>h. prompt_index (hunk_source h) = Some i);
          files = filter (\<lambda>(p, hs). hs \<noteq> []) (map (\<lambda>(p, st). (p, of_turn (hunks st))) (file_states t))
      in if files = [] then (Inr [], t) else apply_action_batch w a files [] t)"

end
