(* ===== verification/Hunk_Changes.thy ===== *)
theory Hunk_Changes
  imports Hunk_Tracker
begin

text \<open>
  How files change under the tracker (\<open>actor/mutations.rs\<close>, the bookkeeping of \<open>actor/git.rs\<close>): agent
  writes, changes and deletions that the file watcher reports, a moved HEAD, a new baseline, and the
  switch between the tracking modes.
\<close>

section \<open>Agent writes\<close>

definition strip_single_trailing_newline :: "string \<Rightarrow> string" where
  "strip_single_trailing_newline s =
     (if suffix [CHR 0x0D, nl] s then take (length s - 2) s
      else if suffix [nl] s then butlast s else s)"

definition read_baseline :: "world \<Rightarrow> fpath \<Rightarrow> file_content" where
  "read_baseline w p = head_blob w p"

definition record_agent_write :: "world \<Rightarrow> fpath \<Rightarrow> string \<Rightarrow> nat \<Rightarrow> string option \<Rightarrow> tracker \<Rightarrow> tracker" where
  "record_agent_write w p content i previous t =
     (let current = classify_string content
      in if \<not> is_diffable current then
           (case lookup p t of
              None \<Rightarrow>
                (let base = (case previous of Some prev \<Rightarrow> classify_string prev | None \<Rightarrow> read_baseline w p)
                 in send_events [FileAdded p True] (put p (new_file base current True) t))
            | Some st \<Rightarrow> put p (st\<lparr>is_agent_file := True, current_content := current, hunks := []\<rparr>) t)
         else
           (let t1 = (case lookup p t of
                        None \<Rightarrow>
                          (let base = (case read_baseline w p of
                                         Missing \<Rightarrow> (case previous of Some prev \<Rightarrow> classify_string prev | None \<Rightarrow> Missing)
                                       | other \<Rightarrow> other)
                           in send_events [FileAdded p True] (put p (new_file base current True) t))
                      | Some st \<Rightarrow> put p (st\<lparr>is_agent_file := True\<rparr>) t)
            in recompute_hunks w p (Some current) (AgentEdit i) t1))"

section \<open>Changes on disk\<close>

definition in_dirty_cache :: "fpath \<Rightarrow> tracker \<Rightarrow> bool" where
  "in_dirty_cache p t \<longleftrightarrow> relative_to (working_dir t) p \<in> set (git_dirty_cache t)"

text \<open>Neither at HEAD nor reported by git, and no directory: an ignored file.\<close>

definition is_ignored :: "world \<Rightarrow> fpath \<Rightarrow> file_content \<Rightarrow> tracker \<Rightarrow> bool" where
  "is_ignored w p base t \<longleftrightarrow> mode t = AllDirty \<and> base = Missing \<and> \<not> is_dir w p \<and> \<not> in_dirty_cache p t"

fun content_matches_head :: "file_content \<Rightarrow> file_content \<Rightarrow> bool \<Rightarrow> bool" where
  "content_matches_head (Full current) (Full head) dirty =
     (strip_single_trailing_newline current = strip_single_trailing_newline head)"
| "content_matches_head Missing Missing dirty = True"
| "content_matches_head (Binary _) (Binary _) dirty = True"
| "content_matches_head (TooLarge _) (TooLarge _) dirty = True"
| "content_matches_head (LfsPointer _) (LfsPointer _) dirty = True"
| "content_matches_head Symlink Symlink dirty = True"
| "content_matches_head Symlink (Full _) dirty = (\<not> dirty)"
| "content_matches_head (Full _) Symlink dirty = (\<not> dirty)"
| "content_matches_head _ _ dirty = False"

definition external_source :: "fpath \<Rightarrow> tracker \<Rightarrow> hunk_source" where
  "external_source p t =
     (case lookup p t of
        Some st \<Rightarrow> if is_agent_file st then ExternalEditOnAgentFile else External
      | None \<Rightarrow> External)"

definition process_file_change :: "world \<Rightarrow> fpath \<Rightarrow> file_content option \<Rightarrow> tracker \<Rightarrow> tracker" where
  "process_file_change w p preloaded t =
     (let tracked = lookup p t;
          current = on_disk w p;
          base = (case preloaded of Some b \<Rightarrow> b | None \<Rightarrow> read_baseline w p)
      in case tracked of
           None \<Rightarrow>
             if mode t = AgentOnly then t
             else if is_ignored w p base t then t
             else if \<not> is_diffable current then
               (let t1 = send_events [FileAdded p False] (put p (new_file base current False) t)
                in if is_diffable base then recompute_hunks w p None External t1 else t1)
             else recompute_hunks w p (Some current) External
                    (send_events [FileAdded p False] (put p (new_file base Missing False) t))
         | Some st \<Rightarrow>
             if baseline_accepted st \<and> content_matches_head current base (in_dirty_cache p t)
             then put p (st\<lparr>baseline := base, current_content := base, baseline_accepted := False, hunks := []\<rparr>) t
             else recompute_hunks w p (Some current) (external_source p t) t)"

definition handle_file_change :: "world \<Rightarrow> fpath \<Rightarrow> tracker \<Rightarrow> tracker" where
  "handle_file_change w p t = process_file_change w p None t"

text \<open>The batch reads the baselines it will need first; a repeated path finds its baseline used up.\<close>

definition needs_baseline :: "fpath \<Rightarrow> tracker \<Rightarrow> bool" where
  "needs_baseline p t =
     (case lookup p t of
        None \<Rightarrow> mode t \<noteq> AgentOnly
      | Some st \<Rightarrow> baseline_accepted st)"

fun process_changes :: "world \<Rightarrow> fpath list \<Rightarrow> (fpath \<times> file_content) list \<Rightarrow> tracker \<Rightarrow> tracker" where
  "process_changes w [] baselines t = t"
| "process_changes w (p # ps) baselines t =
     process_changes w ps (AList.delete p baselines) (process_file_change w p (map_of baselines p) t)"

definition handle_file_changes_batch :: "world \<Rightarrow> fpath list \<Rightarrow> tracker \<Rightarrow> tracker" where
  "handle_file_changes_batch w ps t =
     process_changes w ps (map (\<lambda>p. (p, read_baseline w p)) (filter (\<lambda>p. needs_baseline p t) ps)) t"

definition handle_file_deleted :: "world \<Rightarrow> fpath \<Rightarrow> tracker \<Rightarrow> tracker" where
  "handle_file_deleted w p t =
     (case lookup p t of
        None \<Rightarrow>
          if mode t = AgentOnly then t
          else if path_exists w p then t
          else if read_baseline w p = Missing then t
          else recompute_hunks w p None External
                 (send_events [FileAdded p False] (put p (new_file (read_baseline w p) Missing False) t))
      | Some st \<Rightarrow>
          if path_exists w p then handle_file_change w p t
          else recompute_hunks w p None (external_source p t) t)"

section \<open>Baselines\<close>

text \<open>The hunks of a file are dropped: out of the index, with an event each.\<close>

definition drop_from_index :: "hunk list \<Rightarrow> tracker \<Rightarrow> tracker" where
  "drop_from_index hs t = t\<lparr>turn_index := fold index_remove hs (turn_index t)\<rparr>"

definition reset_baseline :: "fpath \<Rightarrow> tracker \<Rightarrow> tracker" where
  "reset_baseline p t =
     (case lookup p t of
        None \<Rightarrow> t
      | Some st \<Rightarrow>
          send_events (removed_for p Superseded (hunks st) @ [BaselineUpdated p])
            (drop_from_index (hunks st)
              (put p (st\<lparr>baseline := current_content st, baseline_accepted := False, hunks := []\<rparr>) t)))"

definition stop_tracking :: "fpath \<Rightarrow> file_hunk_state \<Rightarrow> tracker \<Rightarrow> tracker" where
  "stop_tracking p st t =
     send_events (removed_for p Superseded (hunks st) @ [FileRemoved p])
       (drop_from_index (hunks st) (t\<lparr>file_states := AList.delete p (file_states t)\<rparr>))"

definition refresh_git_dirty_cache :: "world \<Rightarrow> fpath list option \<Rightarrow> tracker \<Rightarrow> tracker" where
  "refresh_git_dirty_cache w scope t =
     (case git_status w scope of
        None \<Rightarrow> t
      | Some (dirty, staged) \<Rightarrow>
          (let to_track = filter (\<lambda>rel. lookup (working_dir t @ rel) t = None) dirty;
               t1 = t\<lparr>git_dirty_cache := dirty, git_staged_cache := staged\<rparr>
           in if mode t = AllDirty
              then fold (\<lambda>rel. handle_file_change w (working_dir t @ rel)) to_track t1
              else t1))"

fun is_clean :: "file_content \<Rightarrow> file_content \<Rightarrow> bool \<Rightarrow> bool \<Rightarrow> bool" where
  "is_clean (Full b) (Full c) dirty exists = (strip_single_trailing_newline b = strip_single_trailing_newline c)"
| "is_clean (Binary _) (Binary _) dirty exists = (\<not> dirty)"
| "is_clean (TooLarge _) (TooLarge _) dirty exists = (\<not> dirty)"
| "is_clean Symlink Symlink dirty exists = (\<not> dirty)"
| "is_clean (LfsPointer _) _ dirty exists = (\<not> dirty)"
| "is_clean _ (LfsPointer _) dirty exists = (\<not> dirty)"
| "is_clean Symlink (Full _) dirty exists = (\<not> dirty)"
| "is_clean (Full _) Symlink dirty exists = (\<not> dirty)"
| "is_clean Missing Missing dirty exists = (\<not> exists)"
| "is_clean Missing _ dirty exists = (\<not> dirty)"
| "is_clean _ _ dirty exists = False"

definition refresh_file :: "world \<Rightarrow> fpath \<Rightarrow> tracker \<Rightarrow> tracker" where
  "refresh_file w p t =
     (case lookup p t of
        None \<Rightarrow> t
      | Some st0 \<Rightarrow>
          (let st = st0\<lparr>baseline := read_baseline w p, current_content := on_disk w p, baseline_accepted := False\<rparr>;
               t0 = put p st t;
               clean = is_clean (baseline st) (current_content st) (in_dirty_cache p t) (path_exists w p)
           in if clean \<and> \<not> is_agent_file st then stop_tracking p st t0
              else if clean then
                send_events (removed_for p Superseded (hunks st) @ [BaselineUpdated p])
                  (drop_from_index (hunks st) (put p (st\<lparr>hunks := []\<rparr>) t0))
              else
                send_events [BaselineUpdated p]
                  (recompute_hunks w p (Some (current_content st))
                    (if is_agent_file st then ExternalEditOnAgentFile else External) t0)))"

text \<open>The caches are refreshed first; in the mode that follows the agent only for what is tracked.\<close>

definition refresh_caches :: "world \<Rightarrow> tracker \<Rightarrow> tracker" where
  "refresh_caches w t =
     (case mode t of
        AllDirty \<Rightarrow> refresh_git_dirty_cache w None t
      | AgentOnly \<Rightarrow>
          (let rels = map (drop (length (working_dir t))) (filter (prefix (working_dir t)) (map fst (file_states t)))
           in if rels = [] then t\<lparr>git_dirty_cache := [], git_staged_cache := []\<rparr>
              else refresh_git_dirty_cache w (Some rels) t))"

definition refresh_all_baselines_except :: "world \<Rightarrow> fpath list \<Rightarrow> tracker \<Rightarrow> tracker" where
  "refresh_all_baselines_except w skip t =
     (if mode t = AgentOnly \<and> file_states t = [] then t
      else if sync_state w = Some (repo_sync_state t) then t
      else
        (let t1 = (case sync_state w of Some s \<Rightarrow> t\<lparr>repo_sync_state := s\<rparr> | None \<Rightarrow> t);
             t2 = refresh_caches w t1
         in fold (refresh_file w) (filter (\<lambda>p. p \<notin> set skip) (map fst (file_states t2))) t2))"

section \<open>Modes\<close>

definition set_mode :: "world \<Rightarrow> tracking_mode \<Rightarrow> tracker \<Rightarrow> tracker" where
  "set_mode w m t =
     (let t1 = t\<lparr>mode := m\<rparr>
      in if mode t = AgentOnly \<and> m = AllDirty then refresh_git_dirty_cache w None t1
         else if mode t = AllDirty \<and> m = AgentOnly then
           fold (\<lambda>(p, st). stop_tracking p st) (filter (\<lambda>(p, st). \<not> is_agent_file st) (file_states t1)) t1
         else t1)"

end
