(* ===== verification/Hunk_Commands.thy ===== *)
theory Hunk_Commands
  imports Hunk_Changes
begin

text \<open>
  The commands of the hunk tracker (\<open>actor/mod.rs\<close>, \<open>actor/queries.rs\<close>, \<open>commands.rs\<close>): the answers to
  queries, snapshots and their restoration, the move to another working directory, the merging of
  queued file notifications, and the dispatch of one command.
\<close>

section \<open>Queries\<close>

definition get_all_hunks :: "tracker \<Rightarrow> hunk list" where
  "get_all_hunks t = concat (map (\<lambda>(p, st). hunks st) (file_states t))"

definition get_hunks_for_path :: "fpath \<Rightarrow> tracker \<Rightarrow> hunk list" where
  "get_hunks_for_path p t = (case lookup p t of Some st \<Rightarrow> hunks st | None \<Rightarrow> [])"

definition get_all_tracked_paths :: "tracker \<Rightarrow> fpath list" where
  "get_all_tracked_paths t = map fst (file_states t)"

datatype source_filter = Agent | ExternalEdits

fun source_admitted :: "source_filter \<Rightarrow> hunk_source \<Rightarrow> bool" where
  "source_admitted Agent src = is_agent_edit src"
| "source_admitted ExternalEdits src = is_external src"

definition get_hunks_by_source :: "source_filter \<Rightarrow> tracker \<Rightarrow> hunk list" where
  "get_hunks_by_source f t = filter (\<lambda>h. source_admitted f (hunk_source h)) (get_all_hunks t)"

definition get_hunk :: "nat \<Rightarrow> tracker \<Rightarrow> hunk option" where
  "get_hunk i t = List.find (\<lambda>h. hunk_id h = i) (get_all_hunks t)"

definition get_hunks_for_turn :: "nat \<Rightarrow> tracker \<Rightarrow> hunk list" where
  "get_hunks_for_turn i t = List.map_filter (\<lambda>k. get_hunk k t) (turn_index t i)"

record turn_summary =
  turn_prompt :: nat
  turn_files :: "fpath list"
  pending_hunks :: "hunk list"
  lines_added :: nat
  lines_removed :: nat

record session_summary =
  summary_stats :: session_stats
  turns :: "turn_summary list"
  files_modified :: nat
  files_with_pending :: nat
  total_pending :: nat
  total_lines_added :: nat
  total_lines_removed :: nat
  unattributed_pending :: nat

definition turn_summary_of :: "file_map \<Rightarrow> nat \<Rightarrow> turn_summary" where
  "turn_summary_of fs i =
     (let made = filter (\<lambda>h. prompt_index (hunk_source h) = Some i);
          pending = concat (map (\<lambda>(p, st). made (hunks st)) fs)
      in \<lparr>turn_prompt = i,
          turn_files = map fst (filter (\<lambda>(p, st). made (hunks st) \<noteq> []) fs),
          pending_hunks = pending,
          lines_added = sum_list (map (\<lambda>h. new_count (line_info h)) pending),
          lines_removed = sum_list (map (\<lambda>h. old_count (line_info h)) pending)\<rparr>)"

definition prompts_of :: "tracker \<Rightarrow> nat list" where
  "prompts_of t = sort (remdups (List.map_filter (\<lambda>h. prompt_index (hunk_source h)) (get_all_hunks t)))"

definition compute_session_summary :: "tracker \<Rightarrow> session_summary" where
  "compute_session_summary t =
     (let ts = map (turn_summary_of (file_states t)) (prompts_of t);
          agent_files = length (filter (\<lambda>(p, st). list_ex (\<lambda>h. prompt_index (hunk_source h) \<noteq> None) (hunks st)) (file_states t))
      in \<lparr>summary_stats = stats t, turns = ts, files_modified = agent_files, files_with_pending = agent_files,
          total_pending = sum_list (map (\<lambda>s. length (pending_hunks s)) ts),
          total_lines_added = sum_list (map lines_added ts),
          total_lines_removed = sum_list (map lines_removed ts),
          unattributed_pending = length (filter (\<lambda>h. prompt_index (hunk_source h) = None) (get_all_hunks t))\<rparr>)"

section \<open>Snapshots\<close>

text \<open>
  A snapshot of a file has the fields of its state, so the same record is used. Identifiers are unique
  across trackers: a snapshot carries the next unused one along, and a tracker that takes it over goes
  on behind both.
\<close>

record snapshot =
  snap_files :: file_map
  snap_index :: turn_map
  snap_stats :: session_stats
  snap_next :: nat

record turn_delta =
  delta_prompt :: nat
  delta_files :: file_map
  delta_ids :: "nat list"

definition take_snapshot :: "tracker \<Rightarrow> snapshot" where
  "take_snapshot t = \<lparr>snap_files = file_states t, snap_index = turn_index t, snap_stats = stats t,
     snap_next = next_id t\<rparr>"

definition take_turn_delta :: "nat \<Rightarrow> tracker \<Rightarrow> turn_delta" where
  "take_turn_delta i t =
     (let ids = turn_index t i
      in \<lparr>delta_prompt = i,
          delta_files = filter (\<lambda>(p, st). list_ex (\<lambda>h. hunk_id h \<in> set ids) (hunks st)) (file_states t),
          delta_ids = ids\<rparr>)"

definition restore_snapshot :: "snapshot \<Rightarrow> tracker \<Rightarrow> tracker" where
  "restore_snapshot s t = t\<lparr>file_states := snap_files s, turn_index := snap_index s, stats := snap_stats s,
     next_id := max (next_id t) (snap_next s)\<rparr>"

definition strip_base :: "fpath \<Rightarrow> fpath \<Rightarrow> fpath option" where
  "strip_base p base = (if prefix base p then Some (drop (length base) p) else None)"

definition join_path :: "fpath \<Rightarrow> fpath \<Rightarrow> fpath" where
  "join_path base rel = (if prefix [RootDir] rel then rel else base @ rel)"

definition rewrite_single_path :: "fpath \<Rightarrow> fpath \<Rightarrow> fpath \<Rightarrow> fpath \<Rightarrow> fpath option" where
  "rewrite_single_path p old_cwd canonical_old new_cwd =
     map_option (join_path new_cwd)
       (case strip_base p canonical_old of Some rel \<Rightarrow> Some rel | None \<Rightarrow> strip_base p old_cwd)"

definition at_path :: "fpath \<Rightarrow> file_hunk_state \<Rightarrow> file_hunk_state" where
  "at_path p st = st\<lparr>hunks := map (\<lambda>h. h\<lparr>hunk_path := p\<rparr>) (hunks st)\<rparr>"

definition rewrite_paths :: "fpath \<Rightarrow> fpath \<Rightarrow> fpath \<Rightarrow> snapshot \<Rightarrow> snapshot" where
  "rewrite_paths old_cwd canonical_old new_cwd s =
     s\<lparr>snap_files := fold (\<lambda>(p, st) fs.
         let target = (case rewrite_single_path p old_cwd canonical_old new_cwd of Some q \<Rightarrow> q | None \<Rightarrow> p)
         in AList.update target (at_path target st) fs) (snap_files s) []\<rparr>"

section \<open>Another working directory\<close>

definition rekeyed :: "fpath \<Rightarrow> fpath \<Rightarrow> fpath \<Rightarrow> fpath" where
  "rekeyed old_cwd new_cwd p =
     (if prefix new_cwd p then p
      else case rewrite_single_path p old_cwd old_cwd new_cwd of Some q \<Rightarrow> q | None \<Rightarrow> p)"

definition merge_rekeyed :: "fpath \<Rightarrow> file_hunk_state \<Rightarrow> file_map \<Rightarrow> file_map" where
  "merge_rekeyed p st fs =
     (case map_of fs p of
        None \<Rightarrow> AList.update p st fs
      | Some dest \<Rightarrow> AList.update p (dest\<lparr>hunks := hunks dest @ hunks st,
            is_agent_file := is_agent_file dest \<or> is_agent_file st,
            baseline_accepted := baseline_accepted dest \<or> baseline_accepted st\<rparr>) fs)"

definition rekey_paths_for_working_dir :: "fpath \<Rightarrow> tracker \<Rightarrow> tracker" where
  "rekey_paths_for_working_dir new_cwd t =
     (if new_cwd = working_dir t then t
      else
        (let rewrite = rekeyed (working_dir t) new_cwd;
             (already, others) = partition (\<lambda>(p, st). prefix new_cwd p) (file_states t);
             kept = fold (\<lambda>(p, st). AList.update (rewrite p) (at_path (rewrite p) st)) already [];
             merged = fold (\<lambda>(p, st). merge_rekeyed (rewrite p) (at_path (rewrite p) st)) others kept
         in t\<lparr>file_states := merged, git_dirty_cache := map rewrite (git_dirty_cache t),
              git_staged_cache := map rewrite (git_staged_cache t)\<rparr>))"

definition set_working_dir :: "fpath \<Rightarrow> tracker \<Rightarrow> tracker" where
  "set_working_dir wd t =
     (rekey_paths_for_working_dir wd t)\<lparr>working_dir := wd,
        repo_sync_state := \<lparr>head_oid = None, index_mtime = None\<rparr>\<rparr>"

section \<open>Commands\<close>

text \<open>The commands that change the state; a query answers by its function above.\<close>

datatype command =
  RecordAgentWrite fpath string nat "string option"
| HandleFileChange fpath
| HandleFileDeleted fpath
| RefreshGitDirtyCache
| ResetBaseline fpath
| SetMode tracking_mode
| SetWorkingDir fpath
| HunkAction nat hunk_action
| FileAction fpath hunk_action
| AllAction hunk_action
| TurnAction nat hunk_action
| ResetStats
| RefreshAllBaselines
| RestoreState snapshot

fun handle_command :: "world \<Rightarrow> command \<Rightarrow> tracker \<Rightarrow> tracker" where
  "handle_command w (RecordAgentWrite p content i previous) t = record_agent_write w p content i previous t"
| "handle_command w (HandleFileChange p) t = handle_file_change w p t"
| "handle_command w (HandleFileDeleted p) t = handle_file_deleted w p t"
| "handle_command w RefreshGitDirtyCache t = refresh_git_dirty_cache w None t"
| "handle_command w (ResetBaseline p) t = reset_baseline p t"
| "handle_command w (SetMode m) t = set_mode w m t"
| "handle_command w (SetWorkingDir wd) t = set_working_dir wd t"
| "handle_command w (HunkAction i a) t = snd (apply_hunk_action w i a t)"
| "handle_command w (FileAction p a) t = snd (apply_file_action w p a t)"
| "handle_command w (AllAction a) t = snd (apply_all_action w a t)"
| "handle_command w (TurnAction i a) t = snd (apply_turn_action w i a t)"
| "handle_command w ResetStats t = t\<lparr>stats := stats_default\<rparr>"
| "handle_command w RefreshAllBaselines t = refresh_all_baselines_except w [] t"
| "handle_command w (RestoreState s) t = restore_snapshot s t"

section \<open>Coalescing\<close>

datatype path_action = Changed | DeletedOnly | DeletedThenChanged

record coalesced_batch =
  file_actions :: "(fpath \<times> path_action) list"
  refresh_all :: bool
  refresh_dirty :: bool
  other_commands :: "command list"
  command_count :: nat

definition batch_new :: coalesced_batch where
  "batch_new = \<lparr>file_actions = [], refresh_all = False, refresh_dirty = False, other_commands = [], command_count = 0\<rparr>"

fun after_change :: "path_action option \<Rightarrow> path_action" where
  "after_change None = Changed"
| "after_change (Some DeletedOnly) = DeletedThenChanged"
| "after_change (Some a) = a"

definition batch_add :: "command \<Rightarrow> coalesced_batch \<Rightarrow> coalesced_batch" where
  "batch_add c b0 =
     (let b = b0\<lparr>command_count := command_count b0 + 1\<rparr>
      in case c of
           HandleFileChange p \<Rightarrow>
             b\<lparr>file_actions := AList.update p (after_change (map_of (file_actions b) p)) (file_actions b)\<rparr>
         | HandleFileDeleted p \<Rightarrow> b\<lparr>file_actions := AList.update p DeletedOnly (file_actions b)\<rparr>
         | RefreshAllBaselines \<Rightarrow> b\<lparr>refresh_all := True\<rparr>
         | RefreshGitDirtyCache \<Rightarrow> b\<lparr>refresh_dirty := True\<rparr>
         | _ \<Rightarrow> b\<lparr>other_commands := other_commands b @ [c]\<rparr>)"

fun is_coalescable :: "command \<Rightarrow> bool" where
  "is_coalescable (HandleFileChange _) = True"
| "is_coalescable (HandleFileDeleted _) = True"
| "is_coalescable RefreshAllBaselines = True"
| "is_coalescable RefreshGitDirtyCache = True"
| "is_coalescable _ = False"

definition coalesce :: "command list \<Rightarrow> coalesced_batch" where
  "coalesce cs = fold batch_add cs batch_new"

text \<open>Before a full refresh only what is new is looked at, and deletions of what is tracked.\<close>

definition before_refresh :: "world \<Rightarrow> fpath \<times> path_action \<Rightarrow> fpath list \<times> tracker \<Rightarrow> fpath list \<times> tracker" where
  "before_refresh w pa s =
     (case (pa, s) of ((p, a), (processed, t)) \<Rightarrow>
        if a = DeletedOnly
        then (if lookup p t \<noteq> None then (processed, handle_file_deleted w p t) else s)
        else (if lookup p t = None then (processed @ [p], handle_file_change w p t) else s))"

definition handle_coalesced_batch :: "world \<Rightarrow> coalesced_batch \<Rightarrow> tracker \<Rightarrow> tracker" where
  "handle_coalesced_batch w b t =
     (let t1 = (if refresh_dirty b \<and> \<not> refresh_all b then refresh_git_dirty_cache w None t else t);
          t2 = (if refresh_all b
                then (let (processed, t') = fold (before_refresh w) (file_actions b) ([], t1)
                      in refresh_all_baselines_except w processed t')
                else (let t' = fold (\<lambda>(p, a). if a = DeletedOnly then handle_file_deleted w p else (\<lambda>s. s)) (file_actions b) t1
                      in handle_file_changes_batch w (map fst (filter (\<lambda>(p, a). a \<noteq> DeletedOnly) (file_actions b))) t'))
      in fold (handle_command w) (other_commands b) t2)"

text \<open>One turn of the loop, with what is queued behind the command it receives.\<close>

definition run_once :: "world \<Rightarrow> command \<Rightarrow> command list \<Rightarrow> tracker \<Rightarrow> command list \<times> tracker" where
  "run_once w c queued t =
     (if is_coalescable c then ([], handle_coalesced_batch w (coalesce (c # queued)) t)
      else (queued, handle_command w c t))"

end
