(* ===== verification/Hunk_Text.thy ===== *)
theory Hunk_Text
  imports Hunk_Diff "HOL-Library.Multiset"
begin

text \<open>
  Hunks as texts: applying all hunks of a diff, from the last to the first, turns the old text into
  the new one and back, for texts of lines that end in a plain newline, when a line that is not blank
  is kept. What goes wrong without these conditions is at the end.
\<close>

section \<open>Texts of whole lines\<close>

text \<open>A line with its newline and without a carriage return in front of it.\<close>

definition whole_line :: "string \<Rightarrow> bool" where
  "whole_line s \<longleftrightarrow> s \<noteq> [] \<and> last s = nl \<and> nl \<notin> set (butlast s) \<and> strip_cr (butlast s) = butlast s"

lemma whole_line_parts: "whole_line s \<Longrightarrow> butlast s @ [nl] = s"
  by (metis append_butlast_last_id whole_line_def)

lemma split_on_first: "nl \<notin> set p \<Longrightarrow> split_on nl (p @ nl # rest) = p # split_on nl rest"
  by (induction p) auto

lemma split_whole: "whole_line s \<Longrightarrow> split_on nl (s @ rest) = butlast s # split_on nl rest"
  using split_on_first [of "butlast s" rest] whole_line_parts [of s]
  by (metis append.assoc append_Cons append_Nil whole_line_def)

lemma lines_of_more: "lines_of_pieces (l # split_on nl s) = strip_cr l # lines_of_pieces (split_on nl s)"
  using split_on_nonempty [of nl s] by (cases "split_on nl s") simp_all

lemma str_lines_whole: "list_all whole_line xs \<Longrightarrow> str_lines (concat xs) = map butlast xs"
  by (induction xs) (simp_all add: str_lines_def split_whole lines_of_more, simp add: whole_line_def)

lemma join_whole: "list_all whole_line xs \<Longrightarrow> xs \<noteq> [] \<Longrightarrow> join_with [nl] (map butlast xs) @ [nl] = concat xs"
proof (induction xs)
  case (Cons x xs)
  then have x: "butlast x @ [nl] = x" by (simp add: whole_line_parts)
  show ?case
  proof (cases xs)
    case (Cons y ys)
    with Cons.IH Cons.prems have "join_with [nl] (map butlast xs) @ [nl] = concat xs" by simp
    moreover have "join_with [nl] (map butlast (x # xs)) @ [nl] = (butlast x @ [nl]) @ (join_with [nl] (map butlast xs) @ [nl])"
      using Cons by simp
    ultimately show ?thesis using x by (simp only: concat.simps)
  qed (simp add: x)
qed simp

lemma suffix_whole: "list_all whole_line xs \<Longrightarrow> xs \<noteq> [] \<Longrightarrow> suffix [nl] (concat xs)"
  using join_whole [of xs] by (metis suffixI)

lemma join_empty: "join_with [nl] ls = [] \<Longrightarrow> x \<in> set ls \<Longrightarrow> x = []"
  by (induction "[nl]" ls rule: join_with.induct) auto

lemma patch_whole:
  assumes "list_all whole_line xs" and "xs \<noteq> []" and "list_all whole_line ins"
    and y: "y \<in> set (take (s - 1) xs @ ins @ drop (s - 1 + r) xs)" "y \<noteq> [nl]"
  shows "patch_lines (concat xs) s r (concat ins) = concat (take (s - 1) xs @ ins @ drop (s - 1 + r) xs)"
proof -
  let ?ys = "take (s - 1) xs @ ins @ drop (s - 1 + r) xs"
  have whole: "list_all whole_line ?ys"
    using assms(1,3) by (auto simp: list_all_iff dest: in_set_takeD in_set_dropD)
  have min: "drop (min k (length ls)) ls = drop k ls" for k and ls :: "string list"
    by (simp add: min_def)
  have ins: "(if concat ins = [] then [] else str_lines (concat ins)) = map butlast ins"
    using str_lines_whole [OF assms(3)] assms(3) by (cases ins) (auto simp: whole_line_def)
  have result: "take (s - 1) (str_lines (concat xs)) @ (if concat ins = [] then [] else str_lines (concat ins))
      @ drop (min (s - 1 + r) (length (str_lines (concat xs)))) (str_lines (concat xs)) = map butlast ?ys"
    unfolding ins min str_lines_whole [OF assms(1)] by (simp add: take_map drop_map)
  have "whole_line y" using whole y(1) by (simp only: list_all_iff)
  with y(2) have "butlast y \<noteq> []" using whole_line_parts [of y] by auto
  with y(1) have "join_with [nl] (map butlast ?ys) \<noteq> []"
    using join_empty [of "map butlast ?ys" "butlast y"] by (metis image_eqI list.set_map)
  moreover have "?ys \<noteq> []" using y(1) by auto
  ultimately show ?thesis
    using join_whole [OF whole] suffix_whole [OF assms(1,2)]
    unfolding patch_lines_def Let_def result by simp
qed

section \<open>All hunks of a diff\<close>

fun before :: "change \<Rightarrow> string list" where
  "before (Same l) = [l]" | "before (Deleted l) = [l]" | "before (Inserted l) = []"

fun after :: "change \<Rightarrow> string list" where
  "after (Same l) = [l]" | "after (Deleted l) = []" | "after (Inserted l) = [l]"

definition old_side :: "change list \<Rightarrow> string list" where "old_side chs = concat (map before chs)"

definition new_side :: "change list \<Rightarrow> string list" where "new_side chs = concat (map after chs)"

lemma sides [simp]:
  "old_side [] = []" "new_side [] = []"
  "old_side (Same l # chs) = l # old_side chs" "new_side (Same l # chs) = l # new_side chs"
  "old_side (Deleted l # chs) = l # old_side chs" "new_side (Deleted l # chs) = new_side chs"
  "old_side (Inserted l # chs) = old_side chs" "new_side (Inserted l # chs) = l # new_side chs"
  by (simp_all add: old_side_def new_side_def)

lemma same_in_new: "Same k \<in> set chs \<Longrightarrow> k \<in> set (new_side chs)"
  by (induction chs) (auto simp: new_side_def)

definition accept_builder :: "hunk_builder \<Rightarrow> string \<Rightarrow> string" where
  "accept_builder b txt = patch_lines txt (hb_old_start b) (length (old_lines b)) (concat (new_lines b))"

lemma accept_builder_whole:
  assumes "list_all whole_line (P @ old_lines b @ R)" and "list_all whole_line (new_lines b)"
    and "hb_old_start b = Suc (length P)" and "k \<in> set P \<union> set R" and "k \<noteq> [nl]"
  shows "accept_builder b (concat (P @ old_lines b @ R)) = concat (P @ new_lines b @ R)"
proof -
  have "P @ old_lines b @ R \<noteq> []" using assms(4) by auto
  with patch_whole [of "P @ old_lines b @ R" "new_lines b" k "hb_old_start b" "length (old_lines b)"] assms
  show ?thesis by (auto simp: accept_builder_def)
qed

text \<open>The hunks of the rest of the changes, in a text whose first lines \<open>P\<close> are settled.\<close>

lemma accept_builders:
  assumes "list_all whole_line (old_side chs)" and "list_all whole_line (new_side chs)"
    and "list_all whole_line P" and "k \<in> set P \<or> Same k \<in> set chs" and "k \<noteq> [nl]"
  shows "foldr accept_builder (builders chs (Suc (length P)) n_line None) (concat (P @ old_side chs))
      = concat (P @ new_side chs)"
    and "\<And>b. hb_old_start b = Suc (length P) \<Longrightarrow> list_all whole_line (old_lines b) \<Longrightarrow> list_all whole_line (new_lines b)
      \<Longrightarrow> foldr accept_builder (builders chs (Suc (length P) + length (old_lines b)) n_line (Some b))
           (concat (P @ old_lines b @ old_side chs)) = concat (P @ new_lines b @ new_side chs)"
  using assms
proof (induction chs arbitrary: P n_line)
  case Nil
  {
    case 1
    then show ?case by (simp add: finished_def)
  next
    case (2 b)
    then show ?case using accept_builder_whole [of P b "[]" k] by (simp add: finished_def)
  }
next
  case (Cons c chs)
  {
    case 1
    show ?case
    proof (cases c)
      case (Same l)
      with 1 Cons.IH(1) [of "P @ [l]"] show ?thesis by (auto simp: finished_def)
    next
      case (Deleted l)
      let ?b = "add_old_line l (builder_new (Suc (length P)) n_line)"
      from Deleted 1 Cons.IH(2) [of ?b P n_line] show ?thesis
        by (simp add: in_progress_def builder_new_def add_old_line_def)
    next
      case (Inserted l)
      let ?b = "add_new_line l (builder_new (Suc (length P)) n_line)"
      from Inserted 1 Cons.IH(2) [of ?b P "n_line + 1"] show ?thesis
        by (simp add: in_progress_def builder_new_def add_new_line_def)
    qed
  next
    case (2 b)
    show ?case
    proof (cases c)
      case (Same l)
      have k: "k \<in> set (P @ old_lines b @ [l]) \<or> Same k \<in> set chs" "k \<in> set P \<union> set (l # new_side chs)"
        using 2 Same same_in_new [of k chs] by auto
      have "foldr accept_builder (builders chs (Suc (length (P @ old_lines b @ [l]))) (n_line + 1) None)
          (concat ((P @ old_lines b @ [l]) @ old_side chs)) = concat ((P @ old_lines b @ [l]) @ new_side chs)"
        using 2 Same k(1) by (intro Cons.IH(1)) simp_all
      moreover have "accept_builder b (concat (P @ old_lines b @ l # new_side chs)) = concat (P @ new_lines b @ l # new_side chs)"
        using 2 Same k(2) by (intro accept_builder_whole) simp_all
      ultimately show ?thesis using Same by (simp add: finished_def)
    next
      case (Deleted l)
      from Deleted 2 Cons.IH(2) [of "add_old_line l b" P n_line] show ?thesis
        by (simp add: in_progress_def add_old_line_def)
    next
      case (Inserted l)
      from Inserted 2 Cons.IH(2) [of "add_new_line l b" P "n_line + 1"] show ?thesis
        by (simp add: in_progress_def add_new_line_def)
    qed
  }
qed

text \<open>Rejecting a hunk is accepting its mirror image.\<close>

fun mirror :: "change \<Rightarrow> change" where
  "mirror (Same l) = Same l" | "mirror (Deleted l) = Inserted l" | "mirror (Inserted l) = Deleted l"

definition mirror_builder :: "hunk_builder \<Rightarrow> hunk_builder" where
  "mirror_builder b = \<lparr>hb_old_start = hb_new_start b, hb_new_start = hb_old_start b,
     old_lines = new_lines b, new_lines = old_lines b\<rparr>"

lemma mirror_sides [simp]: "old_side (map mirror chs) = new_side chs" "new_side (map mirror chs) = old_side chs"
proof (induction chs)
  case (Cons c chs)
  {
    case 1
    from Cons show ?case by (cases c) simp_all
  next
    case 2
    from Cons show ?case by (cases c) simp_all
  }
qed simp_all

lemma mirror_Same: "Same k \<in> set (map mirror chs) \<longleftrightarrow> Same k \<in> set chs"
proof (induction chs)
  case (Cons c chs)
  then show ?case by (cases c) auto
qed simp

lemma mirror_builders:
  "builders (map mirror chs) n_line o_line (map_option mirror_builder cur) = map mirror_builder (builders chs o_line n_line cur)"
proof (induction chs arbitrary: o_line n_line cur)
  case Nil
  then show ?case by (simp add: finished_def split: option.split)
next
  case (Cons c chs)
  have fin: "finished (map_option mirror_builder cur) = map mirror_builder (finished cur)"
    by (simp add: finished_def split: option.split)
  have ip: "in_progress n_line o_line (map_option mirror_builder cur) = mirror_builder (in_progress o_line n_line cur)"
    by (simp add: in_progress_def mirror_builder_def builder_new_def split: option.split)
  have add: "add_old_line l (mirror_builder b) = mirror_builder (add_new_line l b)"
    "add_new_line l (mirror_builder b) = mirror_builder (add_old_line l b)" for l b
    by (simp_all add: add_old_line_def add_new_line_def mirror_builder_def)
  show ?case
    using Cons.IH [of "n_line + 1" "o_line + 1" None] Cons.IH [of "n_line + 1" o_line "Some b" for b]
      Cons.IH [of n_line "o_line + 1" "Some b" for b]
    by (cases c) (simp_all add: fin ip add)
qed

text \<open>Hunks start further and further down, on both sides.\<close>

lemma builders_ascend:
  assumes "case cur of Some b \<Rightarrow> hb_old_start b \<le> o_line | None \<Rightarrow> True"
  shows "sorted_wrt (<) (map hb_old_start (builders chs o_line n_line cur))
    \<and> (\<forall>x\<in>set (builders chs o_line n_line cur). (case cur of Some b \<Rightarrow> hb_old_start b | None \<Rightarrow> o_line) \<le> hb_old_start x)"
  using assms
proof (induction chs arbitrary: o_line n_line cur)
  case Nil
  then show ?case by (simp add: finished_def split: option.split)
next
  case (Cons c chs)
  show ?case
  proof (cases c)
    case (Same l)
    have "sorted_wrt (<) (map hb_old_start (builders chs (o_line + 1) (n_line + 1) None))
      \<and> (\<forall>x\<in>set (builders chs (o_line + 1) (n_line + 1) None). o_line + 1 \<le> hb_old_start x)"
      using Cons.IH [of "o_line + 1" None "n_line + 1"] by simp
    with Same Cons.prems show ?thesis by (auto simp: finished_def split: option.split)
  next
    case (Deleted l)
    then show ?thesis
      using Cons.IH [of "o_line + 1" "Some (add_old_line l (in_progress o_line n_line cur))" n_line] Cons.prems
      by (auto simp: in_progress_def builder_new_def add_old_line_def split: option.splits)
  next
    case (Inserted l)
    then show ?thesis
      using Cons.IH [of o_line "Some (add_new_line l (in_progress o_line n_line cur))" "n_line + 1"] Cons.prems
      by (auto simp: in_progress_def builder_new_def add_new_line_def split: option.splits)
  qed
qed

lemma starts_ascend:
  "sorted_wrt (<) (map hb_old_start (builders chs 1 1 None))"
  "sorted_wrt (<) (map hb_new_start (builders chs 1 1 None))"
proof -
  show "sorted_wrt (<) (map hb_old_start (builders chs 1 1 None))"
    using builders_ascend [of 1 None chs 1] by simp
  have "map hb_old_start (builders (map mirror chs) 1 1 None) = map hb_new_start (builders chs 1 1 None)"
    using mirror_builders [of chs 1 1 None] by (simp add: mirror_builder_def comp_def)
  with builders_ascend [of 1 None "map mirror chs" 1]
  show "sorted_wrt (<) (map hb_new_start (builders chs 1 1 None))" by simp
qed

lemma sort_desc:
  assumes "sorted_wrt (<) (map f hs)"
  shows "sort_key (\<lambda>h. - int (f h)) hs = rev hs"
proof (rule sort_key_inj_key_eq)
  have "distinct (map f hs)" using assms strict_sorted_iff by blast
  then show "inj_on (\<lambda>h. - int (f h)) (set hs)" by (simp add: distinct_map inj_on_def)
  have "sorted_wrt (\<lambda>x y. f x < f y) hs" using assms by (simp only: sorted_wrt_map)
  then have "sorted_wrt (\<lambda>x y. - int (f y) \<le> - int (f x)) hs" by (rule sorted_wrt_mono_rel [rotated]) simp
  then show "sorted (map (\<lambda>h. - int (f h)) (rev hs))" by (simp only: rev_map [symmetric] sorted_wrt_rev sorted_wrt_map)
qed simp

section \<open>The hunks of a file\<close>

text \<open>What a hunk says of the texts, without its identity and its author.\<close>

type_synonym hunk_shape = "hunk_line_info \<times> string option \<times> string"

definition shape :: "hunk \<Rightarrow> hunk_shape" where
  "shape h = (line_info h, old_text h, new_text h)"

definition shapes_of :: "change list \<Rightarrow> hunk_shape list" where
  "shapes_of chs = map (\<lambda>b. shape (build [] External 0 b)) (builders chs 1 1 None)"

lemma shape_build: "shape (build path src i b) = shape (build [] External 0 b)"
  by (simp add: shape_def build_def)

lemma shapes_numbered: "map shape (number_hunks path src i (builders chs 1 1 None)) = shapes_of chs"
proof -
  have "map shape (number_hunks path src i bs) = map (\<lambda>b. shape (build [] External 0 b)) bs" for bs
    by (induction bs arbitrary: i) (auto simp: number_hunks_def intro: shape_build)
  then show ?thesis by (simp only: shapes_of_def)
qed

lemma starts_of_shapes:
  assumes "map shape hs = shapes_of chs"
  shows "by_old_start_desc hs = rev hs" "by_new_start_desc hs = rev hs"
proof -
  have "map (\<lambda>h. old_start (line_info h)) hs = map (\<lambda>s. old_start (fst s)) (map shape hs)"
    "map (\<lambda>h. new_start (line_info h)) hs = map (\<lambda>s. new_start (fst s)) (map shape hs)"
    by (simp_all add: shape_def)
  then have "map (\<lambda>h. old_start (line_info h)) hs = map hb_old_start (builders chs 1 1 None)"
    "map (\<lambda>h. new_start (line_info h)) hs = map hb_new_start (builders chs 1 1 None)"
    unfolding assms by (simp_all add: shapes_of_def shape_def build_def)
  then have "sorted_wrt (<) (map (\<lambda>h. old_start (line_info h)) hs)" "sorted_wrt (<) (map (\<lambda>h. new_start (line_info h)) hs)"
    using starts_ascend [of chs] by simp_all
  then show "by_old_start_desc hs = rev hs" "by_new_start_desc hs = rev hs"
    by (simp_all only: by_old_start_desc_def by_new_start_desc_def sort_desc [of "\<lambda>h. old_start (line_info h)"]
        sort_desc [of "\<lambda>h. new_start (line_info h)"])
qed

definition accept_shape :: "hunk_shape \<Rightarrow> string \<Rightarrow> string" where
  "accept_shape s txt = patch_lines txt (old_start (fst s)) (old_count (fst s)) (snd (snd s))"

definition reject_shape :: "hunk_shape \<Rightarrow> string \<Rightarrow> string" where
  "reject_shape s txt = patch_lines txt (new_start (fst s)) (new_count (fst s)) (case fst (snd s) of Some t \<Rightarrow> t | None \<Rightarrow> [])"

lemma patches_by_shape:
  "accept_patches txt (rev hs) = foldr accept_shape (map shape hs) txt"
  "reject_patches txt (rev hs) = foldr reject_shape (map shape hs) txt"
  by (simp_all add: accept_patches_def reject_patches_def foldl_conv_foldr foldr_map comp_def accept_shape_def [abs_def]
      reject_shape_def [abs_def] shape_def)

lemma builders_by_shape:
  "accept_shape (shape (build p src i b)) = accept_builder b"
  "reject_shape (shape (build p src i b)) = accept_builder (mirror_builder b)"
  by (auto simp: fun_eq_iff accept_shape_def reject_shape_def shape_def build_def accept_builder_def mirror_builder_def)

text \<open>A text file changed line by line, with a line that is kept and not blank.\<close>

definition line_edit :: "change list \<Rightarrow> bool" where
  "line_edit chs \<longleftrightarrow> list_all whole_line (old_side chs) \<and> list_all whole_line (new_side chs) \<and>
     list_ex (\<lambda>c. case c of Same k \<Rightarrow> k \<noteq> [nl] | _ \<Rightarrow> False) chs"

lemma line_edit_keeps: "line_edit chs \<Longrightarrow> \<exists>k. Same k \<in> set chs \<and> k \<noteq> [nl]"
proof -
  assume "line_edit chs"
  then obtain c where c: "c \<in> set chs" "case c of Same k \<Rightarrow> k \<noteq> [nl] | _ \<Rightarrow> False"
    by (auto simp: line_edit_def list_ex_iff)
  show ?thesis by (rule change.exhaust [of c]) (use c in auto)
qed

lemma accept_text:
  assumes "map shape hs = shapes_of chs" and "line_edit chs"
  shows "accept_patches (concat (old_side chs)) (by_old_start_desc hs) = concat (new_side chs)"
proof -
  obtain k where "Same k \<in> set chs" "k \<noteq> [nl]" using line_edit_keeps [OF assms(2)] by blast
  then have "foldr accept_builder (builders chs 1 1 None) (concat (old_side chs)) = concat (new_side chs)"
    using accept_builders(1) [of chs "[]" k 1] assms(2) by (simp add: line_edit_def)
  then show ?thesis
    by (simp add: starts_of_shapes [OF assms(1)] patches_by_shape assms(1))
      (simp add: shapes_of_def foldr_map comp_def builders_by_shape)
qed

lemma reject_text:
  assumes "map shape hs = shapes_of chs" and "line_edit chs"
  shows "reject_patches (concat (new_side chs)) (by_new_start_desc hs) = concat (old_side chs)"
proof -
  obtain k where "Same k \<in> set (map mirror chs)" "k \<noteq> [nl]"
    using line_edit_keeps [OF assms(2)] mirror_Same by blast
  then have "foldr accept_builder (builders (map mirror chs) 1 1 None) (concat (new_side chs)) = concat (old_side chs)"
    using accept_builders(1) [of "map mirror chs" "[]" k 1] assms(2) by (simp add: line_edit_def)
  then have "foldr (\<lambda>b. accept_builder (mirror_builder b)) (builders chs 1 1 None) (concat (new_side chs)) = concat (old_side chs)"
    using mirror_builders [of chs 1 1 None] by (simp add: foldr_map comp_def)
  then show ?thesis
    by (simp add: starts_of_shapes [OF assms(1)] patches_by_shape assms(1))
      (simp add: shapes_of_def foldr_map comp_def builders_by_shape)
qed

end
