(* ===== verification/Hunk_Invariants.thy ===== *)
theory Hunk_Invariants
  imports Hunk_Commands Hunk_Text
begin

text \<open>
  The invariants of the hunk tracker: identifiers are used once, the index by turn lists exactly the
  hunks that the agent made in the turn, and the hunks of a file describe how its text differs from
  its baseline. Each operation is an update of one file, so one lemma carries the bookkeeping.
\<close>

section \<open>Hunks by path\<close>

definition hunks_at :: "file_map \<Rightarrow> fpath \<Rightarrow> hunk list" where
  "hunks_at fs p = (case map_of fs p of Some st \<Rightarrow> hunks st | None \<Rightarrow> [])"

lemma in_hunks_at: "h \<in> set (hunks_at fs p) \<longleftrightarrow> (\<exists>st. map_of fs p = Some st \<and> h \<in> set (hunks st))"
  by (cases "map_of fs p") (auto simp: hunks_at_def)

lemma hunks_at_update [simp]: "hunks_at (AList.update p st fs) q = (if q = p then hunks st else hunks_at fs q)"
  by (simp add: hunks_at_def update_conv)

lemma hunks_at_delete [simp]: "hunks_at (AList.delete p fs) q = (if q = p then [] else hunks_at fs q)"
  by (simp add: hunks_at_def delete_conv)

lemma lookup_put [simp]: "lookup q (put p st t) = (if q = p then Some st else lookup q t)"
  by (simp add: lookup_def put_def update_conv)

lemma lookup_fields [simp]:
  "lookup q (send_events es t) = lookup q t"
  "lookup q (t\<lparr>turn_index := ix\<rparr>) = lookup q t"
  "lookup q (t\<lparr>next_id := n\<rparr>) = lookup q t"
  "lookup q (t\<lparr>stats := s\<rparr>) = lookup q t"
  "lookup q (t\<lparr>disk_ops := d\<rparr>) = lookup q t"
  by (simp_all add: lookup_def send_events_def)

lemma live_iff:
  assumes "distinct (map fst fs)"
  shows "h \<in> set (concat (map (\<lambda>(p, st). hunks st) fs)) \<longleftrightarrow> (\<exists>p. h \<in> set (hunks_at fs p))"
proof -
  have "h \<in> set (concat (map (\<lambda>(p, st). hunks st) fs)) \<longleftrightarrow> (\<exists>p st. (p, st) \<in> set fs \<and> h \<in> set (hunks st))"
    by auto
  also have "\<dots> \<longleftrightarrow> (\<exists>p st. map_of fs p = Some st \<and> h \<in> set (hunks st))"
    by (simp add: map_of_eq_Some_iff [OF assms])
  also have "\<dots> \<longleftrightarrow> (\<exists>p. h \<in> set (hunks_at fs p))"
    by (simp add: in_hunks_at)
  finally show ?thesis .
qed

section \<open>The index\<close>

lemma prompt_index_iff: "prompt_index src = Some i \<longleftrightarrow> src = AgentEdit i"
  by (cases src) auto

lemma in_index_remove:
  "k \<in> set (index_remove h ix i) \<longleftrightarrow> k \<in> set (ix i) \<and> \<not> (hunk_id h = k \<and> hunk_source h = AgentEdit i)"
  by (cases "hunk_source h") (auto simp: index_remove_def)

lemma in_index_add:
  "k \<in> set (index_add h ix i) \<longleftrightarrow> k \<in> set (ix i) \<or> hunk_id h = k \<and> hunk_source h = AgentEdit i"
  by (cases "hunk_source h") (auto simp: index_add_def)

lemma in_fold_remove:
  "k \<in> set (fold index_remove hs ix i) \<longleftrightarrow>
     k \<in> set (ix i) \<and> \<not> (\<exists>h\<in>set hs. hunk_id h = k \<and> hunk_source h = AgentEdit i)"
  by (induction hs arbitrary: ix) (auto simp: in_index_remove)

lemma in_fold_add:
  "k \<in> set (fold index_add hs ix i) \<longleftrightarrow>
     k \<in> set (ix i) \<or> (\<exists>h\<in>set hs. hunk_id h = k \<and> hunk_source h = AgentEdit i)"
  by (induction hs arbitrary: ix) (auto simp: in_index_add)

lemma distinct_index_remove: "\<forall>i. distinct (ix i) \<Longrightarrow> \<forall>i. distinct (index_remove h ix i)"
  by (cases "hunk_source h") (auto simp: index_remove_def distinct_removeAll)

lemma distinct_index_add: "\<forall>i. distinct (ix i) \<Longrightarrow> \<forall>i. distinct (index_add h ix i)"
  by (cases "hunk_source h") (auto simp: index_add_def)

lemma distinct_fold_remove: "\<forall>i. distinct (ix i) \<Longrightarrow> distinct (fold index_remove hs ix i)"
  by (induction hs arbitrary: ix) (simp_all add: distinct_index_remove)

lemma distinct_fold_add: "\<forall>i. distinct (ix i) \<Longrightarrow> distinct (fold index_add hs ix i)"
  by (induction hs arbitrary: ix) (simp_all add: distinct_index_add)

section \<open>Bookkeeping\<close>

definition ids_at :: "file_map \<Rightarrow> fpath \<Rightarrow> nat set" where
  "ids_at fs p = hunk_id ` set (hunks_at fs p)"

text \<open>
  The index lists a hunk under no other turn than its own, and, when the books are exact, under its own.
\<close>

definition indexed :: "bool \<Rightarrow> turn_map \<Rightarrow> hunk \<Rightarrow> bool" where
  "indexed exact ix h \<longleftrightarrow>
     (\<forall>i. (hunk_id h \<in> set (ix i) \<longrightarrow> hunk_source h = AgentEdit i)
        \<and> (exact \<longrightarrow> hunk_source h = AgentEdit i \<longrightarrow> hunk_id h \<in> set (ix i)))"

definition consistent :: "bool \<Rightarrow> file_map \<Rightarrow> turn_map \<Rightarrow> nat \<Rightarrow> bool" where
  "consistent exact fs ix n \<longleftrightarrow>
     distinct (map fst fs)
     \<and> (\<forall>p. distinct (map hunk_id (hunks_at fs p)))
     \<and> (\<forall>p q. p \<noteq> q \<longrightarrow> ids_at fs p \<inter> ids_at fs q = {})
     \<and> (\<forall>p. \<forall>k\<in>ids_at fs p. k < n)
     \<and> (\<forall>i. distinct (ix i) \<and> (\<forall>k\<in>set (ix i). k < n))
     \<and> (\<forall>p. \<forall>h\<in>set (hunks_at fs p). indexed exact ix h)"

lemma consistent_new: "consistent exact [] (\<lambda>_. []) n"
  by (simp add: consistent_def hunks_at_def ids_at_def)

text \<open>
  One file gets new hunks: some of its own identifiers, or fresh ones; the index changes at most at
  the identifiers of the file.
\<close>

lemma consistent_update:
  assumes c: "consistent ex fs ix n" and n: "n \<le> n'"
    and new: "distinct (map hunk_id (hunks st))" "hunk_id ` set (hunks st) \<subseteq> ids_at fs p \<union> {n..<n'}"
    and ix: "\<And>i. distinct (ix' i)" "\<And>i. set (ix' i) \<subseteq> set (ix i) \<union> hunk_id ` set (hunks st)"
      "\<And>i k. k \<in> set (ix i) \<Longrightarrow> k \<notin> ids_at fs p \<Longrightarrow> k \<in> set (ix' i)"
    and exact: "\<And>h. h \<in> set (hunks st) \<Longrightarrow> indexed ex ix' h"
  shows "consistent ex (AList.update p st fs) ix' n'"
proof -
  have bound: "k < n" if "k \<in> ids_at fs q" for q k using c that by (auto simp: consistent_def)
  have apart: "k \<notin> hunk_id ` set (hunks st)" if "k \<in> ids_at fs q" "q \<noteq> p" for q k
  proof -
    have "k \<notin> ids_at fs p" using c that by (auto simp: consistent_def)
    moreover have "k \<notin> {n..<n'}" using bound [OF that(1)] by simp
    ultimately show ?thesis using new(2) by blast
  qed
  have others: "indexed ex ix' h" if h: "h \<in> set (hunks_at fs q)" "q \<noteq> p" for q h
  proof -
    have k: "hunk_id h \<in> ids_at fs q" using h(1) by (simp add: ids_at_def)
    have "hunk_id h \<notin> ids_at fs p" using c k h(2) by (auto simp: consistent_def)
    moreover have "indexed ex ix h" using c h(1) by (auto simp: consistent_def)
    ultimately show ?thesis using ix(2,3) apart [OF k h(2)] unfolding indexed_def by (metis UnE subsetD)
  qed
  have ids: "ids_at (AList.update p st fs) q = (if q = p then hunk_id ` set (hunks st) else ids_at fs q)" for q
    by (simp add: ids_at_def)
  show ?thesis
    unfolding consistent_def
  proof (intro conjI)
    show "distinct (map fst (AList.update p st fs))" using c by (simp add: consistent_def distinct_update)
    show "\<forall>q. distinct (map hunk_id (hunks_at (AList.update p st fs) q))" using c new(1) by (simp add: consistent_def)
    show "\<forall>q r. q \<noteq> r \<longrightarrow> ids_at (AList.update p st fs) q \<inter> ids_at (AList.update p st fs) r = {}"
    proof (intro allI impI)
      fix q r :: fpath
      assume qr: "q \<noteq> r"
      have "ids_at fs q \<inter> ids_at fs r = {}" using c qr by (simp add: consistent_def)
      moreover have "hunk_id ` set (hunks st) \<inter> ids_at fs s = {}" if "s \<noteq> p" for s using apart that by blast
      ultimately show "ids_at (AList.update p st fs) q \<inter> ids_at (AList.update p st fs) r = {}"
        using qr by (auto simp: ids Int_commute)
    qed
    show "\<forall>q. \<forall>k\<in>ids_at (AList.update p st fs) q. k < n'"
    proof (intro allI ballI)
      fix q k
      assume "k \<in> ids_at (AList.update p st fs) q"
      then have "k \<in> ids_at fs p \<or> k \<in> {n..<n'} \<or> k \<in> ids_at fs q"
        using new(2) by (auto simp: ids split: if_splits)
      then show "k < n'" using bound [of k] n by (auto intro: less_le_trans)
    qed
    show "\<forall>i. distinct (ix' i) \<and> (\<forall>k\<in>set (ix' i). k < n')"
    proof (intro allI conjI ballI)
      fix i k
      assume "k \<in> set (ix' i)"
      then have "k \<in> set (ix i) \<or> k \<in> ids_at fs p \<or> k \<in> {n..<n'}" using ix(2) new(2) by blast
      moreover have "k < n" if "k \<in> set (ix i)" using c that by (simp add: consistent_def)
      ultimately show "k < n'" using bound [of k] n by (auto intro: less_le_trans)
    qed (rule ix(1))
    show "\<forall>q. \<forall>h\<in>set (hunks_at (AList.update p st fs) q). indexed ex ix' h" using others exact by simp
  qed
qed

lemma consistent_delete:
  assumes c: "consistent ex fs ix n" and "map_of fs p = Some st"
  shows "consistent ex (AList.delete p fs) (fold index_remove (hunks st) ix) n"
proof -
  have at: "hunks_at fs p = hunks st" using assms(2) by (simp add: hunks_at_def)
  have ids: "ids_at (AList.delete p fs) q = (if q = p then {} else ids_at fs q)" for q by (simp add: ids_at_def)
  have others: "indexed ex (fold index_remove (hunks st) ix) h" if h: "h \<in> set (hunks_at fs q)" "q \<noteq> p" for q h
  proof -
    have "hunk_id h \<in> ids_at fs q" using h by (simp add: ids_at_def)
    then have "hunk_id h \<notin> ids_at fs p" using c h(2) by (auto simp: consistent_def)
    then have "\<not> (\<exists>g\<in>set (hunks st). hunk_id g = hunk_id h)" by (metis ids_at_def at image_eqI)
    moreover have "indexed ex ix h" using c h(1) by (auto simp: consistent_def)
    ultimately show ?thesis unfolding indexed_def in_fold_remove by blast
  qed
  show ?thesis
    using c others unfolding consistent_def
    by (auto simp: ids in_fold_remove distinct_fold_remove distinct_delete)
qed

end
