(* ===== verification/Hunk_Recompute.thy ===== *)
theory Hunk_Recompute
  imports Hunk_Invariants
begin

text \<open>
  Recomputation keeps the books: a hunk continues at most one earlier hunk and an earlier hunk is
  continued at most once; afterwards the hunks of the file describe its difference.
\<close>

section \<open>Identifiers\<close>

lemma ids_expected: "map hunk_id (expected_hunks diff i p b c src) = [i..<i + length (expected_hunks diff i p b c src)]"
proof -
  have num: "map hunk_id (number_hunks p src i bs) = [i..<i + length (number_hunks p src i bs)]" for bs
  proof -
    have "hunk_id \<circ> (\<lambda>(k, b). build p src k b) = fst" by (auto simp: build_def)
    then have "map hunk_id (number_hunks p src i bs) = map fst (enumerate i bs)"
      by (simp only: number_hunks_def map_map)
    then show ?thesis by (simp add: number_hunks_def)
  qed
  show ?thesis
    by (auto simp: expected_hunks_def compute_hunks_def num file_deleted_def file_created_def
        split: file_content.split option.split)
qed

lemma continued_fields [simp]:
  "hunk_id (continue_hunk h best) = hunk_id best" "shape (continue_hunk h best) = shape h"
  by (simp_all add: continue_hunk_def shape_def)

lemma shapes_claimed: "map shape (claim_ids os claimed hs) = map shape hs"
  by (induction hs arbitrary: claimed) (auto split: option.split)

lemma ids_claimed:
  assumes "distinct (map hunk_id hs)" and "hunk_id ` set hs \<inter> hunk_id ` set os = {}"
  shows "distinct (map hunk_id (claim_ids os claimed hs))
    \<and> hunk_id ` set (claim_ids os claimed hs) \<subseteq> (hunk_id ` set os - set claimed) \<union> hunk_id ` set hs"
  using assms
proof (induction hs arbitrary: claimed)
  case (Cons h hs)
  show ?case
  proof (cases "find_matching_old_hunk h os")
    case None
    with Cons.IH [of claimed] Cons.prems show ?thesis by auto
  next
    case (Some best)
    then have best: "hunk_id best \<in> hunk_id ` set os" by (simp add: find_matching_in)
    show ?thesis
    proof (cases "hunk_id best \<in> set claimed")
      case True
      with Some Cons.IH [of claimed] Cons.prems show ?thesis by auto
    next
      case False
      have "hunk_id best \<notin> hunk_id ` set hs" using best Cons.prems(2) by auto
      with False Some best Cons.IH [of "hunk_id best # claimed"] Cons.prems show ?thesis by auto
    qed
  qed
qed simp

section \<open>What hunks describe\<close>

text \<open>
  What is promised of the differ: it cuts a text into lines, the change list has the lines of the one
  text on its old side and those of the other on its new side, and only some pairs of texts make it
  run out of time.
\<close>

record differ_contract =
  text_lines :: "string \<Rightarrow> string list"
  timed_out :: "(string \<times> string) set"

definition sound_differ :: "differ_contract \<Rightarrow> line_differ \<Rightarrow> bool" where
  "sound_differ D diff \<longleftrightarrow>
     (\<forall>s. concat (text_lines D s) = s) \<and>
     (\<forall>b c. case diff b c of
        None \<Rightarrow> (b, c) \<in> timed_out D
      | Some chs \<Rightarrow> old_side chs = text_lines D b \<and> new_side chs = text_lines D c)"

text \<open>
  Hunks of two lists of lines, the first of which have the numbers \<open>a\<close> and \<open>b\<close>: in front of a hunk the
  lines agree, the hunk says which lines it takes out and which it puts in, at their numbers, and
  behind it there is a common line or nothing. Where no hunk is left the lines agree.
\<close>

fun line_hunks :: "nat \<Rightarrow> nat \<Rightarrow> string list \<Rightarrow> string list \<Rightarrow> hunk_shape list \<Rightarrow> bool" where
  "line_hunks a b olds news [] \<longleftrightarrow> olds = news"
| "line_hunks a b olds news ((li, old, new) # shs) \<longleftrightarrow>
     (let k = old_start li - a;
          out = take (old_count li) (drop k olds);
          put_in = take (new_count li) (drop k news);
          olds' = drop (k + old_count li) olds;
          news' = drop (k + new_count li) news
      in a \<le> old_start li \<and> new_start li = b + k \<and> take k olds = take k news
         \<and> k + old_count li \<le> length olds \<and> k + new_count li \<le> length news
         \<and> 0 < old_count li + new_count li
         \<and> old = (if out = [] then None else Some (concat out)) \<and> new = concat put_in
         \<and> (case shs of [] \<Rightarrow> True | (following, _) # _ \<Rightarrow> old_start li + old_count li < old_start following)
         \<and> line_hunks (old_start li + old_count li) (new_start li + new_count li) olds' news' shs)"

text \<open>
  What the hunks of a file say. Two texts have none only if they agree up to a final newline, are too
  long to be compared, or made the differ run out of time; a new file may have none when git does not
  list it.
\<close>

definition whole_file_hunk :: "nat \<Rightarrow> nat \<Rightarrow> string \<Rightarrow> hunk_line_info" where
  "whole_file_hunk a b content =
     (let n = max (length (str_lines content)) 1
      in \<lparr>old_start = a, old_count = a * n, new_start = b, new_count = b * n\<rparr>)"

fun describes :: "differ_contract \<Rightarrow> file_content \<Rightarrow> file_content \<Rightarrow> hunk_shape list \<Rightarrow> bool" where
  "describes D (Full b) (Full c) shs \<longleftrightarrow>
     line_hunks 1 1 (text_lines D b) (text_lines D c) shs \<or>
     shs = [] \<and> (strip_single_trailing_newline b = strip_single_trailing_newline c
        \<or> MAX_DIFF_FILE_SIZE < length b \<or> MAX_DIFF_FILE_SIZE < length c \<or> (b, c) \<in> timed_out D)"
| "describes D (Full b) Missing shs \<longleftrightarrow> shs = (if b = [] then [] else [(whole_file_hunk 1 0 b, Some b, [])])"
| "describes D Missing (Full c) shs \<longleftrightarrow> shs = [] \<or> c \<noteq> [] \<and> shs = [(whole_file_hunk 0 1 c, None, c)]"
| "describes D _ _ shs \<longleftrightarrow> shs = []"

text \<open>Without a contract nothing is asked of the hunks.\<close>

definition described :: "differ_contract option \<Rightarrow> file_hunk_state \<Rightarrow> bool" where
  "described ct st \<longleftrightarrow>
     (case ct of Some D \<Rightarrow> describes D (baseline st) (current_content st) (map shape (hunks st)) | None \<Rightarrow> True)"

lemma described_none [simp]: "described None st"
  by (simp add: described_def)

definition builder_shape :: "hunk_builder \<Rightarrow> hunk_shape" where
  "builder_shape x = shape (build [] External 0 x)"

lemma one_line_hunk:
  assumes "hb_old_start x = a + length K" and "hb_new_start x = b + length K"
    and "old_lines x \<noteq> [] \<or> new_lines x \<noteq> []"
    and "\<And>y ys. xs = y # ys \<Longrightarrow> hb_old_start x + length (old_lines x) < hb_old_start y"
    and "line_hunks (hb_old_start x + length (old_lines x)) (hb_new_start x + length (new_lines x)) olds news (map builder_shape xs)"
  shows "line_hunks a b (K @ old_lines x @ olds) (K @ new_lines x @ news) (map builder_shape (x # xs))"
proof -
  let ?li = "\<lparr>old_start = hb_old_start x, old_count = length (old_lines x),
    new_start = hb_new_start x, new_count = length (new_lines x)\<rparr>"
  have x: "builder_shape x = (?li, if old_lines x = [] then None else Some (concat (old_lines x)), concat (new_lines x))"
    by (simp add: builder_shape_def shape_def build_def)
  have gap: "case map builder_shape xs of [] \<Rightarrow> True
      | (following, _) # _ \<Rightarrow> old_start ?li + old_count ?li < old_start following"
    using assms(4) by (cases xs) (simp_all add: builder_shape_def shape_def build_def)
  show ?thesis
    unfolding list.map x using assms(3,5) gap unfolding assms(1,2) by (simp add: Let_def)
qed

lemma line_hunks_builders:
  "line_hunks a b (K @ old_side chs) (K @ new_side chs)
     (map builder_shape (builders chs (a + length K) (b + length K) None))"
  "hb_old_start x = a + length K \<Longrightarrow> hb_new_start x = b + length K \<Longrightarrow> old_lines x \<noteq> [] \<or> new_lines x \<noteq> [] \<Longrightarrow>
   line_hunks a b (K @ old_lines x @ old_side chs) (K @ new_lines x @ new_side chs)
     (map builder_shape (builders chs (a + length K + length (old_lines x)) (b + length K + length (new_lines x)) (Some x)))"
proof (induction chs arbitrary: a b K x)
  case Nil
  {
    case 1
    show ?case by (simp add: finished_def)
  next
    case 2
    then show ?case using one_line_hunk [of x a K b "[]" "[]" "[]"] by (simp add: finished_def)
  }
next
  case (Cons c chs)
  note fresh = builder_new_def add_old_line_def add_new_line_def in_progress_def
  {
    case 1
    show ?case
    proof (cases c)
      case (Same l)
      then show ?thesis using Cons.IH(1) [of a b "K @ [l]"] by (simp add: finished_def)
    next
      case (Deleted l)
      then show ?thesis
        using Cons.IH(2) [of "add_old_line l (builder_new (a + length K) (b + length K))" a K b] by (simp add: fresh)
    next
      case (Inserted l)
      then show ?thesis
        using Cons.IH(2) [of "add_new_line l (builder_new (a + length K) (b + length K))" a K b] by (simp add: fresh)
    qed
  next
    case 2
    show ?case
    proof (cases c)
      case (Same l)
      have "line_hunks (hb_old_start x + length (old_lines x)) (hb_new_start x + length (new_lines x))
          (l # old_side chs) (l # new_side chs)
          (map builder_shape (builders chs (a + length K + length (old_lines x) + 1) (b + length K + length (new_lines x) + 1) None))"
        using Cons.IH(1) [of "hb_old_start x + length (old_lines x)" "hb_new_start x + length (new_lines x)" "[l]"] 2
        by simp
      moreover have "hb_old_start x + length (old_lines x) < hb_old_start y"
        if "builders chs (a + length K + length (old_lines x) + 1) (b + length K + length (new_lines x) + 1) None = y # ys" for y ys
        using builders_ascend [of "a + length K + length (old_lines x) + 1" None chs "b + length K + length (new_lines x) + 1"] 2 that
        by simp
      ultimately show ?thesis using one_line_hunk [OF 2] by (simp add: Same finished_def)
    next
      case (Deleted l)
      then show ?thesis using Cons.IH(2) [of "add_old_line l x" a K b] 2 by (simp add: fresh)
    next
      case (Inserted l)
      then show ?thesis using Cons.IH(2) [of "add_new_line l x" a K b] 2 by (simp add: fresh)
    qed
  }
qed

lemma shapes_line_hunks: "line_hunks 1 1 (old_side chs) (new_side chs) (shapes_of chs)"
  using line_hunks_builders(1) [of 1 1 "[]" chs] by (simp add: shapes_of_def builder_shape_def [abs_def])

lemma same_text: "describes D b b []"
  by (cases b) simp_all

lemma described_same: "baseline st = current_content st \<Longrightarrow> hunks st = [] \<Longrightarrow> described ct st"
  by (simp add: described_def same_text split: option.split)

lemma not_text:
  "\<not> is_diffable c \<Longrightarrow> c \<noteq> Missing \<Longrightarrow> describes D b c []"
  "\<not> is_diffable b \<Longrightarrow> \<not> is_diffable c \<Longrightarrow> describes D b c []"
  by (cases b; cases c; simp)+

lemma expected_describes: "sound_differ D diff \<Longrightarrow> describes D b c (map shape (expected_hunks diff i p b c src))"
proof -
  assume "sound_differ D diff"
  then have D: "case diff t u of None \<Rightarrow> (t, u) \<in> timed_out D
      | Some chs \<Rightarrow> old_side chs = text_lines D t \<and> new_side chs = text_lines D u" for t u
    unfolding sound_differ_def by blast
  have "describes D (Full t) (Full u) (map shape (compute_hunks diff i p t u src))" for t u
  proof (cases "diff t u")
    case None
    with D [of t u] show ?thesis by (auto simp: compute_hunks_def)
  next
    case (Some chs)
    with D [of t u] have "old_side chs = text_lines D t" "new_side chs = text_lines D u" by simp_all
    then show ?thesis using Some shapes_line_hunks [of chs] by (auto simp: compute_hunks_def shapes_numbered [simplified])
  qed
  then show ?thesis
    by (cases b; cases c)
      (auto simp: expected_hunks_def shape_def file_created_def file_deleted_def whole_file_hunk_def Let_def)
qed

text \<open>A file with hunks has text on the side that matters.\<close>

lemma described_kinds:
  assumes "described (Some D) st" "hunks st \<noteq> []"
  obtains b c where "baseline st = Full b" "current_content st = Full c"
    | b where "baseline st = Full b" "current_content st = Missing" "length (hunks st) = 1"
    | c where "baseline st = Missing" "current_content st = Full c" "length (hunks st) = 1"
proof -
  have "map shape (hunks st) = [s] \<Longrightarrow> length (hunks st) = 1" for s
    by (metis One_nat_def length_Cons length_map list.size(3))
  with assms that show ?thesis unfolding described_def
    by (cases "baseline st"; cases "current_content st") (auto split: if_splits)
qed

section \<open>Recomputation\<close>

abbreviation books :: "bool \<Rightarrow> tracker \<Rightarrow> bool" where
  "books exact t \<equiv> consistent exact (file_states t) (turn_index t) (next_id t)"

definition all_described :: "differ_contract option \<Rightarrow> tracker \<Rightarrow> bool" where
  "all_described ct t \<longleftrightarrow> (\<forall>p st. lookup p t = Some st \<longrightarrow> described ct st)"

definition others_described :: "differ_contract option \<Rightarrow> fpath \<Rightarrow> tracker \<Rightarrow> bool" where
  "others_described ct p t \<longleftrightarrow> (\<forall>q st. q \<noteq> p \<longrightarrow> lookup q t = Some st \<longrightarrow> described ct st)"

definition honours :: "differ_contract option \<Rightarrow> world \<Rightarrow> bool" where
  "honours ct w \<longleftrightarrow> (case ct of Some D \<Rightarrow> sound_differ D (differ w) | None \<Rightarrow> True)"

lemma recompute_fields:
  assumes "lookup p t = Some st"
    and "n_hunks = claim_ids (hunks st) [] (expected_hunks (differ w) (next_id t) p (baseline st) (case c of Some c \<Rightarrow> c | None \<Rightarrow> Missing) src)"
  shows "file_states (recompute_hunks w p c src t) = AList.update p
      (st\<lparr>current_content := (case c of Some c \<Rightarrow> c | None \<Rightarrow> Missing), hunks := n_hunks\<rparr>) (file_states t)"
    "turn_index (recompute_hunks w p c src t) = fold index_add n_hunks (fold index_remove (hunks st) (turn_index t))"
    "next_id (recompute_hunks w p c src t) = next_id t + length n_hunks"
proof -
  have len: "length n_hunks = length (expected_hunks (differ w) (next_id t) p (baseline st) (case c of Some c \<Rightarrow> c | None \<Rightarrow> Missing) src)"
    using shapes_claimed [of "hunks st" "[]"] unfolding assms(2) by (metis length_map)
  show "file_states (recompute_hunks w p c src t) = AList.update p
      (st\<lparr>current_content := (case c of Some c \<Rightarrow> c | None \<Rightarrow> Missing), hunks := n_hunks\<rparr>) (file_states t)"
    "turn_index (recompute_hunks w p c src t) = fold index_add n_hunks (fold index_remove (hunks st) (turn_index t))"
    using assms by (simp_all add: recompute_hunks_def Let_def send_events_def put_def)
  show "next_id (recompute_hunks w p c src t) = next_id t + length n_hunks"
    unfolding len using assms(1) by (simp add: recompute_hunks_def Let_def send_events_def put_def)
qed

lemma recompute_None [simp]: "lookup p t = None \<Longrightarrow> recompute_hunks w p c src t = t"
  by (simp add: recompute_hunks_def)

lemma recompute_books:
  assumes c: "books ex t"
  shows "books ex (recompute_hunks w p new_c src t)"
proof (cases "lookup p t")
  case (Some st)
  define computed where
    "computed = expected_hunks (differ w) (next_id t) p (baseline st) (case new_c of Some c \<Rightarrow> c | None \<Rightarrow> Missing) src"
  define n_hunks where "n_hunks = claim_ids (hunks st) [] computed"
  note fields = recompute_fields [OF Some n_hunks_def [unfolded computed_def]]
  have at: "hunks_at (file_states t) p = hunks st" using Some by (simp add: hunks_at_def lookup_def)
  have fresh: "hunk_id ` set computed = {next_id t..<next_id t + length computed}" "distinct (map hunk_id computed)"
    using ids_expected [of "differ w" "next_id t" p "baseline st"]
    by (metis atLeastLessThan_upt computed_def list.set_map, metis computed_def distinct_upt)
  have len: "length n_hunks = length computed"
    unfolding n_hunks_def by (metis length_map shapes_claimed)
  have bound: "k < next_id t" if "k \<in> ids_at (file_states t) q \<or> k \<in> set (turn_index t i)" for k q i
    using c that by (auto simp: consistent_def)
  have "hunk_id ` set computed \<inter> hunk_id ` set (hunks st) = {}"
  proof -
    have "k < next_id t" if "k \<in> hunk_id ` set (hunks st)" for k
      using bound [of k p] that by (simp add: ids_at_def at)
    then show ?thesis unfolding fresh(1) by fastforce
  qed
  from ids_claimed [OF fresh(2) this, of "[]"]
  have ids: "distinct (map hunk_id n_hunks)"
    "hunk_id ` set n_hunks \<subseteq> ids_at (file_states t) p \<union> {next_id t..<next_id t + length n_hunks}"
    unfolding len by (simp_all add: n_hunks_def ids_at_def at fresh(1))
  show ?thesis
    unfolding fields
  proof (rule consistent_update [OF c])
    show "distinct (fold index_add n_hunks (fold index_remove (hunks st) (turn_index t)) i)" for i
      using c by (simp add: consistent_def distinct_fold_add distinct_fold_remove)
    show "set (fold index_add n_hunks (fold index_remove (hunks st) (turn_index t)) i) \<subseteq> set (turn_index t i)
        \<union> hunk_id ` set (hunks (st\<lparr>current_content := (case new_c of Some c \<Rightarrow> c | None \<Rightarrow> Missing), hunks := n_hunks\<rparr>))" for i
      by (auto simp: in_fold_add in_fold_remove)
    show "k \<in> set (fold index_add n_hunks (fold index_remove (hunks st) (turn_index t)) i)"
      if "k \<in> set (turn_index t i)" "k \<notin> ids_at (file_states t) p" for i k
      using that by (auto simp: in_fold_add in_fold_remove ids_at_def at)
    show "indexed ex (fold index_add n_hunks (fold index_remove (hunks st) (turn_index t))) h"
      if "h \<in> set (hunks (st\<lparr>current_content := (case new_c of Some c \<Rightarrow> c | None \<Rightarrow> Missing), hunks := n_hunks\<rparr>))" for h
    proof -
      have h: "h \<in> set n_hunks" using that by simp
      have same: "g = h" if "g \<in> set n_hunks" "hunk_id g = hunk_id h" for g
        using ids(1) h that by (auto simp: distinct_map dest: inj_onD)
      have gone: "\<not> (hunk_id h \<in> set (turn_index t i) \<and> \<not> (\<exists>g\<in>set (hunks st). hunk_id g = hunk_id h \<and> hunk_source g = AgentEdit i))" for i
      proof
        assume a: "hunk_id h \<in> set (turn_index t i) \<and> \<not> (\<exists>g\<in>set (hunks st). hunk_id g = hunk_id h \<and> hunk_source g = AgentEdit i)"
        then have "hunk_id h < next_id t" using bound by blast
        then have "hunk_id h \<in> ids_at (file_states t) p" using ids(2) h by auto
        then obtain g where g: "g \<in> set (hunks st)" "hunk_id g = hunk_id h" by (auto simp: ids_at_def at)
        then have "indexed ex (turn_index t) g" using c at unfolding consistent_def by metis
        with a g show False unfolding indexed_def by metis
      qed
      show ?thesis
        unfolding indexed_def in_fold_add in_fold_remove using gone same h by blast
    qed
  qed (use ids in simp_all)
qed (use c in simp)

lemma recompute_described:
  assumes "honours ct w" and "others_described ct p t" and "lookup p t \<noteq> None"
  shows "all_described ct (recompute_hunks w p c src t)"
proof -
  obtain st where st: "lookup p t = Some st" using assms(3) by blast
  have "described ct (st\<lparr>current_content := (case c of Some c \<Rightarrow> c | None \<Rightarrow> Missing),
      hunks := claim_ids (hunks st) [] (expected_hunks (differ w) (next_id t) p (baseline st) (case c of Some c \<Rightarrow> c | None \<Rightarrow> Missing) src)\<rparr>)"
    using expected_describes assms(1) by (simp add: described_def honours_def shapes_claimed split: option.splits)
  then show ?thesis
    using assms(2) recompute_fields(1) [OF st refl, of w c src]
    by (auto simp: all_described_def others_described_def lookup_def update_conv)
qed

lemma others_of_all: "all_described ct t \<Longrightarrow> others_described ct p t"
  by (simp add: all_described_def others_described_def)

lemma recompute_keeps_described:
  assumes "honours ct w" and "all_described ct t"
  shows "all_described ct (recompute_hunks w p c src t)"
  using recompute_described [OF assms(1) others_of_all [OF assms(2)]] assms(2) by (cases "lookup p t") auto

end
