(* ===== verification/Hunk_Runs.thy ===== *)
theory Hunk_Runs
  imports Hunk_Recompute
begin

text \<open>
  Every command keeps the books and leaves hunks that describe their file, as long as the files can be
  written; the runs of the tracker, with snapshots taken and restored on the way.
\<close>

section \<open>Good states\<close>

text \<open>
  Without a contract a good state has sound books; with one they are exact as well, and the hunks
  describe their files.
\<close>

definition good :: "differ_contract option \<Rightarrow> tracker \<Rightarrow> bool" where
  "good ct t \<longleftrightarrow> books (ct \<noteq> None) t \<and> all_described ct t"

named_theorems good_steps \<open>operations that lead from good states to good states\<close>

lemma good_frame [simp]:
  "good ct (send_events es t) \<longleftrightarrow> good ct t"
  "good ct (t\<lparr>git_dirty_cache := a\<rparr>) \<longleftrightarrow> good ct t"
  "good ct (t\<lparr>git_staged_cache := a\<rparr>) \<longleftrightarrow> good ct t"
  "good ct (t\<lparr>repo_sync_state := r\<rparr>) \<longleftrightarrow> good ct t"
  "good ct (t\<lparr>working_dir := d\<rparr>) \<longleftrightarrow> good ct t"
  "good ct (t\<lparr>mode := m\<rparr>) \<longleftrightarrow> good ct t"
  "good ct (t\<lparr>stats := s\<rparr>) \<longleftrightarrow> good ct t"
  "good ct (t\<lparr>disk_ops := d'\<rparr>) \<longleftrightarrow> good ct t"
  by (simp_all add: good_def all_described_def lookup_def send_events_def)

lemma good_recompute [good_steps]: "honours ct w \<Longrightarrow> good ct t \<Longrightarrow> good ct (recompute_hunks w p c src t)"
  by (simp add: good_def recompute_books recompute_keeps_described)

lemma books_put_no_hunks:
  assumes "books ex t" and "hunks st = []"
  shows "books ex (put p st t)"
  using consistent_update [OF assms(1), of "next_id t" st p "turn_index t"] assms
  by (simp add: put_def consistent_def)

lemma books_put_same:
  assumes "books ex t" and "lookup p t = Some st" and "hunks st' = hunks st"
  shows "books ex (put p st' t)"
proof -
  have at: "hunks_at (file_states t) p = hunks st'" using assms(2,3) by (simp add: hunks_at_def lookup_def)
  have "distinct (map hunk_id (hunks_at (file_states t) p))" "\<And>h. h \<in> set (hunks_at (file_states t) p) \<Longrightarrow> indexed ex (turn_index t) h"
    using assms(1) unfolding consistent_def by blast+
  with consistent_update [OF assms(1), of "next_id t" st' p "turn_index t"] assms(1) at show ?thesis
    by (simp add: put_def consistent_def ids_at_def)
qed

lemma good_put_empty:
  "good ct t \<Longrightarrow> hunks st = [] \<Longrightarrow> described ct st \<Longrightarrow> good ct (put p st t)"
  by (simp add: good_def books_put_no_hunks all_described_def)

lemma others_put: "all_described ct t \<Longrightarrow> others_described ct p (send_events es (put p st t))"
  by (simp add: others_described_def all_described_def)

lemma books_send [simp]: "books ex (send_events es t) \<longleftrightarrow> books ex t"
  by (simp add: send_events_def)

lemma good_recompute_set:
  assumes "honours ct w" and "good ct t" and "books (ct \<noteq> None) (put p st t)"
  shows "good ct (recompute_hunks w p c src (send_events es (put p st t)))"
    and "good ct (recompute_hunks w p c src (put p st t))"
  using assms recompute_books [of "ct \<noteq> None" "send_events es (put p st t)" w p c src] recompute_books [OF assms(3), of w p c src]
    recompute_described [OF assms(1), of p "send_events es (put p st t)" c src]
    recompute_described [OF assms(1), of p "send_events [] (put p st t)" c src] others_put [of ct t p _ st]
  by (simp_all add: good_def) (simp add: send_events_def)

lemma good_new_file [good_steps]:
  "honours ct w \<Longrightarrow> good ct t \<Longrightarrow> good ct (recompute_hunks w p c src (send_events es (put p (new_file b cur a) t)))"
  by (intro good_recompute_set(1)) (simp_all add: good_def books_put_no_hunks new_file_def)

section \<open>Dropping hunks\<close>

text \<open>Some hunks of a file are taken out of the index and out of the file.\<close>

lemma books_drop:
  assumes c: "books ex t" and "lookup p t = Some st" and sub: "set hs \<subseteq> set (hunks st)"
    and left: "hunks st' = filter (\<lambda>h. hunk_id h \<notin> hunk_id ` set hs) (hunks st)"
  shows "consistent ex (AList.update p st' (file_states t)) (fold index_remove hs (turn_index t)) (next_id t)"
proof (rule consistent_update [OF c])
  have at: "hunks_at (file_states t) p = hunks st" using assms(2) by (simp add: hunks_at_def lookup_def)
  have "distinct (map hunk_id (hunks st))" using c at unfolding consistent_def by metis
  then show "distinct (map hunk_id (hunks st'))" by (simp add: left distinct_map_filter)
  show "hunk_id ` set (hunks st') \<subseteq> ids_at (file_states t) p \<union> {next_id t..<next_id t}"
    by (auto simp: left ids_at_def at)
  show "distinct (fold index_remove hs (turn_index t) i)" for i
    using c by (simp add: consistent_def distinct_fold_remove)
  show "set (fold index_remove hs (turn_index t) i) \<subseteq> set (turn_index t i) \<union> hunk_id ` set (hunks st')" for i
    by (auto simp: in_fold_remove)
  show "k \<in> set (fold index_remove hs (turn_index t) i)"
    if "k \<in> set (turn_index t i)" "k \<notin> ids_at (file_states t) p" for i k
    using that sub by (auto simp: in_fold_remove ids_at_def at)
  show "indexed ex (fold index_remove hs (turn_index t)) h" if h: "h \<in> set (hunks st')" for h
  proof -
    have "h \<in> set (hunks_at (file_states t) p)" "\<not> (\<exists>g\<in>set hs. hunk_id g = hunk_id h)"
      using h by (auto simp: left at image_iff)
    then have "indexed ex (turn_index t) h" using c unfolding consistent_def by blast
    with \<open>\<not> (\<exists>g\<in>set hs. hunk_id g = hunk_id h)\<close> show ?thesis unfolding indexed_def in_fold_remove by blast
  qed
qed simp

lemma count_fields:
  "file_states (fold (count_action a) hs t) = file_states t"
  "next_id (fold (count_action a) hs t) = next_id t"
  "turn_index (fold (count_action a) hs t) = fold index_remove hs (turn_index t)"
  "disk_ops (fold (count_action a) hs t) = disk_ops t"
  by (induction hs arbitrary: t)
    (simp_all add: count_action_def remove_from_turn_index_def update_session_stats_def Let_def)

lemma lookup_count [simp]: "lookup p (fold (count_action a) hs t) = lookup p t"
  by (simp add: lookup_def count_fields)

lemma accept_hunk_batch: "accept_hunk w p h t = accept_hunks_batch w p [h] t"
  by (simp add: accept_hunk_def accept_hunks_batch_def removed_for_def accept_patches_def by_old_start_desc_def
      split: option.split file_content.split)

lemma one_hunk:
  "removed_for p why [h] = [HunkRemoved p (hunk_id h) why]"
  "reject_patches c (by_new_start_desc [h]) =
     patch_lines c (new_start (line_info h)) (new_count (line_info h)) (case old_text h of Some s \<Rightarrow> s | None \<Rightarrow> [])"
  by (simp_all add: removed_for_def reject_patches_def by_new_start_desc_def)

lemma reject_hunk_batch: "reject_hunk w p h t = reject_hunks_batch w p [h] t"
  unfolding reject_hunk_def reject_hunks_batch_def one_hunk by simp

lemma one_hunk_gone:
  assumes "length (hunks st) = 1" and "hs \<noteq> []" and "set hs \<subseteq> set (hunks st)"
  shows "filter (\<lambda>h. hunk_id h \<notin> hunk_id ` set hs) (hunks st) = []"
proof -
  obtain h where "hunks st = [h]" using assms(1) by (cases "hunks st") auto
  with assms(2,3) show ?thesis by (cases hs) auto
qed

lemma hunks_retained: "hunks (retain_other hs st) = filter (\<lambda>h. hunk_id h \<notin> hunk_id ` set hs) (hunks st)"
  by (simp add: retain_other_def)

lemma texts_retained [simp]:
  "baseline (retain_other hs st) = baseline st" "current_content (retain_other hs st) = current_content st"
  by (simp_all add: retain_other_def)

text \<open>Hunks are taken out of the index and, unless a file cannot be written, out of their file.\<close>

lemma books_count:
  assumes "books False t"
  shows "books False (fold (count_action a) hs t)"
  using assms unfolding consistent_def count_fields
  by (auto simp: indexed_def in_fold_remove distinct_fold_remove)

lemma books_taken_out:
  assumes "books ex t" and "lookup p t = Some st" and "set hs \<subseteq> set (hunks st)" and "hunks st' = hunks st"
  shows "books ex (put p (retain_other hs st') ((fold (count_action a) hs t)\<lparr>disk_ops := ops\<rparr>))"
    and "books ex (put p (retain_other hs st') (fold (count_action a) hs t))"
  using books_drop [OF assms(1-3), of "retain_other hs st'"] assms(4)
  by (simp_all add: put_def count_fields hunks_retained)

lemma described_count: "all_described ct t \<Longrightarrow> all_described ct (fold (count_action a) hs t)"
  by (simp add: all_described_def)

lemma good_taken_out:
  assumes "good ct t" and "lookup p t = Some st" and "hs \<noteq> []" and "set hs \<subseteq> set (hunks st)"
    and "hunks st' = hunks st" and "baseline st' = current_content st'"
    and "ct \<noteq> None \<Longrightarrow> length (hunks st) = 1"
  shows "good ct (put p (retain_other hs st') ((fold (count_action a) hs t)\<lparr>disk_ops := ops\<rparr>))"
    and "good ct (put p (retain_other hs st') (fold (count_action a) hs t))"
proof -
  have "described ct (retain_other hs st')"
  proof (cases ct)
    case (Some D)
    then have "hunks (retain_other hs st') = []"
      using one_hunk_gone [OF _ assms(3,4)] assms(5,7) by (simp add: hunks_retained)
    then show ?thesis using assms(6) by (intro described_same) simp_all
  qed simp
  then show "good ct (put p (retain_other hs st') ((fold (count_action a) hs t)\<lparr>disk_ops := ops\<rparr>))"
    and "good ct (put p (retain_other hs st') (fold (count_action a) hs t))"
    using assms(1) books_taken_out [OF _ assms(2,4,5), of "ct \<noteq> None"]
    by (simp_all add: good_def all_described_def)
qed

lemma good_recompute_taken_out:
  assumes "good ct t" and "honours ct w" and "lookup p t = Some st" and "set hs \<subseteq> set (hunks st)" and "hunks st' = hunks st"
  shows "good ct (recompute_hunks w p c src (send_events es (put p (retain_other hs st') ((fold (count_action a) hs t)\<lparr>disk_ops := ops\<rparr>))))"
    and "good ct (recompute_hunks w p c src (send_events es (put p (retain_other hs st') (fold (count_action a) hs t))))"
proof -
  let ?s = "put p (retain_other hs st') ((fold (count_action a) hs t)\<lparr>disk_ops := ops\<rparr>)"
  let ?t = "put p (retain_other hs st') (fold (count_action a) hs t)"
  have "books (ct \<noteq> None) ?s" "books (ct \<noteq> None) ?t"
    using books_taken_out [OF _ assms(3-5)] assms(1) by (simp_all only: good_def)
  moreover have "others_described ct p (send_events es ?s)" "others_described ct p (send_events es ?t)"
    using assms(1) by (simp_all add: others_described_def good_def all_described_def)
  ultimately show "good ct (recompute_hunks w p c src (send_events es ?s))" "good ct (recompute_hunks w p c src (send_events es ?t))"
    unfolding good_def
    by (intro conjI recompute_books recompute_described assms(2); simp add: send_events_def lookup_def put_def update_conv)+
qed

lemma good_accept_batch:
  assumes "good ct t" and "honours ct w" and st: "lookup p t = Some st"
    and hs: "hs \<noteq> []" "set hs \<subseteq> set (hunks st)"
  shows "good ct (accept_hunks_batch w p hs (fold (count_action a) hs t))"
proof (cases "baseline st = Missing")
  case True
  have "length (hunks st) = 1" if some: "ct \<noteq> None"
  proof -
    obtain D where "ct = Some D" using some by blast
    then have "described (Some D) st" using assms(1) st by (auto simp: good_def all_described_def)
    moreover have "hunks st \<noteq> []" using hs by auto
    ultimately show ?thesis by (cases rule: described_kinds) (use True in simp_all)
  qed
  then have "good ct (put p (retain_other hs (st\<lparr>baseline := current_content st, baseline_accepted := True\<rparr>)) (fold (count_action a) hs t))"
    by (intro good_taken_out(2) [OF assms(1) st hs]) simp_all
  with True st hs(1) show ?thesis by (simp add: accept_hunks_batch_def)
next
  case False
  show ?thesis
    unfolding accept_hunks_batch_def using False st hs(1)
    by (simp add: Let_def good_recompute_taken_out(2) [OF assms(1,2) st hs(2)] del: append.append_Cons)
qed

lemma good_reject_batch:
  assumes "good ct t" and "honours ct w" and st: "lookup p t = Some st"
    and hs: "hs \<noteq> []" "set hs \<subseteq> set (hunks st)"
    and w: "ct \<noteq> None \<Longrightarrow> write_succeeds w p \<and> remove_succeeds w p"
  shows "good ct (snd (reject_hunks_batch w p hs (fold (count_action a) hs t)))"
proof -
  let ?t = "fold (count_action a) hs t"
  have kept: "good ct ?t" if "ct = None"
    using assms(1) that books_count by (simp add: good_def all_described_def)
  have one: "length (hunks st) = 1" if some: "ct \<noteq> None" and m: "baseline st = Missing \<or> current_content st = Missing"
  proof -
    obtain D where "ct = Some D" using some by blast
    then have "described (Some D) st" using assms(1) st by (auto simp: good_def all_described_def)
    moreover have "hunks st \<noteq> []" using hs by auto
    ultimately show ?thesis by (cases rule: described_kinds) (use m in simp_all)
  qed
  have no_text: "ct = None" if "\<not> (\<exists>b. baseline st = Full b) \<and> baseline st \<noteq> Missing \<or> \<not> (\<exists>b. current_content st = Full b) \<and> (current_content st \<noteq> Missing \<or> baseline st = Missing)"
  proof (rule ccontr)
    assume "ct \<noteq> None"
    then obtain D where "ct = Some D" by blast
    then have "described (Some D) st" using assms(1) st by (auto simp: good_def all_described_def)
    moreover have "hunks st \<noteq> []" using hs by auto
    ultimately show False by (cases rule: described_kinds) (use that in simp_all)
  qed
  note out = good_taken_out(1) [OF assms(1) st hs, where a = a] and again = good_recompute_taken_out(1) [OF assms(1,2) st hs(2), where a = a]
  have w1: "write_succeeds w p \<or> ct = None" "remove_succeeds w p \<or> ct = None" using w by blast+
  show ?thesis
  proof (cases "current_content st")
    case (Full c)
    show ?thesis
    proof (cases "baseline st = Missing")
      case True
      have "good ct (put p (retain_other hs (st\<lparr>current_content := Missing\<rparr>)) (?t\<lparr>disk_ops := ops\<rparr>))" for ops
        using True one by (intro out) simp_all
      with True Full st hs(1) w1 kept show ?thesis by (auto simp: reject_hunks_batch_def remove_file_def)
    next
      case False
      have "good ct (recompute_hunks w p cc src (send_events es (put p (retain_other hs (st\<lparr>current_content := d\<rparr>)) (?t\<lparr>disk_ops := ops\<rparr>))))" for cc src es d ops
        by (rule again) simp
      with False Full st hs(1) w1 kept show ?thesis
        by (cases "baseline st") (auto simp: reject_hunks_batch_def write_file_def Let_def)
    qed
  next
    case Missing
    have "good ct (put p (retain_other hs (st\<lparr>current_content := baseline st\<rparr>)) (?t\<lparr>disk_ops := ops\<rparr>))" for ops
      using Missing one by (intro out) simp_all
    with Missing st hs(1) w1 kept no_text show ?thesis
      by (cases "baseline st") (auto simp: reject_hunks_batch_def write_file_def)
  qed (use no_text st hs(1) kept in \<open>simp_all add: reject_hunks_batch_def\<close>)
qed

section \<open>Actions\<close>

lemma lookup_recompute: "q \<noteq> p \<Longrightarrow> lookup q (recompute_hunks w p c src t) = lookup q t"
  by (simp add: recompute_hunks_def Let_def lookup_def put_def send_events_def update_conv split: option.split)

lemma lookup_accept_batch: "q \<noteq> p \<Longrightarrow> lookup q (accept_hunks_batch w p hs t) = lookup q t"
  by (simp add: accept_hunks_batch_def Let_def lookup_recompute split: option.split file_content.split)

lemma lookup_reject_batch: "q \<noteq> p \<Longrightarrow> lookup q (snd (reject_hunks_batch w p hs t)) = lookup q t"
  by (auto simp: reject_hunks_batch_def Let_def lookup_recompute write_file_def remove_file_def
      split: option.split file_content.split sum.split)

text \<open>With a contract in force files can be written and removed.\<close>

definition writable :: "differ_contract option \<Rightarrow> world \<Rightarrow> bool" where
  "writable ct w \<longleftrightarrow> (ct = None \<or> (\<forall>p. write_succeeds w p \<and> remove_succeeds w p))"

definition batch_of :: "tracker \<Rightarrow> (fpath \<times> hunk list) list \<Rightarrow> bool" where
  "batch_of t files \<longleftrightarrow> distinct (map fst files) \<and>
     (\<forall>(p, hs)\<in>set files. hs \<noteq> [] \<and> (\<exists>st. lookup p t = Some st \<and> set hs \<subseteq> set (hunks st)))"

lemma good_batch:
  assumes "good ct t" and "honours ct w" and "writable ct w" and "batch_of t files"
  shows "good ct (snd (apply_action_batch w a files affected t))"
  using assms
proof (induction files arbitrary: affected t)
  case (Cons f files)
  obtain p hs where f: "f = (p, hs)" by (cases f)
  with Cons.prems obtain st where st: "lookup p t = Some st" "hs \<noteq> []" "set hs \<subseteq> set (hunks st)"
    by (auto simp: batch_of_def)
  have d: "p \<notin> fst ` set files" "distinct (map fst files)" using Cons.prems(4) f by (simp_all add: batch_of_def)
  have rest: "batch_of t' files" if same: "\<And>q. q \<noteq> p \<Longrightarrow> lookup q t' = lookup q t" for t'
  proof -
    have "ks \<noteq> [] \<and> (\<exists>st. lookup q t' = Some st \<and> set ks \<subseteq> set (hunks st))" if m: "(q, ks) \<in> set files" for q ks
    proof -
      have "q \<noteq> p" using d(1) m by force
      moreover have "ks \<noteq> [] \<and> (\<exists>st. lookup q t = Some st \<and> set ks \<subseteq> set (hunks st))"
        using Cons.prems(4) m by (auto simp: batch_of_def)
      ultimately show ?thesis using same [of q] by simp
    qed
    then show ?thesis using d(2) by (auto simp: batch_of_def)
  qed
  let ?t = "fold (count_action a) hs t"
  show ?case
  proof (cases a)
    case Accept
    let ?next = "accept_hunks_batch w p hs ?t"
    have "good ct ?next" by (rule good_accept_batch [OF Cons.prems(1,2) st])
    moreover have "batch_of ?next files" by (rule rest) (simp add: lookup_accept_batch)
    ultimately show ?thesis
      using Cons.IH [of ?next "affected @ map hunk_id hs"] Cons.prems Accept f by simp
  next
    case Reject
    let ?next = "snd (reject_hunks_batch w p hs ?t)"
    have "good ct ?next" using Cons.prems(3) by (intro good_reject_batch [OF Cons.prems(1,2) st]) (auto simp: writable_def)
    moreover have "batch_of ?next files" by (rule rest) (use lookup_reject_batch in \<open>metis lookup_count\<close>)
    ultimately show ?thesis
      using Cons.IH [of ?next "affected @ map hunk_id hs"] Cons.prems Reject f by (auto split: prod.split sum.split)
  qed
qed simp

lemma lookup_member: "good ct t \<Longrightarrow> lookup p t = Some st \<longleftrightarrow> (p, st) \<in> set (file_states t)"
  by (simp add: good_def consistent_def lookup_def)

lemma good_keys: "good ct t \<Longrightarrow> distinct (map fst (file_states t))"
  by (simp add: good_def consistent_def)

lemma batch_of_files:
  assumes "good ct t" and "\<And>st. set (pick st) \<subseteq> set (hunks st)"
  shows "batch_of t (filter (\<lambda>(p, hs). hs \<noteq> []) (map (\<lambda>(p, st). (p, pick st)) (file_states t)))"
proof -
  have "map fst (map (\<lambda>(p, st). (p, pick st)) (file_states t)) = map fst (file_states t)" by auto
  then have "distinct (map fst (filter (\<lambda>(p, hs). hs \<noteq> []) (map (\<lambda>(p, st). (p, pick st)) (file_states t))))"
    using good_keys [OF assms(1)] distinct_map_filter by metis
  then show ?thesis
    using assms(2) unfolding batch_of_def lookup_member [OF assms(1)] by auto
qed

lemma all_action_files:
  "map (\<lambda>(p, st). (p, hunks st)) (filter (\<lambda>(p, st). hunks st \<noteq> []) fs) =
     filter (\<lambda>(p, hs). hs \<noteq> []) (map (\<lambda>(p, st). (p, hunks st)) fs)"
  by (induction fs) auto

lemma good_file_action: "good ct t \<Longrightarrow> honours ct w \<Longrightarrow> writable ct w \<Longrightarrow> good ct (snd (apply_file_action w p a t))"
  by (auto simp: apply_file_action_def batch_of_def intro!: good_batch split: option.split simp del: apply_action_batch.simps)

lemma good_all_action: "good ct t \<Longrightarrow> honours ct w \<Longrightarrow> writable ct w \<Longrightarrow> good ct (snd (apply_all_action w a t))"
  using good_batch batch_of_files [of ct t hunks] by (simp add: apply_all_action_def Let_def all_action_files)

lemma good_turn_action:
  assumes "good ct t" and "honours ct w" and "writable ct w"
  shows "good ct (snd (apply_turn_action w i a t))"
proof -
  define of_turn :: "file_hunk_state \<Rightarrow> hunk list" where "of_turn st = filter (\<lambda>h. prompt_index (hunk_source h) = Some i) (hunks st)" for st
  define files where "files = filter (\<lambda>(p, hs). hs \<noteq> []) (map (\<lambda>(p, st). (p, of_turn st)) (file_states t))"
  have "batch_of t files" unfolding files_def by (rule batch_of_files [OF assms(1)]) (auto simp: of_turn_def)
  from good_batch [OF assms this] have "good ct (snd (if files = [] then (Inr [], t) else apply_action_batch w a files [] t))"
    using assms(1) by simp
  then show ?thesis by (simp only: apply_turn_action_def Let_def files_def of_turn_def)
qed

lemma find_hunk_at:
  assumes "find_hunk i t = Some (p, h)" and "good ct t"
  shows "\<exists>st. lookup p t = Some st \<and> h \<in> set (hunks st) \<and> hunk_id h = i"
proof -
  let ?f = "\<lambda>(p, st). map_option (Pair p) (List.find (\<lambda>h. hunk_id h = i) (hunks st))"
  obtain rest where "List.map_filter ?f (file_states t) = (p, h) # rest"
    using assms(1) unfolding find_hunk_def by (cases "List.map_filter ?f (file_states t)") simp_all
  then have "(p, h) \<in> set (List.map_filter ?f (file_states t))" by simp
  then have "Some (p, h) \<in> ?f ` set (file_states t)" unfolding List.map_filter_def by force
  then obtain q st where x: "(q, st) \<in> set (file_states t)" "?f (q, st) = Some (p, h)" by (auto simp del: map_option_eq_Some)
  from x(2) have "q = p" "List.find (\<lambda>h. hunk_id h = i) (hunks st) = Some h" by auto
  with x(1) show ?thesis using find_SomeD [of "\<lambda>h. hunk_id h = i" "hunks st" h] lookup_member [OF assms(2), of p st] by simp
qed

lemma good_hunk_action:
  assumes "good ct t" and "honours ct w" and "writable ct w"
  shows "good ct (snd (apply_hunk_action w i a t))"
proof (cases "find_hunk i t")
  case (Some ph)
  obtain p h where ph: "ph = (p, h)" by (cases ph)
  then obtain st where st: "lookup p t = Some st" "h \<in> set (hunks st)" using find_hunk_at Some assms(1) by blast
  have "good ct (accept_hunks_batch w p [h] (fold (count_action a) [h] t))"
    using st(2) by (intro good_accept_batch [OF assms(1,2) st(1)]) simp_all
  moreover have "good ct (snd (reject_hunks_batch w p [h] (fold (count_action a) [h] t)))"
    using st(2) assms(3) by (intro good_reject_batch [OF assms(1,2) st(1)]) (auto simp: writable_def)
  ultimately show ?thesis
    using Some ph by (cases a) (auto simp: apply_hunk_action_def accept_hunk_batch reject_hunk_batch)
qed (simp add: apply_hunk_action_def assms(1))

section \<open>Changes\<close>

lemma good_put_same: "good ct t \<Longrightarrow> lookup p t = Some st \<Longrightarrow> hunks st' = hunks st \<Longrightarrow> baseline st' = baseline st
    \<Longrightarrow> current_content st' = current_content st \<Longrightarrow> good ct (put p st' t)"
  using books_put_same [of "ct \<noteq> None" t p st st'] by (cases ct) (auto simp: good_def all_described_def described_def)

lemma string_not_missing: "classify_string s \<noteq> Missing"
  by (simp add: classify_string_def)

lemma good_record: "good ct t \<Longrightarrow> honours ct w \<Longrightarrow> good ct (record_agent_write w p s i prev t)"
proof -
  assume t: "good ct t" "honours ct w"
  have known: "good ct (recompute_hunks w p c src (put p (st\<lparr>is_agent_file := True\<rparr>) t))" if "lookup p t = Some st" for st c src
    using good_put_same [OF t(1) that] by (intro good_recompute t(2)) simp
  have plain: "good ct (put p st t)" if "\<not> is_diffable (classify_string s)" "current_content st = classify_string s" "hunks st = []" for st
    using that string_not_missing
    by (intro good_put_empty t(1)) (simp_all add: described_def not_text(1) split: option.split)
  show ?thesis
  proof (cases "is_diffable (classify_string s)")
    case True
    then show ?thesis
      using t known by (auto simp: record_agent_write_def Let_def split: option.split intro!: good_new_file)
  next
    case False
    then show ?thesis
      using plain by (simp add: record_agent_write_def Let_def new_file_def split: option.split)
  qed
qed

lemma good_change:
  assumes "good ct t" and "honours ct w"
  shows "good ct (process_file_change w p pre t)"
proof -
  have "good ct (put p (new_file b c a) t)" if "\<not> is_diffable b" "\<not> is_diffable c" for b c a
    using that assms(1)
    by (intro good_put_empty) (simp_all add: new_file_def described_def not_text(2) split: option.split)
  moreover have "good ct (put p (st\<lparr>baseline := b, current_content := b, baseline_accepted := False, hunks := []\<rparr>) t)" for st b
    using assms(1) by (intro good_put_empty described_same) simp_all
  ultimately show ?thesis
    using assms by (auto simp: process_file_change_def Let_def split: option.split intro!: good_recompute good_new_file)
qed

lemma good_deleted: "good ct t \<Longrightarrow> honours ct w \<Longrightarrow> good ct (handle_file_deleted w p t)"
  by (auto simp: handle_file_deleted_def handle_file_change_def good_change split: option.split intro!: good_steps)

lemma good_fold: "(\<And>x t. good ct t \<Longrightarrow> good ct (f x t)) \<Longrightarrow> good ct t \<Longrightarrow> good ct (fold f xs t)"
  by (induction xs arbitrary: t) auto

lemma good_changes: "good ct t \<Longrightarrow> honours ct w \<Longrightarrow> good ct (process_changes w ps bs t)"
  by (induction ps arbitrary: bs t) (simp_all add: good_change)

lemma good_git_status: "good ct t \<Longrightarrow> honours ct w \<Longrightarrow> good ct (refresh_git_dirty_cache w scope t)"
  by (auto simp: refresh_git_dirty_cache_def Let_def handle_file_change_def split: option.split
      intro!: good_fold good_change)

lemma lookup_drop [simp]: "lookup q (drop_from_index hs t) = lookup q t"
  by (simp add: drop_from_index_def)

lemma lookup_stop: "lookup q (stop_tracking p st t) = (if q = p then None else lookup q t)"
  by (simp add: stop_tracking_def drop_from_index_def send_events_def lookup_def delete_conv)

lemma good_stop:
  assumes "books (ct \<noteq> None) t" and "others_described ct p t" and "lookup p t = Some st"
  shows "good ct (stop_tracking p st t)"
proof -
  have "books (ct \<noteq> None) (stop_tracking p st t)"
    using consistent_delete [OF assms(1), of p st] assms(3)
    by (simp add: stop_tracking_def send_events_def drop_from_index_def lookup_def)
  then show ?thesis
    using assms(2) by (simp add: good_def all_described_def others_described_def lookup_stop)
qed

lemma good_clear:
  assumes "books (ct \<noteq> None) t" and "others_described ct p t" and "lookup p t = Some st" and "hunks st' = []"
    and "described ct st'"
  shows "good ct (drop_from_index (hunks st) (put p st' t))"
proof -
  have "books (ct \<noteq> None) (drop_from_index (hunks st) (put p st' t))"
    using books_drop [OF assms(1,3), of "hunks st" st'] assms(4)
    by (simp add: drop_from_index_def put_def)
  then show ?thesis
    using assms(2,5) by (simp add: good_def all_described_def others_described_def)
qed

lemma good_reset: "good ct t \<Longrightarrow> good ct (reset_baseline p t)"
  using good_clear [of ct t p st "st\<lparr>baseline := current_content st, baseline_accepted := False, hunks := []\<rparr>" for st]
    described_same [of "st\<lparr>baseline := current_content st, baseline_accepted := False, hunks := []\<rparr>" ct for st]
  by (auto simp: reset_baseline_def good_def others_of_all send_events_def all_described_def lookup_def split: option.split)

lemma clean_describes: "is_clean b c dirty exists \<Longrightarrow> describes D b c []"
  by (cases b; cases c) simp_all

lemma good_refresh_file:
  assumes "good ct t" and "honours ct w"
  shows "good ct (refresh_file w p t)"
proof (cases "lookup p t")
  case (Some st0)
  define st where "st = st0\<lparr>baseline := read_baseline w p, current_content := on_disk w p, baseline_accepted := False\<rparr>"
  have t: "books (ct \<noteq> None) t" "all_described ct t" using assms(1) by (simp_all add: good_def)
  have "hunks st = hunks st0" by (simp add: st_def)
  then have b: "books (ct \<noteq> None) (put p st t)" by (rule books_put_same [OF t(1) Some])
  have o: "others_described ct p (put p st t)" using t(2) by (simp add: others_described_def all_described_def)
  have st: "lookup p (put p st t) = Some st" by simp
  have "good ct (stop_tracking p st (put p st t))" by (rule good_stop [OF b o st])
  moreover have "good ct (drop_from_index (hunks st) (put p (st\<lparr>hunks := []\<rparr>) (put p st t)))"
    if "is_clean (baseline st) (current_content st) dirty exists" for dirty exists
    using clean_describes [OF that]
    by (intro good_clear [OF b o st]) (simp_all add: described_def split: option.split)
  moreover have "good ct (recompute_hunks w p c src (put p st t))" for c src
    using recompute_books [OF b] recompute_described [OF assms(2) o] by (simp add: good_def)
  ultimately show ?thesis
    using Some by (simp add: refresh_file_def Let_def st_def)
qed (simp add: refresh_file_def assms(1))

lemma good_refresh_all: "good ct t \<Longrightarrow> honours ct w \<Longrightarrow> good ct (refresh_all_baselines_except w skip t)"
  by (auto simp: refresh_all_baselines_except_def refresh_caches_def Let_def split: option.split tracking_mode.split
      intro!: good_fold good_refresh_file good_git_status)

lemma good_stop_all:
  "good ct t \<Longrightarrow> distinct (map fst ps) \<Longrightarrow> \<forall>(p, st)\<in>set ps. lookup p t = Some st
     \<Longrightarrow> good ct (fold (\<lambda>(p, st). stop_tracking p st) ps t)"
proof (induction ps arbitrary: t)
  case (Cons x ps)
  obtain p st where x: "x = (p, st)" by (cases x)
  have "good ct (stop_tracking p st t)"
    using Cons.prems x good_stop [of ct t p st] by (simp add: good_def others_of_all)
  moreover have "\<forall>(q, st')\<in>set ps. lookup q (stop_tracking p st t) = Some st'"
    using Cons.prems x by (force simp: lookup_stop)
  ultimately show ?case using Cons.IH Cons.prems x by simp
qed simp

lemma good_set_mode:
  assumes "good ct t" and "honours ct w"
  shows "good ct (set_mode w m t)"
proof -
  let ?ps = "filter (\<lambda>(p, st). \<not> is_agent_file st) (file_states t)"
  have "distinct (map fst ?ps)" by (rule distinct_map_filter [OF good_keys [OF assms(1)]])
  moreover have "\<forall>(p, st)\<in>set ?ps. lookup p (t\<lparr>mode := m\<rparr>) = Some st"
    using lookup_member [OF assms(1)] by (auto simp: lookup_def)
  ultimately have "good ct (fold (\<lambda>(p, st). stop_tracking p st) ?ps (t\<lparr>mode := m\<rparr>))"
    using good_stop_all [of ct "t\<lparr>mode := m\<rparr>"] assms(1) by simp
  then show ?thesis using assms by (auto simp: set_mode_def Let_def good_git_status)
qed

end
