(* ===== verification/Hunk_Moves.thy ===== *)
theory Hunk_Moves
  imports Hunk_Runs
begin

text \<open>
  Files that move: snapshots rewritten for another place and the change of the working directory. The
  books depend only on which hunks wait, by identifier and author, wherever they are; so they survive
  a move even when two files come to lie under one path and their hunks are thrown together.
\<close>

section \<open>All waiting hunks\<close>

definition hunk_key :: "hunk \<Rightarrow> nat \<times> hunk_source" where
  "hunk_key h = (hunk_id h, hunk_source h)"

definition pool :: "file_map \<Rightarrow> hunk list" where
  "pool fs = concat (map (\<lambda>(p, st). hunks st) fs)"

lemma pool_simps [simp]: "pool [] = []" "pool ((p, st) # fs) = hunks st @ pool fs" "pool (fs @ gs) = pool fs @ pool gs"
  by (simp_all add: pool_def)

definition hunk_ids :: "file_hunk_state \<Rightarrow> nat set" where
  "hunk_ids st = set (map hunk_id (hunks st))"

lemma distinct_live:
  assumes "distinct (map fst fs)"
    and "\<And>p st. (p, st) \<in> set fs \<Longrightarrow> distinct (map hunk_id (hunks st))"
    and "\<And>p q st st'. (p, st) \<in> set fs \<Longrightarrow> (q, st') \<in> set fs \<Longrightarrow> p \<noteq> q \<Longrightarrow> hunk_ids st \<inter> hunk_ids st' = {}"
  shows "distinct (map hunk_id (pool fs))"
  using assms
proof (induction fs)
  case (Cons x fs)
  obtain p st where x: "x = (p, st)" by (cases x)
  have "hunk_ids st \<inter> hunk_ids st' = {}" if "(q, st') \<in> set fs" for q st'
  proof -
    have "p \<noteq> q" using Cons.prems(1) x that by force
    then show ?thesis using Cons.prems(3) [of p st q st'] x that by simp
  qed
  moreover have "set (map hunk_id (pool fs)) = (\<Union>(q, st')\<in>set fs. hunk_ids st')"
    by (auto simp: hunk_ids_def pool_def)
  ultimately have "hunk_ids st \<inter> set (map hunk_id (pool fs)) = {}" by blast
  moreover have "distinct (map hunk_id (pool fs))"
  proof (rule Cons.IH)
    show "distinct (map fst fs)" using Cons.prems(1) by simp
    show "distinct (map hunk_id (hunks st'))" if "(q, st') \<in> set fs" for q st'
      using Cons.prems(2) [of q st'] that by simp
    show "hunk_ids st' \<inter> hunk_ids st'' = {}" if "(q, st') \<in> set fs" "(r, st'') \<in> set fs" "q \<noteq> r" for q r st' st''
      using Cons.prems(3) [of q st' r st''] that by simp
  qed
  moreover have "distinct (map hunk_id (hunks st))" using Cons.prems(2) [of p st] x by simp
  ultimately show ?case using x by (simp add: hunk_ids_def)
qed simp

lemma pool_parts:
  assumes "distinct (map hunk_id (pool fs))"
  shows "(p, st) \<in> set fs \<Longrightarrow> distinct (map hunk_id (hunks st))"
    and "(p, st) \<in> set fs \<Longrightarrow> (q, st') \<in> set fs \<Longrightarrow> p \<noteq> q \<Longrightarrow> hunk_ids st \<inter> hunk_ids st' = {}"
proof -
  have sub: "hunk_ids st \<subseteq> set (map hunk_id (pool gs))" if "(p, st) \<in> set gs" for p st gs
    using that by (auto simp: pool_def hunk_ids_def)
  have "((p, st) \<in> set fs \<longrightarrow> distinct (map hunk_id (hunks st))) \<and>
      ((p, st) \<in> set fs \<longrightarrow> (q, st') \<in> set fs \<longrightarrow> p \<noteq> q \<longrightarrow> hunk_ids st \<inter> hunk_ids st' = {})"
    using assms
  proof (induction fs)
    case (Cons x fs)
    obtain r sr where x: "x = (r, sr)" by (cases x)
    with Cons.prems have "distinct (map hunk_id (hunks sr))" "distinct (map hunk_id (pool fs))"
      "hunk_ids sr \<inter> set (map hunk_id (pool fs)) = {}"
      by (auto simp: hunk_ids_def)
    with Cons.IH x sub [of p st fs] sub [of q st' fs] show ?case by auto
  qed simp
  then show "(p, st) \<in> set fs \<Longrightarrow> distinct (map hunk_id (hunks st))"
    and "(p, st) \<in> set fs \<Longrightarrow> (q, st') \<in> set fs \<Longrightarrow> p \<noteq> q \<Longrightarrow> hunk_ids st \<inter> hunk_ids st' = {}" by blast+
qed

lemma pool_member: "distinct (map fst fs) \<Longrightarrow> h \<in> set (pool fs) \<longleftrightarrow> (\<exists>p. h \<in> set (hunks_at fs p))"
  unfolding pool_def by (rule live_iff)

lemma consistent_pool:
  "consistent ex fs ix n \<longleftrightarrow>
     distinct (map fst fs) \<and> distinct (map hunk_id (pool fs))
     \<and> (\<forall>h\<in>set (pool fs). hunk_id h < n \<and> indexed ex ix h)
     \<and> (\<forall>i. distinct (ix i) \<and> (\<forall>k\<in>set (ix i). k < n))" (is "?l \<longleftrightarrow> ?r")
proof (cases "distinct (map fst fs)")
  case True
  have at: "hunks_at fs p = hunks st" if "(p, st) \<in> set fs" for p st
    using that True by (simp add: hunks_at_def)
  show ?thesis
  proof
    assume c: ?l
    have "distinct (map hunk_id (pool fs))"
    proof (rule distinct_live [OF True])
      show "distinct (map hunk_id (hunks st))" if "(p, st) \<in> set fs" for p st
        using c at [OF that] unfolding consistent_def by metis
      show "hunk_ids st \<inter> hunk_ids st' = {}" if "(p, st) \<in> set fs" "(q, st') \<in> set fs" "p \<noteq> q" for p q st st'
      proof -
        have "ids_at fs p \<inter> ids_at fs q = {}" using c that(3) by (simp add: consistent_def)
        then show ?thesis using at that by (simp add: ids_at_def hunk_ids_def)
      qed
    qed
    moreover have "hunk_id h < n \<and> indexed ex ix h" if h: "h \<in> set (pool fs)" for h
    proof -
      obtain p where "h \<in> set (hunks_at fs p)" using h unfolding pool_member [OF True] by blast
      moreover from this have "hunk_id h \<in> ids_at fs p" by (simp add: ids_at_def)
      ultimately show ?thesis using c unfolding consistent_def by blast
    qed
    moreover have "\<forall>i. distinct (ix i) \<and> (\<forall>k\<in>set (ix i). k < n)" using c unfolding consistent_def by blast
    ultimately show ?r using True by blast
  next
    assume r: ?r
    then have d: "distinct (map hunk_id (pool fs))" by simp
    have files: "hunks_at fs p = [] \<or> (\<exists>st. (p, st) \<in> set fs \<and> hunks_at fs p = hunks st)" for p
    proof (cases "map_of fs p")
      case (Some st)
      then show ?thesis using map_of_SomeD [OF Some] by (simp add: hunks_at_def) blast
    qed (simp add: hunks_at_def)
    have "distinct (map hunk_id (hunks_at fs p))" for p using files [of p] pool_parts(1) [OF d] by auto
    moreover have "ids_at fs p \<inter> ids_at fs q = {}" if "p \<noteq> q" for p q
      using files [of p] files [of q] pool_parts(2) [OF d _ _ that] by (fastforce simp: ids_at_def hunk_ids_def)
    moreover have "hunk_id h < n \<and> indexed ex ix h" if "h \<in> set (hunks_at fs p)" for p h
      using r that pool_member [OF True] by blast
    moreover from this have "\<forall>p. \<forall>k\<in>ids_at fs p. k < n" by (auto simp: ids_at_def)
    ultimately show ?l using r unfolding consistent_def by blast
  qed
qed (simp add: consistent_def)

text \<open>The books of some of the hunks, wherever they have moved.\<close>

definition pool_keys :: "file_map \<Rightarrow> (nat \<times> hunk_source) multiset" where
  "pool_keys fs = mset (map hunk_key (pool fs))"

lemma distinct_sub_mset:
  assumes "distinct xs" and "mset ys \<subseteq># mset xs"
  shows "distinct ys"
proof -
  have "count (mset ys) a = (if a \<in> set ys then 1 else 0)" for a
  proof (cases "a \<in> set ys")
    case True
    then have "0 < count (mset ys) a" by simp
    moreover have "count (mset xs) a \<le> 1" using assms(1) by (simp add: distinct_count_atmost_1)
    ultimately have "count (mset ys) a = 1" using mset_subset_eq_count [OF assms(2), of a] by linarith
    then show ?thesis using True by simp
  qed simp
  then show ?thesis by (simp add: distinct_count_atmost_1)
qed

lemma consistent_moved:
  assumes c: "consistent ex fs ix n" and d: "distinct (map fst fs')" and sub: "pool_keys fs' \<subseteq># pool_keys fs"
  shows "consistent ex fs' ix n"
proof -
  have key: "fst \<circ> hunk_key = hunk_id" by (auto simp: hunk_key_def)
  have "image_mset fst (pool_keys fs') \<subseteq># image_mset fst (pool_keys fs)" by (rule image_mset_subseteq_mono [OF sub])
  then have "mset (map hunk_id (pool fs')) \<subseteq># mset (map hunk_id (pool fs))"
    by (simp add: pool_keys_def multiset.map_comp key)
  moreover have "distinct (map hunk_id (pool fs))" using c unfolding consistent_pool by blast
  ultimately have "distinct (map hunk_id (pool fs'))" by (rule distinct_sub_mset [rotated])
  moreover have "hunk_id h < n \<and> indexed ex ix h" if "h \<in> set (pool fs')" for h
  proof -
    have "hunk_key h \<in># pool_keys fs" using mset_subset_eqD [OF sub] that by (auto simp: pool_keys_def)
    then have "hunk_key h \<in> hunk_key ` set (pool fs)" by (simp add: pool_keys_def)
    then obtain g where g: "g \<in> set (pool fs)" and key: "hunk_key g = hunk_key h" by (metis imageE)
    from g have "hunk_id g < n \<and> indexed ex ix g" using c unfolding consistent_pool by blast
    moreover have "hunk_id g = hunk_id h" "hunk_source g = hunk_source h" using key by (simp_all add: hunk_key_def)
    ultimately show ?thesis unfolding indexed_def by metis
  qed
  ultimately show ?thesis using c d unfolding consistent_pool by blast
qed

lemma consistent_mono: "consistent ex fs ix n \<Longrightarrow> n \<le> n' \<Longrightarrow> consistent ex fs ix n'"
  unfolding consistent_def by (meson less_le_trans)

lemma at_path_hunk: "hunk_key (h\<lparr>hunk_path := p\<rparr>) = hunk_key h" "shape (h\<lparr>hunk_path := p\<rparr>) = shape h"
  by (simp_all add: hunk_key_def shape_def)

lemma at_path_fields [simp]:
  "map hunk_key (hunks (at_path p st)) = map hunk_key (hunks st)"
  "described ct (at_path p st) = described ct st"
proof -
  have "map hunk_key (map (\<lambda>h. h\<lparr>hunk_path := p\<rparr>) hs) = map hunk_key hs"
    "map shape (map (\<lambda>h. h\<lparr>hunk_path := p\<rparr>) hs) = map shape hs" for hs
    by (induction hs) (simp_all add: at_path_hunk)
  moreover have "hunks (at_path p st) = map (\<lambda>h. h\<lparr>hunk_path := p\<rparr>) (hunks st)"
    "baseline (at_path p st) = baseline st" "current_content (at_path p st) = current_content st"
    by (simp_all add: at_path_def)
  ultimately show "map hunk_key (hunks (at_path p st)) = map hunk_key (hunks st)"
    "described ct (at_path p st) = described ct st" by (simp_all only: described_def)
qed

lemma keys_simps [simp]:
  "pool_keys [] = {#}" "pool_keys ((p, st) # fs) = mset (map hunk_key (hunks st)) + pool_keys fs"
  "pool_keys (fs @ gs) = pool_keys fs + pool_keys gs"
  by (simp_all add: pool_keys_def)

lemma keys_update: "pool_keys (AList.update k v fs) \<subseteq># pool_keys fs + mset (map hunk_key (hunks v))"
proof (induction fs)
  case (Cons x fs)
  then show ?case by (cases x) (auto simp: ac_simps)
qed simp

lemma keys_replace:
  "map_of fs k = Some st \<Longrightarrow>
     pool_keys (AList.update k v fs) + mset (map hunk_key (hunks st)) = pool_keys fs + mset (map hunk_key (hunks v))"
  by (induction fs) (auto simp: ac_simps)

lemma keys_merge: "pool_keys (merge_rekeyed k v fs) \<subseteq># pool_keys fs + mset (map hunk_key (hunks v))"
proof (cases "map_of fs k")
  case None
  then show ?thesis using keys_update [of k v fs] by (simp add: merge_rekeyed_def)
next
  case (Some dest)
  let ?v = "dest\<lparr>hunks := hunks dest @ hunks v, is_agent_file := is_agent_file dest \<or> is_agent_file v,
    baseline_accepted := baseline_accepted dest \<or> baseline_accepted v\<rparr>"
  have "pool_keys (AList.update k ?v fs) + mset (map hunk_key (hunks dest)) =
      (pool_keys fs + mset (map hunk_key (hunks v))) + mset (map hunk_key (hunks dest))"
    using keys_replace [OF Some, of ?v] by (simp add: ac_simps)
  with Some show ?thesis by (simp add: merge_rekeyed_def)
qed

lemma keys_fold:
  assumes "\<And>k v fs. pool_keys (add k v fs) \<subseteq># pool_keys fs + mset (map hunk_key (hunks v))"
  shows "pool_keys (fold (\<lambda>(p, st). add (f p) (at_path (f p) st)) xs acc) \<subseteq># pool_keys acc + pool_keys xs"
proof (induction xs arbitrary: acc)
  case (Cons x xs)
  obtain p st where x: "x = (p, st)" by (cases x)
  have "pool_keys (fold (\<lambda>(p, st). add (f p) (at_path (f p) st)) xs (add (f p) (at_path (f p) st) acc))
      \<subseteq># pool_keys (add (f p) (at_path (f p) st) acc) + pool_keys xs" by (rule Cons.IH)
  also have "\<dots> \<subseteq># (pool_keys acc + mset (map hunk_key (hunks st))) + pool_keys xs"
    using assms [of "f p" "at_path (f p) st" acc] by (intro subset_mset.add_right_mono) simp
  finally show ?case using x by (simp add: ac_simps)
qed simp

definition files_described :: "differ_contract option \<Rightarrow> file_map \<Rightarrow> bool" where
  "files_described ct fs \<longleftrightarrow> (\<forall>(p, st)\<in>set fs. described ct st)"

lemma good_iff: "good ct t \<longleftrightarrow> books (ct \<noteq> None) t \<and> files_described ct (file_states t)"
proof -
  have "all_described ct t \<longleftrightarrow> files_described ct (file_states t)" if "books (ct \<noteq> None) t"
  proof -
    have "distinct (map fst (file_states t))" using that by (simp add: consistent_def)
    then show ?thesis by (force simp: all_described_def files_described_def lookup_def)
  qed
  then show ?thesis by (auto simp: good_def)
qed

section \<open>Snapshots\<close>

definition snapshot_good :: "differ_contract option \<Rightarrow> snapshot \<Rightarrow> bool" where
  "snapshot_good ct s \<longleftrightarrow> consistent (ct \<noteq> None) (snap_files s) (snap_index s) (snap_next s) \<and> files_described ct (snap_files s)"

lemma good_take: "good ct t \<Longrightarrow> snapshot_good ct (take_snapshot t)"
  by (simp add: good_iff snapshot_good_def take_snapshot_def)

lemma good_restore: "snapshot_good ct s \<Longrightarrow> good ct (restore_snapshot s t)"
  using consistent_mono [OF _ max.cobounded2] by (simp add: good_iff snapshot_good_def restore_snapshot_def)

lemma updates_from:
  assumes "map_of (fold (\<lambda>(p, st). AList.update (f p) (g p st)) xs acc) q = Some st'"
  shows "(\<exists>p st. (p, st) \<in> set xs \<and> f p = q \<and> st' = g p st) \<or> map_of acc q = Some st'"
  using assms
proof (induction xs arbitrary: acc)
  case (Cons x xs)
  obtain p st where x: "x = (p, st)" by (cases x)
  with Cons.prems have "map_of (fold (\<lambda>(p, st). AList.update (f p) (g p st)) xs (AList.update (f p) (g p st) acc)) q = Some st'"
    by simp
  from Cons.IH [OF this] x show ?case by (auto simp: update_conv split: if_splits)
qed simp

lemma distinct_updates: "distinct (map fst acc) \<Longrightarrow> distinct (map fst (fold (\<lambda>(p, st). AList.update (f p) (g p st)) xs acc))"
  by (induction xs arbitrary: acc) (auto simp: distinct_update)

lemma good_rewrite:
  assumes "snapshot_good ct s"
  shows "snapshot_good ct (rewrite_paths a b c s)"
proof -
  define f where "f p = (case rewrite_single_path p a b c of Some q \<Rightarrow> q | None \<Rightarrow> p)" for p
  define fs where "fs = fold (\<lambda>(p, st). AList.update (f p) (at_path (f p) st)) (snap_files s) []"
  have e: "rewrite_paths a b c s = s\<lparr>snap_files := fs\<rparr>"
    by (simp add: rewrite_paths_def fs_def f_def Let_def)
  have d: "distinct (map fst fs)" "distinct (map fst (snap_files s))"
    using assms by (simp_all add: fs_def distinct_updates snapshot_good_def consistent_def)
  have old: "\<exists>p st. map_of (snap_files s) p = Some st \<and> st' = at_path q st" if "map_of fs q = Some st'" for q st'
    using updates_from [of f "\<lambda>p. at_path (f p)" "snap_files s" "[]" q st'] that d(2) by (auto simp: fs_def)
  have sub: "pool_keys fs \<subseteq># pool_keys (snap_files s)"
    using keys_fold [of AList.update f "snap_files s" "[]"] keys_update by (simp add: fs_def)
  have "consistent (ct \<noteq> None) (snap_files s) (snap_index s) (snap_next s)" using assms by (simp only: snapshot_good_def)
  then have "consistent (ct \<noteq> None) fs (snap_index s) (snap_next s)" by (rule consistent_moved [OF _ d(1) sub])
  moreover have "described ct st'" if new: "(q, st') \<in> set fs" for q st'
  proof -
    obtain p st where "map_of (snap_files s) p = Some st" "st' = at_path q st"
      using old [OF map_of_is_SomeI [OF d(1) new]] by blast
    moreover from this(1) have "(p, st) \<in> set (snap_files s)" by (rule map_of_SomeD)
    ultimately show ?thesis using assms by (auto simp: snapshot_good_def files_described_def)
  qed
  ultimately show ?thesis by (auto simp: e snapshot_good_def files_described_def)
qed

section \<open>Another working directory\<close>

definition no_collision :: "fpath \<Rightarrow> tracker \<Rightarrow> bool" where
  "no_collision wd t \<longleftrightarrow> inj_on (rekeyed (working_dir t) wd) (fst ` set (file_states t))"

lemma update_fresh: "k \<notin> fst ` set al \<Longrightarrow> AList.update k v al = al @ [(k, v)]"
  by (induction al) auto

lemma merge_fresh: "k \<notin> fst ` set al \<Longrightarrow> merge_rekeyed k v al = al @ [(k, v)]"
proof -
  assume k: "k \<notin> fst ` set al"
  then have "map_of al k = None" by (simp add: map_of_eq_None_iff)
  with k show ?thesis by (simp add: merge_rekeyed_def update_fresh)
qed

lemma fold_fresh:
  assumes "\<And>k v al. k \<notin> fst ` set al \<Longrightarrow> add k v al = al @ [(k, v)]"
    and "distinct (map fst acc @ map (\<lambda>x. f (fst x)) xs)"
  shows "fold (\<lambda>(p, st). add (f p) (g p st)) xs acc = acc @ map (\<lambda>(p, st). (f p, g p st)) xs"
  using assms(2)
proof (induction xs arbitrary: acc)
  case (Cons x xs)
  obtain p st where x: "x = (p, st)" by (cases x)
  have "add (f p) (g p st) acc = acc @ [(f p, g p st)]" by (rule assms(1)) (use Cons.prems x in auto)
  moreover have "distinct (map fst (acc @ [(f p, g p st)]) @ map (\<lambda>x. f (fst x)) xs)" using Cons.prems x by auto
  ultimately show ?case using Cons.IH [of "acc @ [(f p, g p st)]"] x by simp
qed simp

lemma rekeyed_files:
  assumes "distinct (map fst (file_states t))" and "no_collision wd t" and "wd \<noteq> working_dir t"
  shows "file_states (rekey_paths_for_working_dir wd t) =
      map (\<lambda>(p, st). (rekeyed (working_dir t) wd p, at_path (rekeyed (working_dir t) wd p) st))
        (filter (\<lambda>(p, st). prefix wd p) (file_states t) @ filter (\<lambda>x. \<not> (case x of (p, st) \<Rightarrow> prefix wd p)) (file_states t))"
    and "distinct (map fst (file_states (rekey_paths_for_working_dir wd t)))"
proof -
  let ?f = "rekeyed (working_dir t) wd"
  let ?a = "filter (\<lambda>(p, st). prefix wd p) (file_states t)"
  let ?o = "filter (\<lambda>x. \<not> (case x of (p, st) \<Rightarrow> prefix wd p)) (file_states t)"
  let ?g = "\<lambda>p st. at_path (?f p) st"
  have keys: "distinct (map fst (?a @ ?o))"
    using assms(1) by (auto simp: distinct_map_filter dest: eq_key_imp_eq_value)
  have "inj_on ?f (set (map fst (?a @ ?o)))"
    using assms(2) by (auto simp: no_collision_def intro: inj_on_subset)
  with keys have "distinct (map ?f (map fst (?a @ ?o)))" by (simp only: distinct_map)
  then have d: "distinct (map (\<lambda>x. ?f (fst x)) ?a @ map (\<lambda>x. ?f (fst x)) ?o)"
    by (simp only: map_map comp_def map_append)
  have "fold (\<lambda>(p, st). AList.update (?f p) (?g p st)) ?a [] = [] @ map (\<lambda>(p, st). (?f p, ?g p st)) ?a"
    by (rule fold_fresh [where add = AList.update and g = ?g]) (use d update_fresh in auto)
  moreover have "fold (\<lambda>(p, st). merge_rekeyed (?f p) (?g p st)) ?o (map (\<lambda>(p, st). (?f p, ?g p st)) ?a) =
      map (\<lambda>(p, st). (?f p, ?g p st)) ?a @ map (\<lambda>(p, st). (?f p, ?g p st)) ?o"
    by (rule fold_fresh [where add = merge_rekeyed and g = ?g]) (use d merge_fresh in \<open>auto simp: comp_def case_prod_beta\<close>)
  ultimately show files: "file_states (rekey_paths_for_working_dir wd t) = map (\<lambda>(p, st). (?f p, ?g p st)) (?a @ ?o)"
    using assms(3) by (simp add: rekey_paths_for_working_dir_def Let_def comp_def)
  have "map fst (map (\<lambda>(p, st). (?f p, ?g p st)) (?a @ ?o)) = map (\<lambda>x. ?f (fst x)) ?a @ map (\<lambda>x. ?f (fst x)) ?o"
    by (simp add: case_prod_beta comp_def)
  with d show "distinct (map fst (file_states (rekey_paths_for_working_dir wd t)))" unfolding files by (simp only:)
qed

lemma rekey_fields:
  "turn_index (rekey_paths_for_working_dir wd t) = turn_index t"
  "next_id (rekey_paths_for_working_dir wd t) = next_id t"
  by (simp_all add: rekey_paths_for_working_dir_def Let_def)


text \<open>The files that keep their place first, then the others, merged with what they meet.\<close>

lemma rekey_books:
  assumes "books ex t"
  shows "books ex (rekey_paths_for_working_dir wd t)"
proof (cases "wd = working_dir t")
  case False
  let ?f = "rekeyed (working_dir t) wd"
  let ?a = "filter (\<lambda>(p, st). prefix wd p) (file_states t)"
  let ?o = "filter (\<lambda>x. \<not> (case x of (p, st) \<Rightarrow> prefix wd p)) (file_states t)"
  let ?kept = "fold (\<lambda>(p, st). AList.update (?f p) (at_path (?f p) st)) ?a []"
  let ?all = "fold (\<lambda>(p, st). merge_rekeyed (?f p) (at_path (?f p) st)) ?o ?kept"
  have files: "file_states (rekey_paths_for_working_dir wd t) = ?all"
    using False by (simp add: rekey_paths_for_working_dir_def Let_def comp_def)
  have merged: "distinct (map fst al) \<Longrightarrow> distinct (map fst (merge_rekeyed k v al))" for k v al
    by (simp add: merge_rekeyed_def distinct_update split: option.split)
  have "distinct (map fst ?all)"
  proof -
    have "distinct (map fst (fold (\<lambda>(p, st). merge_rekeyed (?f p) (at_path (?f p) st)) xs acc))"
      if "distinct (map fst acc)" for xs acc
      using that by (induction xs arbitrary: acc) (auto simp: merged)
    then show ?thesis using distinct_updates [of "[]" ?f "\<lambda>p. at_path (?f p)" ?a] by simp
  qed
  moreover have "pool_keys ?all \<subseteq># pool_keys (file_states t)"
  proof -
    have split: "pool_keys (filter P fs) + pool_keys (filter (\<lambda>x. \<not> P x) fs) = pool_keys fs" for P fs
      by (induction fs) (auto simp: ac_simps)
    have "pool_keys ?all \<subseteq># pool_keys ?kept + pool_keys ?o" by (rule keys_fold) (rule keys_merge)
    also have "\<dots> \<subseteq># pool_keys ?a + pool_keys ?o"
      using keys_fold [of AList.update ?f ?a "[]"] keys_update by (intro subset_mset.add_right_mono) simp
    finally show ?thesis using split [of "\<lambda>(p, st). prefix wd p" "file_states t"] by simp
  qed
  ultimately show ?thesis unfolding rekey_fields files by (rule consistent_moved [OF assms])
qed (simp add: rekey_paths_for_working_dir_def assms)

lemma good_rekey:
  assumes "good ct t" and "ct \<noteq> None \<Longrightarrow> no_collision wd t"
  shows "good ct (rekey_paths_for_working_dir wd t)"
proof (cases "wd = working_dir t \<or> ct = None")
  case False
  let ?t = "rekey_paths_for_working_dir wd t" and ?f = "rekeyed (working_dir t) wd"
  have keys: "distinct (map fst (file_states t))" by (rule good_keys [OF assms(1)])
  have "no_collision wd t" "wd \<noteq> working_dir t" using assms(2) False by blast+
  note files = rekeyed_files [OF keys this]
  have "\<exists>p st. (p, st) \<in> set (file_states t) \<and> st' = at_path q st" if "(q, st') \<in> set (file_states ?t)" for q st'
    using that unfolding files(1) by auto
  then have "files_described ct (file_states ?t)"
    using assms(1) by (fastforce simp: files_described_def good_iff)
  then show ?thesis using rekey_books assms(1) by (simp add: good_iff)
next
  case True
  then show ?thesis
    using assms(1) rekey_books by (auto simp: good_def all_described_def rekey_paths_for_working_dir_def)
qed

end
