(* ===== verification/Hunk_Review.thy ===== *)
theory Hunk_Review
  imports Hunk_Moves
begin

text \<open>
  The runs of the tracker and what they promise to the one who reviews: which hunks are shown for a
  turn, what the hunks of a file say, and what accepting or rejecting all of them leaves. What goes
  wrong at the edges is proved at the end.
\<close>

section \<open>Runs\<close>

definition stays_put :: "command \<Rightarrow> tracker \<Rightarrow> bool" where
  "stays_put c t = (case c of SetWorkingDir wd \<Rightarrow> no_collision wd t | _ \<Rightarrow> True)"

fun restores :: "command \<Rightarrow> bool" where
  "restores (RestoreState _) = True"
| "restores _ = False"

fun in_place :: "command \<Rightarrow> bool" where
  "in_place (SetWorkingDir _) = False"
| "in_place _ = True"

text \<open>
  A run: commands one by one or merged into a batch, snapshots of any moment restored at any other,
  the order of the maps arbitrary at every step. Without a contract anything may happen: the differ
  answers what it likes, files cannot be written, two files move to one path. With a contract the
  differ keeps it, files can be written and removed, and no two files move to one path.
\<close>

inductive reachable :: "differ_contract option \<Rightarrow> tracker \<Rightarrow> bool" and taken :: "differ_contract option \<Rightarrow> snapshot \<Rightarrow> bool"
  for ct where
  start: "reachable ct (tracker_new wd m)"
| command: "reachable ct t \<Longrightarrow> honours ct w \<Longrightarrow> writable ct w \<Longrightarrow> \<not> restores c \<Longrightarrow> ct = None \<or> stays_put c t
    \<Longrightarrow> reachable ct (handle_command w c t)"
| batch: "reachable ct t \<Longrightarrow> honours ct w \<Longrightarrow> writable ct w
    \<Longrightarrow> list_all (\<lambda>c. \<not> restores c \<and> (ct = None \<or> in_place c)) (other_commands b)
    \<Longrightarrow> reachable ct (handle_coalesced_batch w b t)"
| restore: "reachable ct t \<Longrightarrow> taken ct s \<Longrightarrow> reachable ct (restore_snapshot s t)"
| reorder: "reachable ct t \<Longrightarrow> distinct (map fst fs) \<Longrightarrow> set fs = set (file_states t) \<Longrightarrow> reachable ct (t\<lparr>file_states := fs\<rparr>)"
| save: "reachable ct t \<Longrightarrow> taken ct (take_snapshot t)"
| move: "taken ct s \<Longrightarrow> taken ct (rewrite_paths a b c s)"

lemma good_new: "good ct (tracker_new wd m)"
  by (simp add: good_def tracker_new_def consistent_new all_described_def lookup_def)

lemma good_command:
  assumes "good ct t" and "honours ct w" and "writable ct w" and "\<not> restores c" and "ct = None \<or> stays_put c t"
  shows "good ct (handle_command w c t)"
  using assms
  by (cases c)
    (auto simp: good_record good_change handle_file_change_def good_deleted good_git_status good_reset good_set_mode
      good_hunk_action good_file_action good_all_action good_turn_action good_refresh_all stays_put_def
      set_working_dir_def intro: good_rekey)

lemma good_commands:
  assumes "honours ct w" and "writable ct w"
  shows "list_all (\<lambda>c. \<not> restores c \<and> (ct = None \<or> in_place c)) cs \<Longrightarrow> good ct t
    \<Longrightarrow> good ct (fold (handle_command w) cs t)"
proof (induction cs arbitrary: t)
  case (Cons c cs)
  then have "\<not> restores c" "ct = None \<or> stays_put c t" by (cases c; simp add: stays_put_def)+
  with Cons good_command [OF _ assms, of t c] show ?case by simp
qed simp

lemma good_before_refresh:
  assumes "honours ct w"
  shows "good ct (snd s) \<Longrightarrow> good ct (snd (fold (before_refresh w) pas s))"
proof (induction pas arbitrary: s)
  case (Cons pa pas)
  obtain p a processed t where x: "pa = (p, a)" "s = (processed, t)" by (cases pa; cases s)
  have "good ct (snd (before_refresh w pa s))"
    using Cons.prems x good_deleted [OF _ assms] good_change [OF _ assms]
    by (simp add: before_refresh_def handle_file_change_def)
  with Cons.IH show ?case by simp
qed simp

lemma good_batch_of_commands:
  assumes "good ct t" and "honours ct w" and "writable ct w" and "list_all (\<lambda>c. \<not> restores c \<and> (ct = None \<or> in_place c)) (other_commands b)"
  shows "good ct (handle_coalesced_batch w b t)"
proof -
  have status: "good ct (if x then refresh_git_dirty_cache w None t else t)" for x
    using assms(1,2) good_git_status by simp
  have refresh: "good ct (case fold (before_refresh w) (file_actions b) ([], t1) of
      (processed, t') \<Rightarrow> refresh_all_baselines_except w processed t')" if "good ct t1" for t1
    using good_before_refresh [OF assms(2), of "([], t1)" "file_actions b"] that good_refresh_all [OF _ assms(2)]
    by (simp add: case_prod_beta)
  have files: "good ct (handle_file_changes_batch w ps
      (fold (\<lambda>(p, a). if a = DeletedOnly then handle_file_deleted w p else (\<lambda>s. s)) (file_actions b) t1))"
    if "good ct t1" for t1 ps
    unfolding handle_file_changes_batch_def
    using good_deleted [OF _ assms(2)] by (intro good_changes assms(2) good_fold that) (auto split: prod.split)
  show ?thesis
    unfolding handle_coalesced_batch_def Let_def
    by (intro good_commands assms) (simp add: status refresh files assms(1))
qed

lemma good_reorder:
  assumes "good ct t" and "distinct (map fst fs)" and "set fs = set (file_states t)"
  shows "good ct (t\<lparr>file_states := fs\<rparr>)"
proof -
  have m: "map_of fs = map_of (file_states t)"
    using assms good_keys [OF assms(1)] by (intro map_of_inject_set [THEN iffD2]) simp_all
  then have h: "hunks_at fs = hunks_at (file_states t)" by (intro ext) (simp add: hunks_at_def)
  then have "ids_at fs = ids_at (file_states t)" by (intro ext) (simp add: ids_at_def)
  with h have "books (ct \<noteq> None) (t\<lparr>file_states := fs\<rparr>)"
    using assms(1,2) by (simp add: good_def consistent_def)
  then show ?thesis using assms(1) by (simp add: good_def all_described_def lookup_def m)
qed

lemma run_invariant: "reachable ct t \<Longrightarrow> good ct t" and "taken ct s \<Longrightarrow> snapshot_good ct s"
proof (induction rule: reachable_taken.inducts)
  case (start wd m)
  show ?case by (rule good_new)
next
  case (command t w c)
  show ?case by (rule good_command) (use command in blast)+
next
  case (batch t w b)
  then show ?case by (simp only: good_batch_of_commands)
next
  case (restore t s)
  then show ?case by (simp only: good_restore)
next
  case (reorder t fs)
  then show ?case by (simp only: good_reorder)
next
  case (save t)
  then show ?case by (simp only: good_take)
next
  case (move s a b c)
  then show ?case by (simp only: good_rewrite)
qed

section \<open>What the queries answer\<close>

lemma live_hunks:
  assumes "good ct t"
  shows "distinct (map hunk_id (get_all_hunks t))"
    and "h \<in> set (get_all_hunks t) \<longleftrightarrow> (\<exists>p. h \<in> set (hunks_at (file_states t) p))"
    and "h \<in> set (get_all_hunks t) \<Longrightarrow> indexed (ct \<noteq> None) (turn_index t) h"
proof -
  have c: "books (ct \<noteq> None) t" using assms by (simp add: good_def)
  have all: "get_all_hunks t = pool (file_states t)" by (simp add: get_all_hunks_def pool_def)
  show "distinct (map hunk_id (get_all_hunks t))" "h \<in> set (get_all_hunks t) \<Longrightarrow> indexed (ct \<noteq> None) (turn_index t) h"
    using c unfolding all consistent_pool by blast+
  show "h \<in> set (get_all_hunks t) \<longleftrightarrow> (\<exists>p. h \<in> set (hunks_at (file_states t) p))"
    unfolding all by (rule pool_member [OF good_keys [OF assms]])
qed

lemma get_hunk_iff:
  assumes "good ct t"
  shows "get_hunk k t = Some h \<longleftrightarrow> h \<in> set (get_all_hunks t) \<and> hunk_id h = k"
proof
  show "get_hunk k t = Some h \<Longrightarrow> h \<in> set (get_all_hunks t) \<and> hunk_id h = k"
    unfolding get_hunk_def by (drule find_SomeD)
  assume h: "h \<in> set (get_all_hunks t) \<and> hunk_id h = k"
  then have "get_hunk k t \<noteq> None" unfolding get_hunk_def find_is_Some by blast
  then obtain g where g: "get_hunk k t = Some g" by blast
  then have "g \<in> set (get_all_hunks t)" "hunk_id g = hunk_id h"
    using find_SomeD [of "\<lambda>h. hunk_id h = k" "get_all_hunks t" g] h by (simp_all add: get_hunk_def)
  then have "g = h" using live_hunks(1) [OF assms] h by (auto simp: distinct_map dest: inj_onD)
  with g show "get_hunk k t = Some h" by simp
qed

lemma ids_of_found: "(\<And>k h. f k = Some h \<Longrightarrow> hunk_id h = k) \<Longrightarrow> map hunk_id (List.map_filter f ks) = filter (\<lambda>k. f k \<noteq> None) ks"
  by (induction ks) (auto simp: List.map_filter_simps split: option.split)

lemma in_map_filter: "x \<in> set (List.map_filter f ks) \<longleftrightarrow> (\<exists>k\<in>set ks. f k = Some x)"
  by (induction ks) (auto simp: List.map_filter_simps split: option.split)

lemma turn_hunks:
  assumes "good ct t"
  shows "set (get_hunks_for_turn i t) \<subseteq> {h \<in> set (get_all_hunks t). hunk_source h = AgentEdit i}"
    and "ct \<noteq> None \<Longrightarrow> {h \<in> set (get_all_hunks t). hunk_source h = AgentEdit i} \<subseteq> set (get_hunks_for_turn i t)"
    and "distinct (map hunk_id (get_hunks_for_turn i t))"
proof -
  have shown: "h \<in> set (get_hunks_for_turn i t) \<longleftrightarrow> h \<in> set (get_all_hunks t) \<and> hunk_id h \<in> set (turn_index t i)" for h
    unfolding get_hunks_for_turn_def in_map_filter get_hunk_iff [OF assms] by blast
  show "set (get_hunks_for_turn i t) \<subseteq> {h \<in> set (get_all_hunks t). hunk_source h = AgentEdit i}"
    using live_hunks(3) [OF assms] by (auto simp: shown indexed_def)
  show "{h \<in> set (get_all_hunks t). hunk_source h = AgentEdit i} \<subseteq> set (get_hunks_for_turn i t)" if "ct \<noteq> None"
  proof
    fix h
    assume "h \<in> {h \<in> set (get_all_hunks t). hunk_source h = AgentEdit i}"
    then have h: "h \<in> set (get_all_hunks t)" "hunk_source h = AgentEdit i" by simp_all
    have "hunk_id h \<in> set (turn_index t i)" using live_hunks(3) [OF assms h(1)] that h(2) unfolding indexed_def by blast
    with h(1) show "h \<in> set (get_hunks_for_turn i t)" unfolding shown by blast
  qed
  have "map hunk_id (get_hunks_for_turn i t) = filter (\<lambda>k. get_hunk k t \<noteq> None) (turn_index t i)"
    unfolding get_hunks_for_turn_def using get_hunk_iff [OF assms] by (intro ids_of_found) blast
  moreover have "distinct (turn_index t i)" using assms by (simp add: good_def consistent_def)
  ultimately show "distinct (map hunk_id (get_hunks_for_turn i t))" by simp
qed

end
