(* ===== verification/Hunk_Limits.thy ===== *)
theory Hunk_Limits
  imports Hunk_Props
begin

text \<open>
  Where the promises of the hunk tracker end: a write that fails, a final newline that is taken away,
  the author of what is left after an action, and a batch that overtakes an edit.
\<close>

section \<open>A write that fails\<close>

lemma failed_reject:
  assumes "lookup p t = Some st" and "described (Some D) st" and "h \<in> set (hunks st)"
    and "\<not> write_succeeds w p" and "\<not> remove_succeeds w p"
  shows "\<exists>e. reject_hunk w p h t = (Inl e, t)"
proof -
  have "hunks st \<noteq> []" using assms(3) by auto
  from assms(2) this show ?thesis
    by (cases rule: described_kinds) (simp_all add: reject_hunk_def assms write_file_def remove_file_def Let_def)
qed

lemma count_one:
  "file_states (count_action a h t) = file_states t"
  "turn_index (count_action a h t) = index_remove h (turn_index t)"
  "disk_ops (count_action a h t) = disk_ops t"
  "rejected_hunks (stats (count_action Reject h t)) = saturate (rejected_hunks (stats t) + 1)"
  by (simp_all add: count_action_def remove_from_turn_index_def update_session_stats_def Let_def)

text \<open>
  C38: a rejection whose write fails is counted all the same, and its hunk stays where it is but is
  gone from the list of its turn: the counts and the index are changed before the file is touched.
\<close>

theorem failed_reject_hides_the_hunk:
  assumes "reachable (Some D) t" and "find_hunk i t = Some (p, h)" and "hunk_source h = AgentEdit k"
    and "\<not> write_succeeds w p" and "\<not> remove_succeeds w p"
  shows "\<exists>e t'. apply_hunk_action w i Reject t = (Inl e, t') \<and> disk_ops t' = disk_ops t
    \<and> h \<in> set (get_all_hunks t') \<and> h \<in> set (get_hunks_for_turn k t) \<and> h \<notin> set (get_hunks_for_turn k t')
    \<and> rejected_hunks (stats t') = saturate (rejected_hunks (stats t) + 1)"
proof -
  have good: "good (Some D) t" by (rule run_invariant(1) [OF assms(1)])
  obtain st where st: "lookup p t = Some st" "h \<in> set (hunks st)" "hunk_id h = i"
    using find_hunk_at [OF assms(2) good] by blast
  let ?t = "count_action Reject h t"
  have same: "lookup q ?t = lookup q t" "get_all_hunks ?t = get_all_hunks t" "get_hunk j ?t = get_hunk j t" for q j
    by (simp_all add: lookup_def get_all_hunks_def get_hunk_def count_one)
  have "described (Some D) st" using good st(1) by (simp add: good_def all_described_def)
  then obtain e where "reject_hunk w p h ?t = (Inl e, ?t)"
    using failed_reject [of p ?t st D h w] st assms(4,5) by (auto simp: same)
  then have run: "apply_hunk_action w i Reject t = (Inl e, ?t)" using assms(2) by (simp add: apply_hunk_action_def)
  have "h \<in> set (hunks_at (file_states t) p)" using st by (auto simp: in_hunks_at lookup_def)
  then have live: "h \<in> set (get_all_hunks t)" using live_hunks(2) [OF good] by blast
  have "i \<notin> set (turn_index ?t k)" using assms(3) st(3) by (simp add: count_one in_index_remove)
  then have "h \<notin> set (get_hunks_for_turn k ?t)"
    using get_hunk_iff [OF good] st(3) by (auto simp: get_hunks_for_turn_def in_map_filter same)
  moreover have "h \<in> set (get_hunks_for_turn k t)" using turn_hunks(2) [OF good] live assms(3) by blast
  ultimately show ?thesis using run live by (intro exI [of _ e] exI [of _ ?t]) (simp add: same count_one)
qed

theorem failed_reject_hides_the_hunk_witness:
  "\<exists>e t'. apply_hunk_action (sample_world False) 0 Reject sample_run = (Inl e, t')
     \<and> file_created 0 sample_path ''x'' (AgentEdit 3) \<notin> set (get_hunks_for_turn 3 t')"
proof -
  have "find_hunk 0 sample_run = Some (sample_path, file_created 0 sample_path ''x'' (AgentEdit 3))"
    by (simp add: find_hunk_def sample_hunk(2) List.map_filter_simps file_created_def)
  from failed_reject_hides_the_hunk [OF sample_reachable this, of 3 "sample_world False"]
  show ?thesis by (auto simp: file_created_def sample_world_def)
qed

section \<open>A final newline\<close>

text \<open>A line of its own: some text without a newline and without a carriage return at its end.\<close>

definition bare_line :: "string \<Rightarrow> bool" where
  "bare_line x \<longleftrightarrow> x \<noteq> [] \<and> nl \<notin> set x \<and> last x \<noteq> CHR 0x0D"

lemma split_on_none: "sep \<notin> set x \<Longrightarrow> split_on sep x = [x]"
  by (induction x) auto

lemma bare_line_lines:
  assumes "bare_line x"
  shows "str_lines (x @ [nl]) = [x]" and "str_lines x = [x]"
proof -
  have "strip_cr x = x" using assms by (simp add: bare_line_def strip_cr_def)
  then show "str_lines (x @ [nl]) = [x]"
    using split_on_first [of x "[]"] assms by (simp add: str_lines_def bare_line_def)
  show "str_lines x = [x]" using assms by (simp add: str_lines_def bare_line_def split_on_none)
qed



section \<open>Whose hunks are left\<close>

lemma claimed_source:
  "\<forall>h\<in>set hs. hunk_source h = AgentEdit k \<Longrightarrow> g \<in> set (claim_ids os claimed hs) \<Longrightarrow> hunk_source g = AgentEdit k"
  by (induction hs arbitrary: claimed) (auto simp: continue_hunk_def split: option.splits if_splits)

lemma expected_source: "h \<in> set (expected_hunks diff i p b c src) \<Longrightarrow> hunk_source h = src"
  by (auto simp: expected_hunks_def compute_hunks_def number_hunks_def build_def file_deleted_def file_created_def
      split: file_content.splits option.splits if_splits)

text \<open>
  After one hunk of an existing file is accepted, every other hunk of the file counts as made in
  the turn of the first hunk that is left, when the agent made that one: an edit of the user's further
  down is attributed to the agent.
\<close>

theorem accepting_reattributes_what_is_left:
  assumes "lookup p t = Some st" and "baseline st \<noteq> Missing"
    and "filter (\<lambda>g. hunk_id g \<noteq> hunk_id h) (hunks st) = first # rest" and "hunk_source first = AgentEdit k"
  shows "list_all (\<lambda>g. hunk_source g = AgentEdit k) (get_hunks_for_path p (accept_hunk w p h t))"
proof -
  define base where "base = (case baseline st of
      Full b \<Rightarrow> Full (patch_lines b (old_start (line_info h)) (old_count (line_info h)) (new_text h)) | other \<Rightarrow> other)"
  define t1 where "t1 = send_events [HunkRemoved p (hunk_id h) Accepted, BaselineUpdated p]
    (put p (retain_other [h] (st\<lparr>baseline := base, baseline_accepted := True\<rparr>)) t)"
  have run: "accept_hunk w p h t = recompute_hunks w p (Some (current_content st)) (remaining_source p t1) t1"
    using assms(1,2) by (simp add: accept_hunk_def t1_def base_def Let_def)
  have src: "remaining_source p t1 = AgentEdit k"
    using assms(3,4) by (simp add: remaining_source_def t1_def retain_other_def)
  obtain st1 where "lookup p t1 = Some st1" by (simp add: t1_def)
  then have "get_hunks_for_path p (recompute_hunks w p (Some (current_content st)) (AgentEdit k) t1)
      = claim_ids (hunks st1) [] (expected_hunks (differ w) (next_id t1) p (baseline st1) (current_content st) (AgentEdit k))"
    by (simp add: get_hunks_for_path_def recompute_hunks_def Let_def)
  then show ?thesis
    unfolding run src list_all_iff using claimed_source expected_source by metis
qed

section \<open>A batch that overtakes an edit\<close>

lemma record_current:
  "\<exists>st. lookup p (record_agent_write w p s i prev t) = Some st \<and> current_content st = classify_string s
     \<and> (lookup p t = None \<longrightarrow> \<not> baseline_accepted st)"
  by (auto simp: record_agent_write_def recompute_hunks_def new_file_def Let_def split: option.split)

lemma change_current:
  "lookup p t = Some st \<Longrightarrow> \<not> baseline_accepted st \<Longrightarrow>
     \<exists>st'. lookup p (process_file_change w p pre t) = Some st' \<and> current_content st' = on_disk w p"
  by (simp add: process_file_change_def recompute_hunks_def Let_def)

lemma lookup_change: "q \<noteq> p \<Longrightarrow> lookup q (process_file_change w p pre t) = lookup q t"
  by (simp add: process_file_change_def Let_def lookup_recompute split: option.split)

text \<open>
  A notification for one file lets the batch behind it reorder the history of another. The agent
  writes a file and the file then changes on disk: handled one by one, the tracker ends with what is
  on disk; queued behind a notification, the change is looked at first and the write last, and the
  tracker ends with the agent's text.
\<close>

theorem batch_overtakes_an_edit:
  assumes "lookup p t = None" and "p \<noteq> q"
  shows "\<exists>one batched.
    lookup p (fold (handle_command w) [HandleFileChange q, RecordAgentWrite p s i prev, HandleFileChange p] t) = Some one
    \<and> current_content one = on_disk w p
    \<and> lookup p (snd (run_once w (HandleFileChange q) [RecordAgentWrite p s i prev, HandleFileChange p] t)) = Some batched
    \<and> current_content batched = classify_string s"
proof -
  let ?t = "handle_file_change w q t"
  have "lookup p ?t = None" using assms by (simp add: handle_file_change_def lookup_change)
  then obtain st where "lookup p (record_agent_write w p s i prev ?t) = Some st" "\<not> baseline_accepted st"
    using record_current [of p w s i prev ?t] by blast
  then obtain one where one: "lookup p (handle_file_change w p (record_agent_write w p s i prev ?t)) = Some one"
    "current_content one = on_disk w p"
    using change_current [of p _ st w None] by (auto simp: handle_file_change_def)
  have "coalesce [HandleFileChange q, RecordAgentWrite p s i prev, HandleFileChange p] =
      \<lparr>file_actions = [(q, Changed), (p, Changed)], refresh_all = False, refresh_dirty = False,
       other_commands = [RecordAgentWrite p s i prev], command_count = 3\<rparr>"
    using assms(2) by (simp add: coalesce_def batch_add_def batch_new_def Let_def)
  then have "snd (run_once w (HandleFileChange q) [RecordAgentWrite p s i prev, HandleFileChange p] t) =
      record_agent_write w p s i prev (handle_file_changes_batch w [q, p] t)"
    by (simp add: run_once_def handle_coalesced_batch_def Let_def)
  then show ?thesis using one record_current by fastforce
qed

theorem batch_overtakes_an_edit_witness:
  "\<exists>one batched.
    lookup [] (fold (handle_command (sample_world True))
      [HandleFileChange sample_path, RecordAgentWrite [] ''x'' 3 None, HandleFileChange []] (tracker_new [] AgentOnly)) = Some one
    \<and> current_content one = Full ''y''
    \<and> lookup [] (snd (run_once (sample_world True) (HandleFileChange sample_path)
        [RecordAgentWrite [] ''x'' 3 None, HandleFileChange []] (tracker_new [] AgentOnly))) = Some batched
    \<and> current_content batched = Full ''x''"
proof -
  have "lookup [] (tracker_new [] AgentOnly) = None" "[] \<noteq> sample_path"
    by (simp_all add: lookup_def tracker_new_def sample_path_def)
  from batch_overtakes_an_edit [OF this, of "sample_world True" "''x''" 3 None] show ?thesis
    by (simp only: classify_short) (simp add: sample_world_def)
qed

end
