(* ===== verification/Loc_Sink.thy ===== *)
theory Loc_Sink
  imports Hunk_Limits
begin

text \<open>
  The line counter behind the hunk tracker (\<open>crates/codegen/xai-hunk-tracker/src/loc/mod.rs\<close>): it turns
  the events into records of who added and removed how many lines, such that the sum over the records
  is the total. The accumulator of the sink is a map from identifiers to what was recorded; a record
  that fails to be written is a matter of the writer and left out, and so are time stamps.
\<close>

section \<open>Records\<close>

datatype author_type = AgentAuthor | HumanAuthor

datatype source_type = SrcAgentEdit | SrcExternalEditOnAgentFile | SrcExternal

datatype event_type = Added | Updated | Removed

record hunk_record =
  rec_id :: nat
  rec_path :: fpath
  hunk_start :: nat
  hunk_end :: nat
  rec_added :: int
  rec_removed :: int
  author :: "author_type option"
  author_id :: "string option"
  agent_id :: string
  session_id :: string
  rec_prompt :: "nat option"
  rec_source :: "source_type option"
  rec_event :: event_type
  rec_reason :: "removal_reason option"

datatype loc_aggregate =
  LinesChanged author_type int int fpath
| LinesReverted int int

record sink_context =
  ctx_session :: string
  ctx_agent :: string
  ctx_user :: "string option"
  has_aggregate :: bool

fun attribution :: "hunk_source \<Rightarrow> sink_context \<Rightarrow> author_type \<times> string option \<times> nat option \<times> source_type" where
  "attribution (AgentEdit i) ctx = (AgentAuthor, Some (ctx_agent ctx), Some i, SrcAgentEdit)"
| "attribution ExternalEditOnAgentFile ctx = (HumanAuthor, ctx_user ctx, None, SrcExternalEditOnAgentFile)"
| "attribution External ctx = (HumanAuthor, ctx_user ctx, None, SrcExternal)"

text \<open>A hunk that only deletes is placed by its lines in the old text.\<close>

definition from_hunk :: "hunk \<Rightarrow> sink_context \<Rightarrow> event_type \<Rightarrow> hunk_source \<Rightarrow> hunk_record" where
  "from_hunk h ctx ev src =
     (let (author_t, by, prompt, source_t) = attribution src ctx;
          li = line_info h;
          (start, count) = (if new_count li = 0 then (old_start li, old_count li) else (new_start li, new_count li));
          last_line = (if count = 0 then start else start + count - 1)
      in \<lparr>rec_id = hunk_id h, rec_path = hunk_path h, hunk_start = start, hunk_end = last_line,
          rec_added = int (new_count li), rec_removed = int (old_count li), author = Some author_t, author_id = by,
          agent_id = ctx_agent ctx, session_id = ctx_session ctx, rec_prompt = prompt, rec_source = Some source_t,
          rec_event = ev, rec_reason = None\<rparr>)"

section \<open>The sink\<close>

record sink =
  acc :: "nat \<Rightarrow> (int \<times> int) option"
  written :: "hunk_record list"
  aggregates :: "loc_aggregate list"

definition sink_new :: sink where
  "sink_new = \<lparr>acc = (\<lambda>_. None), written = [], aggregates = []\<rparr>"

definition accumulate :: "hunk_record \<Rightarrow> sink \<Rightarrow> sink" where
  "accumulate r s =
     (let (a, d) = (case acc s (rec_id r) of Some e \<Rightarrow> e | None \<Rightarrow> (0, 0))
      in s\<lparr>acc := (acc s)(rec_id r \<mapsto> (a + rec_added r, d + rec_removed r))\<rparr>)"

definition emit_aggregate :: "sink_context \<Rightarrow> loc_aggregate \<Rightarrow> sink \<Rightarrow> sink" where
  "emit_aggregate ctx g s = (if has_aggregate ctx then s\<lparr>aggregates := aggregates s @ [g]\<rparr> else s)"

definition write_record :: "hunk_record \<Rightarrow> sink \<Rightarrow> sink" where
  "write_record r s = s\<lparr>written := written s @ [r]\<rparr>"

definition lines_changed :: "author_type \<Rightarrow> hunk_record \<Rightarrow> loc_aggregate" where
  "lines_changed fallback r =
     LinesChanged (case author r of Some a \<Rightarrow> a | None \<Rightarrow> fallback) (rec_added r) (rec_removed r) (rec_path r)"

definition revert_hunk :: "sink_context \<Rightarrow> fpath \<Rightarrow> nat \<Rightarrow> removal_reason \<Rightarrow> sink \<Rightarrow> sink" where
  "revert_hunk ctx p k why s =
     (let s1 = s\<lparr>acc := (acc s)(k := None)\<rparr>
      in case acc s k of
           None \<Rightarrow> s1
         | Some (a, d) \<Rightarrow>
             if a \<noteq> 0 \<or> d \<noteq> 0 then
               write_record
                 \<lparr>rec_id = k, rec_path = p, hunk_start = 0, hunk_end = 0, rec_added = - a, rec_removed = - d,
                  author = None, author_id = None, agent_id = ctx_agent ctx, session_id = ctx_session ctx,
                  rec_prompt = None, rec_source = None, rec_event = Removed, rec_reason = Some why\<rparr>
                 (emit_aggregate ctx (LinesReverted (max a 0) (max d 0)) s1)
             else s1)"

fun handle_event :: "sink_context \<Rightarrow> hunk_event \<Rightarrow> sink \<Rightarrow> sink" where
  "handle_event ctx (HunkAdded p h) s =
     (let r = from_hunk h ctx Added (hunk_source h)
      in write_record r (emit_aggregate ctx (lines_changed AgentAuthor r) (accumulate r s)))"
| "handle_event ctx (HunkContentChanged p h trigger prev_added prev_removed) s =
     (let r = (from_hunk h ctx Updated trigger)\<lparr>
                rec_added := int (new_count (line_info h)) - int prev_added,
                rec_removed := int (old_count (line_info h)) - int prev_removed\<rparr>
      in write_record r (emit_aggregate ctx (lines_changed HumanAuthor r) (accumulate r s)))"
| "handle_event ctx (HunkRemoved p k Accepted) s = s\<lparr>acc := (acc s)(k := None)\<rparr>"
| "handle_event ctx (HunkRemoved p k Rejected) s = revert_hunk ctx p k Rejected s"
| "handle_event ctx (HunkRemoved p k Superseded) s = revert_hunk ctx p k Superseded s"
| "handle_event ctx _ s = s"

definition drain_remaining :: "sink_context \<Rightarrow> hunk_event list \<Rightarrow> sink \<Rightarrow> sink" where
  "drain_remaining ctx es s = fold (handle_event ctx) es s"

section \<open>The ledger\<close>

text \<open>
  For either count, added or removed lines: the sum over all records of a hunk, what the sink still
  holds of it, and what acceptance kept.
\<close>

datatype line_count = AddedLines | RemovedLines

fun of_record :: "line_count \<Rightarrow> hunk_record \<Rightarrow> int" where
  "of_record AddedLines r = rec_added r"
| "of_record RemovedLines r = rec_removed r"

fun of_entry :: "line_count \<Rightarrow> int \<times> int \<Rightarrow> int" where
  "of_entry AddedLines e = fst e"
| "of_entry RemovedLines e = snd e"

definition recorded :: "line_count \<Rightarrow> nat \<Rightarrow> sink \<Rightarrow> int" where
  "recorded c k s = sum_list (map (of_record c) (filter (\<lambda>r. rec_id r = k) (written s)))"

definition held :: "line_count \<Rightarrow> nat \<Rightarrow> sink \<Rightarrow> int" where
  "held c k s = (case acc s k of Some e \<Rightarrow> of_entry c e | None \<Rightarrow> 0)"

definition kept_by :: "line_count \<Rightarrow> nat \<Rightarrow> hunk_event \<Rightarrow> sink \<Rightarrow> int" where
  "kept_by c k e s = (case e of HunkRemoved _ j why \<Rightarrow> if why = Accepted \<and> j = k then held c k s else 0 | _ \<Rightarrow> 0)"

fun kept :: "sink_context \<Rightarrow> line_count \<Rightarrow> nat \<Rightarrow> hunk_event list \<Rightarrow> sink \<Rightarrow> int" where
  "kept ctx c k [] s = 0"
| "kept ctx c k (e # es) s = kept_by c k e s + kept ctx c k es (handle_event ctx e s)"

lemma recorded_write: "recorded c k (write_record r s) = recorded c k s + (if rec_id r = k then of_record c r else 0)"
  by (simp add: recorded_def write_record_def)

lemma recorded_frame [simp]:
  "recorded c k (emit_aggregate ctx g s) = recorded c k s"
  "recorded c k (accumulate r s) = recorded c k s"
  "recorded c k (s\<lparr>acc := a\<rparr>) = recorded c k s"
  by (simp_all add: recorded_def emit_aggregate_def accumulate_def split_def Let_def)

lemma held_frame [simp]:
  "held c k (emit_aggregate ctx g s) = held c k s"
  "held c k (write_record r s) = held c k s"
  "held c k (s\<lparr>acc := (acc s)(j := None)\<rparr>) = (if j = k then 0 else held c k s)"
  by (simp_all add: held_def emit_aggregate_def write_record_def)

lemma held_accumulate: "held c k (accumulate r s) = held c k s + (if rec_id r = k then of_record c r else 0)"
  by (cases c) (auto simp: held_def accumulate_def Let_def split: option.split)

lemma revert_balance:
  "recorded c k (revert_hunk ctx p j why s) - held c k (revert_hunk ctx p j why s) = recorded c k s - held c k s"
proof (cases "acc s j")
  case (Some e)
  then obtain a d where e: "acc s j = Some (a, d)" by (cases e) auto
  then have "held c j s = of_entry c (a, d)" by (simp add: held_def)
  with e show ?thesis
    by (cases c) (auto simp: revert_hunk_def recorded_write Let_def)
qed (auto simp: revert_hunk_def held_def)

lemma event_balance:
  "recorded c k (handle_event ctx e s) - held c k (handle_event ctx e s) = recorded c k s - held c k s + kept_by c k e s"
  by (cases "(ctx, e, s)" rule: handle_event.cases)
    (simp_all add: recorded_write held_accumulate revert_balance kept_by_def Let_def)

lemma ledger:
  "recorded c k (drain_remaining ctx es s) = recorded c k s - held c k s + held c k (drain_remaining ctx es s) + kept ctx c k es s"
proof (induction es arbitrary: s)
  case (Cons e es)
  show ?case
    using Cons.IH [of "handle_event ctx e s"] event_balance [of c k ctx e s] by (simp add: drain_remaining_def)
qed (simp add: drain_remaining_def)

section \<open>Properties\<close>

text \<open>
  C4: the records of the line counter balance: whatever events arrive, the sum over all records of a
  hunk, of added and of removed lines, is what the sink still holds of the hunk plus what was kept
  whenever it was accepted. A hunk that was rejected or superseded contributes nothing.
\<close>

theorem line_records_balance:
  "recorded c k (drain_remaining ctx es sink_new) = held c k (drain_remaining ctx es sink_new) + kept ctx c k es sink_new"
  using ledger [of c k ctx es sink_new] by (simp add: sink_new_def recorded_def held_def)

section \<open>A hunk that splits\<close>

text \<open>
  C40: when an edit splits a hunk in two, the lines of the hunk are subtracted twice: both parts are
  reported as changes of the one hunk they overlap, so the sum over all records after the split is
  the lines of the parts less the lines of the whole.
\<close>

theorem split_hunk_is_subtracted_twice:
  assumes "hunk_id n1 = hunk_id h" and "hunk_id n2 \<noteq> hunk_id h"
    and "hunks_overlap h n1" and "hunks_overlap h n2"
    and "\<not> hunks_match_content h n1" and "\<not> hunks_match_content h n2"
  shows "sum_list (map rec_added (written (drain_remaining ctx (HunkAdded p h # diff_events p [h] [n1, n2] src) sink_new)))
    = int (new_count (line_info n1)) + int (new_count (line_info n2)) - int (new_count (line_info h))"
proof -
  let ?n = "new_count (line_info h)" and ?o = "old_count (line_info h)"
  have "diff_events p [h] [n1, n2] src = [HunkContentChanged p n1 src ?n ?o, HunkContentChanged p n2 src ?n ?o]"
    using assms by (simp add: diff_events_def removed_events_def new_hunk_events_def Let_def)
  moreover have "written (accumulate r s) = written s" "written (emit_aggregate ctx g s) = written s" for r g s
    by (simp_all add: accumulate_def emit_aggregate_def split_def Let_def)
  moreover have "rec_added (from_hunk h ctx ev sr) = int ?n" for ev sr
    by (simp add: from_hunk_def split_def Let_def)
  ultimately show ?thesis
    by (simp add: drain_remaining_def sink_new_def write_record_def Let_def)
qed

definition sample_part :: "nat \<Rightarrow> nat \<Rightarrow> nat \<Rightarrow> string \<Rightarrow> hunk" where
  "sample_part i start n_lines txt = \<lparr>hunk_id = i, hunk_path = sample_path,
     line_info = \<lparr>old_start = start, old_count = n_lines, new_start = start, new_count = n_lines\<rparr>,
     hunk_source = AgentEdit 3, old_text = None, new_text = txt\<rparr>"

definition sample_context :: sink_context where
  "sample_context = \<lparr>ctx_session = ''s'', ctx_agent = ''a'', ctx_user = None, has_aggregate = False\<rparr>"

theorem split_hunk_is_subtracted_twice_witness:
  "sum_list (map rec_added (written (drain_remaining sample_context
     (HunkAdded sample_path (sample_part 0 1 3 ''xyz'')
       # diff_events sample_path [sample_part 0 1 3 ''xyz''] [sample_part 0 1 1 ''x'', sample_part 1 3 1 ''z''] External)
     sink_new))) = - 1"
  using split_hunk_is_subtracted_twice [of "sample_part 0 1 1 ''x''" "sample_part 0 1 3 ''xyz''" "sample_part 1 3 1 ''z''" sample_context
      sample_path External]
  by (simp add: sample_part_def hunks_overlap_def hunks_match_content_def)

end
