(* ===== verification/Spec2Isabelle.thy ===== *)
theory Spec2Isabelle
  imports Prelude Token_Estimation Retry_Policy Breaker_Props Breaker_Interleaving Event_Queue
    Message_Delivery Prompt_Queue Rule_Parser Shell_Tree Unix_Path Path_Rules Inline_Shell
    Decision_Order Rule_Matching Permission_Policy Policy_Props Gate_Preflight
    Exec_Risk Grant_Scope Web_Domains Grant_Evaluation Grant_Props
    Env_Risk Shell_Invocations File_Operands Shell_Files Shell_Path_Props Shell_File_Props
    Routine_Props Protected_Edits Loc_Sink
begin

text \<open>
  A model of the decision-making core of the Grok coding agent, the Rust workspace under \<open>src/\<close>,
  and the theorems that make it correct.

  \<^bold>\<open>The parts and how they interact.\<close> The agent takes prompts from a terminal client, queues and
  merges them, sends them to a model behind a circuit breaker with a retry policy, watches the size
  of the conversation, lets messages reach a running turn, and asks its permission system before it
  runs a tool. The theories follow these parts:

  \<^item> \<open>Prelude\<close>: machine integers at their width with Rust's saturating and checked operations, the
    result type, lemmas shared by the components. \<open>Rust_Str\<close>: the \<open>str\<close> functions, on byte lists.
  \<^item> \<open>Token_Estimation\<close> (\<open>crates/codegen/xai-token-estimation/src/lib.rs\<close>): the estimators and the
    integer gates that decide on compaction, on 64-bit words.
  \<^item> \<open>Retry_Policy\<close>, \<open>Sliding_Window\<close>, \<open>Circuit_Breaker\<close>, \<open>Breaker_Props\<close>, \<open>Breaker_Interleaving\<close>
    (\<open>crates/common/xai-circuit-breaker/src\<close>): classification of responses, the sample window, the
    breaker as a record with one function per method, the registry, and the same methods once more
    as programs of atomic accesses that threads interleave. The sequential model is proved to be
    the interleaved one without interference.
  \<^item> \<open>Event_Queue\<close> (\<open>crates/common/xai-interjection-core/src\<close>): the interjection queue and the
    framing of queued text. \<open>Message_Delivery\<close> (\<open>crates/common/xai-message-delivery-core/src\<close>): who
    may do what with a message, and the slots in which a message waits, is projected and delivered.
  \<^item> \<open>Prompt_Queue\<close> (\<open>xai-prompt-queue/src/combine.rs\<close> and the queue of \<open>xai-grok-pager/src/app/agent.rs\<close>):
    which prompts merge, and how their texts, images and chips are put together.
  \<^item> The permission system (\<open>crates/codegen/xai-grok-workspace/src/permission\<close>):
    \<open>Permission_Types\<close> (\<open>types.rs\<close>), \<open>Rule_Parser\<close> (\<open>rules.rs\<close>), \<open>Command_Words\<close> and \<open>Shell_Tree\<close>
    (\<open>bash_command_splitting.rs\<close>), \<open>Unix_Path\<close> (\<open>normalize_lexically\<close> of \<open>xai-grok-paths\<close>),
    \<open>Path_Rules\<close>, \<open>Inline_Shell\<close>, \<open>Decision_Order\<close>, \<open>Rule_Matching\<close>, \<open>Permission_Policy\<close> (all of
    \<open>policy.rs\<close>), \<open>Policy_Props\<close>, \<open>Gate_Preflight\<close> (\<open>gate_preflight.rs\<close>). A request is turned into an
    access; the policy evaluates it by its rules; a bash script is also decomposed into commands,
    each of them peeled of its wrappers, matched, and searched for a script of its own; the
    preflight combines the verdicts and decides whether a classifier may answer instead of a user.

  \<^bold>\<open>How the model reads.\<close> A struct is a record, an enum a datatype, a method a definition that takes
  the state and returns it changed, an error the left side of a sum, a missing value \<open>None\<close>. A loop
  over a list is recursion on it; a loop with an early return is a recursive function whose branch
  returns. Interfaces are locales, each interpreted on the definitions of the model: the queue of
  events, the sample window, one peeling step (wrappers and transparent prefixes), and the choice
  of the stronger verdict (gate decisions and plain decisions).

  \<^bold>\<open>Parameters.\<close> What the repository only calls is an argument: the tree-sitter grammar
  (\<open>shell_parser\<close>, a script to its tree), and in the record \<open>environment\<close> the crates \<open>glob\<close> and \<open>url\<close>,
  the Unicode lower-case mapping and the file system (\<open>canonicalize\<close>, \<open>symlink_metadata\<close>,
  \<open>read_link\<close>). No theorem assumes anything about them. The rounding of the window's division is a
  parameter as well. Clocks are arguments of the operations that read them.

  \<^bold>\<open>Bounds and fuel.\<close> Every bound is one of the source: eight wrappers, eight prefixes and sixteen
  rounds of normalization, eight levels of inline scripts, forty levels of symbolic links. A
  recursion with such a depth counts it down as a natural number, so no function runs out of
  anything the code does not run out of; the other recursions have a measure.

  \<^bold>\<open>What the theorems show.\<close> Breaker: the legal paths of states, the limit on probes, recovery after
  the cool-down, exact tripping; under interleaving, where the fast mirror is exact and how it can
  go stale. Queues: conservation of events, restoration after cancellation, delivery at most once,
  chips that keep their bytes, unique identifiers. Commands: normalization reaches the command, an
  accepted script is nothing but plain commands, quoting and rule syntax round-trip. Policy: the
  loop over the rules equals the declared precedence and ignores their order; every command at any
  depth is checked against deny and ask rules (\<open>gate_reaches_every_command\<close>, by rule induction on
  \<open>nested\<close>); silence of the gate means the script was understood; an allowed script is allowed
  command by command; path spellings depend on the place a path leads to and not on how it is
  written; links only tighten; an ask that a rule demanded stays with the user.

  \<^bold>\<open>Where the code falls short\<close> is proved as well: the stale mirror (\<open>is_open_sticks_after_race\<close>), the
  wrapped probe counter (\<open>probe_counter_wraps_while_open\<close>), the long options of \<open>stdbuf\<close>
  (\<open>stdbuf_long_option_hides_command\<close>), and an \<open>env -S\<close> right behind the last round of normalization
  (\<open>spent_budget_hides_split_string\<close>).

  \<^bold>\<open>Not modelled.\<close> Paths with drive prefixes (the model is of a Unix build); the floating-point
  percentages of the token display; configuration from environment variables; the gate on files a
  shell command touches (an argument of the preflight), the risk analysis of executables, the
  permission manager with its grants, the layering of settings; the user interface, sampling,
  tools, configuration, telemetry, transport and third-party code. In this order of plan: the grants
  of the permission manager, the shell-file gate, the hunk tracker, compaction, chat state.
\<close>

end
